(* ===== verification/Prelude.thy ===== *)
theory Prelude
  imports Main
begin

section \<open>Shared vocabulary of the development\<close>

text \<open>
  What every component theory uses: the collections of simplification rules
  that the component theories fill, the shape of fallible results
  (\<open>Result\<close> of the source is a sum, \<open>Inl\<close> the error), and a few facts on
  lists, options and maps that several components need.
\<close>

named_theorems str_simps "byte offsets, slices and trimming of strings"
named_theorems step_defs "one-step operations of the state machines"

type_synonym ('a, 'e) result = "'e + 'a"

abbreviation Ok :: "'a \<Rightarrow> ('a, 'e) result" where
  "Ok \<equiv> Inr"

abbreviation Err :: "'e \<Rightarrow> ('a, 'e) result" where
  "Err \<equiv> Inl"

text \<open>The machine integers of the source: the values are mathematical integers,
  the width is written out where a conversion can lose bits.\<close>

type_synonym i64 = int
type_synonym usize = nat

definition i64_max :: int where
  "i64_max = 2 ^ 63 - 1"

definition i64_min :: int where
  "i64_min = - (2 ^ 63)"

definition usize_max :: nat where
  "usize_max = 2 ^ 64 - 1"

text \<open>\<open>?\<close> on a \<open>Result\<close>: stop at the first error.\<close>

definition try_bind :: "('a, 'e) result \<Rightarrow> ('a \<Rightarrow> ('b, 'e) result) \<Rightarrow> ('b, 'e) result" where
  "try_bind r f = (case r of Inl e \<Rightarrow> Inl e | Inr x \<Rightarrow> f x)"

lemma try_bind_simps [simp]:
  "try_bind (Inl e) f = Inl e"
  "try_bind (Inr x) f = f x"
  by (simp_all add: try_bind_def)

lemma try_bind_eq_Inr [simp]:
  "try_bind r f = Inr y \<longleftrightarrow> (\<exists>x. r = Inr x \<and> f x = Inr y)"
  by (auto simp: try_bind_def split: sum.splits)

definition ok_or :: "'e \<Rightarrow> 'a option \<Rightarrow> ('a, 'e) result" where
  "ok_or e x = (case x of None \<Rightarrow> Inl e | Some v \<Rightarrow> Inr v)"

lemma ok_or_simps [simp]:
  "ok_or e None = Inl e"
  "ok_or e (Some v) = Inr v"
  by (simp_all add: ok_or_def)

definition is_ok :: "('a, 'e) result \<Rightarrow> bool" where
  "is_ok r = (case r of Inl _ \<Rightarrow> False | Inr _ \<Rightarrow> True)"

lemma is_ok_simps [simp]: "is_ok (Inl e) = False" "is_ok (Inr x) = True"
  by (simp_all add: is_ok_def)

lemma is_ok_iff: "is_ok r \<longleftrightarrow> (\<exists>x. r = Inr x)"
  by (cases r) simp_all

text \<open>The first element a search finds, with the prefix it skipped.\<close>

lemma find_Some_split:
  assumes "find P xs = Some x"
  obtains ys zs where "xs = ys @ x # zs" and "P x" and "\<And>y. y \<in> set ys \<Longrightarrow> \<not> P y"
proof -
  from assms obtain i where i: "i < length xs" "P (xs ! i)" "x = xs ! i"
    and before: "\<forall>j<i. \<not> P (xs ! j)"
    by (auto simp: find_Some_iff)
  show thesis
  proof (rule that)
    show "xs = take i xs @ x # drop (Suc i) xs"
      using i id_take_nth_drop by fastforce
    show "P x" using i by simp
    show "\<not> P y" if "y \<in> set (take i xs)" for y
      using that before i by (auto simp: in_set_conv_nth)
  qed
qed

lemma find_in_set: "find P xs = Some x \<Longrightarrow> x \<in> set xs \<and> P x"
  by (auto simp: find_Some_iff)

lemma find_unique:
  assumes "x \<in> set xs" and "P x" and "\<And>y. y \<in> set xs \<Longrightarrow> P y \<Longrightarrow> y = x"
  shows "find P xs = Some x"
proof (cases "find P xs")
  case None
  with assms(1,2) show ?thesis by (auto simp: find_None_iff)
next
  case (Some y)
  with assms(3) [of y] find_in_set [OF Some] show ?thesis by simp
qed

text \<open>The last \<open>n\<close> elements of a list, as \<open>rev\<close>, \<open>take\<close> and \<open>rev\<close> compute them.\<close>

definition last_n :: "nat \<Rightarrow> 'a list \<Rightarrow> 'a list" where
  "last_n n xs = drop (length xs - n) xs"

lemma rev_take_rev: "rev (take n (rev xs)) = last_n n xs"
  by (simp add: last_n_def take_rev)

lemma length_last_n [simp]: "length (last_n n xs) = min n (length xs)"
  by (simp add: last_n_def)

lemma last_n_map: "last_n n (map f xs) = map f (last_n n xs)"
  by (simp add: last_n_def drop_map)

lemma last_n_append_ge: "length ys \<le> n \<Longrightarrow> last_n n (xs @ ys) = last_n (n - length ys) xs @ ys"
  by (simp add: last_n_def)

lemma dropLast_last_n: "take (length xs - n) xs @ last_n n xs = xs"
  by (simp add: last_n_def)

text \<open>Short runs of a step relation.\<close>

lemma rtranclp_2: "r a b \<Longrightarrow> r b c \<Longrightarrow> r\<^sup>*\<^sup>* a c"
  by (meson converse_rtranclp_into_rtranclp r_into_rtranclp)

lemma rtranclp_3: "r a b \<Longrightarrow> r b c \<Longrightarrow> r c d \<Longrightarrow> r\<^sup>*\<^sup>* a d"
  by (rule converse_rtranclp_into_rtranclp [OF _ rtranclp_2])

lemma rtranclp_4: "r a b \<Longrightarrow> r b c \<Longrightarrow> r c d \<Longrightarrow> r d e \<Longrightarrow> r\<^sup>*\<^sup>* a e"
  by (rule converse_rtranclp_into_rtranclp [OF _ rtranclp_3])

subsection \<open>Runs of a deterministic scheduler\<close>

text \<open>At most so many moves.\<close>

fun moves :: "nat \<Rightarrow> ('d \<Rightarrow> 'd option) \<Rightarrow> 'd \<Rightarrow> 'd" where
  "moves 0 f d = d"
| "moves (Suc n) f d = (case f d of None \<Rightarrow> d | Some d' \<Rightarrow> moves n f d')"

lemma moves_numeral:
  "moves (numeral n) f d = (case f d of None \<Rightarrow> d | Some d' \<Rightarrow> moves (pred_numeral n) f d')"
  by (simp add: numeral_eq_Suc)

lemma moves_steps:
  assumes "\<And>d d'. f d = Some d' \<Longrightarrow> R d d'"
  shows "R\<^sup>*\<^sup>* d (moves n f d)"
proof (induction n arbitrary: d)
  case (Suc n)
  then show ?case by (cases "f d") (auto intro: converse_rtranclp_into_rtranclp assms)
qed simp

end
