(* ===== verification/Rust_Str.thy ===== *)
theory Rust_Str
  imports Prelude "HOL-Library.Sublist"
begin

section \<open>Rust strings\<close>

text \<open>
  A Rust \<open>char\<close> is a Unicode scalar value, here its code point as an integer; a
  \<open>str\<close> is the list of its characters. Lengths and indices that the source takes
  in bytes (\<open>len\<close>, \<open>char_indices\<close>, \<open>rfind\<close>, slicing) are byte offsets of the
  UTF-8 encoding here too: a slice at an offset that is not a character boundary
  panics in Rust and is \<open>None\<close> here.

  Russian literals of the source are written in the KOI-7 alphabet, in which every
  Cyrillic letter has a Latin look-alike (\<open>cyr\<close>); characters outside the table
  stand for themselves.
\<close>

type_synonym rchar = int
type_synonym rstr = "rchar list"

definition koi_table :: "(char \<times> rchar) list" where
  "koi_table =
     zip ''abwgdevzijklmnoprstufhc~{}_yx|`q'' [1072..1103] @
     zip ''ABWGDEVZIJKLMNOPRSTUFHC^[]'' [1040..1065] @
     [(CHR ''#'', 1105), (CHR ''$'', 1025), (CHR ''<'', 171), (CHR ''>'', 187),
      (CHR ''='', 8212), (CHR ''%'', 8230)]"

definition cyr :: "string \<Rightarrow> rstr" where
  "cyr s = map (\<lambda>c. case map_of koi_table c of Some k \<Rightarrow> k | None \<Rightarrow> of_char c) s"

text \<open>The same table as a decision tree, for evaluation.\<close>

definition koi_code :: "int \<Rightarrow> rchar" where
  "koi_code n = (
     if n < 92 then (if n < 68 then (if n < 60 then (if n < 36 then (if n < 35 then n else n + 1070) else (if
     n < 37 then n + 989 else (if n < 38 then n + 8193 else n))) else (if n < 63 then (if n < 61 then n + 111
     else (if n < 62 then n + 8151 else n + 125)) else (if n < 65 then n else (if n < 67 then n + 975 else n +
     995)))) else (if n < 82 then (if n < 72 then (if n < 70 then n + 976 else (if n < 71 then n + 990 else n
     + 972)) else (if n < 73 then n + 989 else (if n < 81 then n + 975 else n))) else (if n < 88 then (if n <
     86 then n + 974 else (if n < 87 then n + 960 else n + 955)) else (if n < 90 then n else (if n < 91 then n
     + 957 else n + 973))))) else (if n < 113 then (if n < 99 then (if n < 95 then (if n < 93 then n else (if
     n < 94 then n + 972 else n + 969)) else (if n < 96 then n + 1003 else (if n < 97 then n + 1006 else n +
     975))) else (if n < 103 then (if n < 100 then n + 995 else (if n < 102 then n + 976 else n + 990)) else
     (if n < 104 then n + 972 else (if n < 105 then n + 989 else n + 975)))) else (if n < 122 then (if n < 119
     then (if n < 114 then n + 990 else (if n < 118 then n + 974 else n + 960)) else (if n < 120 then n + 955
     else (if n < 121 then n + 980 else n + 978))) else (if n < 125 then (if n < 123 then n + 957 else (if n <
     124 then n + 973 else n + 977)) else (if n < 126 then n + 972 else (if n < 127 then n + 969 else n))))))"

lemma koi_code_char: "(case map_of koi_table c of Some k \<Rightarrow> k | None \<Rightarrow> of_char c) = koi_code (of_char c)"
proof -
  have "\<forall>b0 b1 b2 b3 b4 b5 b6 b7. (case map_of koi_table (Char b0 b1 b2 b3 b4 b5 b6 b7) of Some k \<Rightarrow> k
      | None \<Rightarrow> of_char (Char b0 b1 b2 b3 b4 b5 b6 b7)) = koi_code (of_char (Char b0 b1 b2 b3 b4 b5 b6 b7))"
    by code_simp
  then show ?thesis by (cases c) (simp only:)
qed

lemma cyr_code [code]: "cyr s = map (\<lambda>c. koi_code (of_char c)) s"
  by (simp add: cyr_def koi_code_char)

text \<open>ASCII literals.\<close>

definition asc :: "string \<Rightarrow> rstr" where
  "asc s = map of_char s"

text \<open>The bytes of an ASCII letter or digit test.\<close>

definition is_ascii_digit :: "rchar \<Rightarrow> bool" where
  "is_ascii_digit c \<longleftrightarrow> 48 \<le> c \<and> c \<le> 57"

definition is_ascii_alphanumeric :: "rchar \<Rightarrow> bool" where
  "is_ascii_alphanumeric c \<longleftrightarrow>
     (48 \<le> c \<and> c \<le> 57) \<or> (65 \<le> c \<and> c \<le> 90) \<or> (97 \<le> c \<and> c \<le> 122)"

text \<open>\<open>char::is_whitespace\<close>: the Unicode property White\_Space, in full.\<close>

definition is_whitespace :: "rchar \<Rightarrow> bool" where
  "is_whitespace c \<longleftrightarrow>
     (9 \<le> c \<and> c \<le> 13) \<or> c = 32 \<or> c = 133 \<or> c = 160 \<or> c = 5760 \<or>
     (8192 \<le> c \<and> c \<le> 8202) \<or> c = 8232 \<or> c = 8233 \<or> c = 8239 \<or> c = 8287 \<or> c = 12288"

text \<open>\<open>char::len_utf8\<close> and \<open>str::len\<close>.\<close>

definition len_utf8 :: "rchar \<Rightarrow> nat" where
  "len_utf8 c = (if c < 128 then 1 else if c < 2048 then 2 else if c < 65536 then 3 else 4)"

fun str_len :: "rstr \<Rightarrow> nat" where
  "str_len [] = 0"
| "str_len (c # s) = len_utf8 c + str_len s"

text \<open>\<open>str::char_indices\<close>: each character with the byte offset where it starts.\<close>

fun char_indices_from :: "nat \<Rightarrow> rstr \<Rightarrow> (nat \<times> rchar) list" where
  "char_indices_from off [] = []"
| "char_indices_from off (c # s) = (off, c) # char_indices_from (off + len_utf8 c) s"

definition char_indices :: "rstr \<Rightarrow> (nat \<times> rchar) list" where
  "char_indices s = char_indices_from 0 s"

text \<open>\<open>Iterator::nth\<close>.\<close>

definition iter_nth :: "'a list \<Rightarrow> nat \<Rightarrow> 'a option" where
  "iter_nth xs n = (case drop n xs of [] \<Rightarrow> None | x # _ \<Rightarrow> Some x)"

text \<open>The slices \<open>&s[..n]\<close> and \<open>&s[n..]\<close>.\<close>

fun slice_to :: "rstr \<Rightarrow> nat \<Rightarrow> rstr option" where
  "slice_to [] n = (if n = 0 then Some [] else None)"
| "slice_to (c # s) n =
     (if n = 0 then Some []
      else if n < len_utf8 c then None
      else map_option (Cons c) (slice_to s (n - len_utf8 c)))"

fun slice_from :: "rstr \<Rightarrow> nat \<Rightarrow> rstr option" where
  "slice_from [] n = (if n = 0 then Some [] else None)"
| "slice_from (c # s) n =
     (if n = 0 then Some (c # s)
      else if n < len_utf8 c then None
      else slice_from s (n - len_utf8 c))"

text \<open>Searching and trimming.\<close>

definition starts_with :: "rstr \<Rightarrow> rstr \<Rightarrow> bool" where
  "starts_with s p = (take (length p) s = p)"

lemma starts_with_code [code]:
  "starts_with s [] = True" "starts_with [] (d # p) = False"
  "starts_with (c # s) (d # p) = (c = d \<and> starts_with s p)"
  by (auto simp: starts_with_def)

definition strip_prefix :: "rstr \<Rightarrow> rstr \<Rightarrow> rstr option" where
  "strip_prefix s p = (if starts_with s p then Some (drop (length p) s) else None)"

fun str_contains :: "rstr \<Rightarrow> rstr \<Rightarrow> bool" where
  "str_contains [] p = (p = [])"
| "str_contains (c # s) p = (starts_with (c # s) p \<or> str_contains s p)"

fun rfind_from :: "nat \<Rightarrow> (rstr \<Rightarrow> bool) \<Rightarrow> rstr \<Rightarrow> nat option" where
  "rfind_from off P [] = (if P [] then Some off else None)"
| "rfind_from off P (c # s) =
     (case rfind_from (off + len_utf8 c) P s of
        Some i \<Rightarrow> Some i
      | None \<Rightarrow> if P (c # s) then Some off else None)"

definition rfind_str :: "rstr \<Rightarrow> rstr \<Rightarrow> nat option" where
  "rfind_str s p = rfind_from 0 (\<lambda>t. starts_with t p) s"

definition rfind_char :: "rstr \<Rightarrow> (rchar \<Rightarrow> bool) \<Rightarrow> nat option" where
  "rfind_char s P = rfind_from 0 (\<lambda>t. case t of [] \<Rightarrow> False | c # _ \<Rightarrow> P c) s"

definition trim_end_matches :: "(rchar \<Rightarrow> bool) \<Rightarrow> rstr \<Rightarrow> rstr" where
  "trim_end_matches P s = rev (dropWhile P (rev s))"

definition trim_end :: "rstr \<Rightarrow> rstr" where
  "trim_end s = trim_end_matches is_whitespace s"

definition trim :: "rstr \<Rightarrow> rstr" where
  "trim s = dropWhile is_whitespace (trim_end s)"

fun split_on :: "(rchar \<Rightarrow> bool) \<Rightarrow> rstr \<Rightarrow> rstr list" where
  "split_on P [] = [[]]"
| "split_on P (c # s) =
     (if P c then [] # split_on P s
      else (case split_on P s of [] \<Rightarrow> [[c]] | w # ws \<Rightarrow> (c # w) # ws))"

definition split_whitespace :: "rstr \<Rightarrow> rstr list" where
  "split_whitespace s = filter (\<lambda>w. w \<noteq> []) (split_on is_whitespace s)"

fun join :: "rstr \<Rightarrow> rstr list \<Rightarrow> rstr" where
  "join sep [] = []"
| "join sep [w] = w"
| "join sep (w # ws) = w @ sep @ join sep ws"

text \<open>Decimal printing and \<open>str::parse\<close> of integers.\<close>

fun show_nat :: "nat \<Rightarrow> rstr" where
  "show_nat n = (if n < 10 then [48 + int n] else show_nat (n div 10) @ [48 + int (n mod 10)])"

declare show_nat.simps [simp del]

definition show_int :: "int \<Rightarrow> rstr" where
  "show_int i = (if i < 0 then 45 # show_nat (nat (- i)) else show_nat (nat i))"

definition digits_value :: "rstr \<Rightarrow> int" where
  "digits_value ds = foldl (\<lambda>n c. 10 * n + (c - 48)) 0 ds"

definition parse_digits :: "rstr \<Rightarrow> int option" where
  "parse_digits ds = (if ds = [] \<or> \<not> list_all is_ascii_digit ds then None else Some (digits_value ds))"

definition parse_usize :: "rstr \<Rightarrow> usize option" where
  "parse_usize s =
     (case parse_digits (case s of c # t \<Rightarrow> if c = 43 then t else s | [] \<Rightarrow> []) of
        None \<Rightarrow> None
      | Some n \<Rightarrow> if n \<le> int usize_max then Some (nat n) else None)"

definition parse_i64 :: "rstr \<Rightarrow> i64 option" where
  "parse_i64 s =
     (case s of
        [] \<Rightarrow> None
      | c # t \<Rightarrow>
          (case (if c = 45 then map_option uminus (parse_digits t)
                 else parse_digits (if c = 43 then t else s)) of
             None \<Rightarrow> None
           | Some n \<Rightarrow> if i64_min \<le> n \<and> n \<le> i64_max then Some n else None))"

text \<open>
  The Unicode character database of the standard library is a parameter: which
  characters are alphanumeric, and \<open>str::to_lowercase\<close>. The instance
  \<open>basic_unicode\<close> has the tables of ASCII and of the Russian alphabet; concrete
  evaluations use it.
\<close>

record unicode =
  is_alphanumeric :: "rchar \<Rightarrow> bool"
  to_lowercase :: "rstr \<Rightarrow> rstr"

definition basic_lower :: "rchar \<Rightarrow> rchar" where
  "basic_lower c =
     (if 65 \<le> c \<and> c \<le> 90 then c + 32
      else if 1040 \<le> c \<and> c \<le> 1071 then c + 32
      else if c = 1025 then 1105 else c)"

definition basic_alphanumeric :: "rchar \<Rightarrow> bool" where
  "basic_alphanumeric c \<longleftrightarrow>
     is_ascii_alphanumeric c \<or> (1040 \<le> c \<and> c \<le> 1103) \<or> c = 1025 \<or> c = 1105"

definition basic_unicode :: unicode where
  "basic_unicode = \<lparr>is_alphanumeric = basic_alphanumeric, to_lowercase = map basic_lower\<rparr>"

text \<open>
  What the source relies on: white space is never alphanumeric, lowering is
  idempotent character by character (a string all of whose characters are fixed
  by lowering is fixed, and lowering produces only such characters), it never
  produces or removes a string altogether, and it fixes white space and the
  Cyrillic \<open>e\<close> that \<open>normalize\<close> puts in.
\<close>

locale unicode_db =
  fixes uc :: unicode
  assumes ws_not_alphanumeric: "is_whitespace c \<Longrightarrow> \<not> is_alphanumeric uc c"
    and lower_output_fixed: "c \<in> set (to_lowercase uc s) \<Longrightarrow> to_lowercase uc [c] = [c]"
    and lower_fixed: "(\<And>c. c \<in> set s \<Longrightarrow> to_lowercase uc [c] = [c]) \<Longrightarrow> to_lowercase uc s = s"
    and lower_empty: "to_lowercase uc s = [] \<longleftrightarrow> s = []"
    and lower_whitespace: "is_whitespace c \<Longrightarrow> to_lowercase uc [c] = [c]"
    and lower_ie: "to_lowercase uc [1077] = [1077]"
begin

lemma lower_space: "to_lowercase uc [32] = [32]"
  by (rule lower_whitespace) (simp add: is_whitespace_def)

lemma lower_idem: "to_lowercase uc (to_lowercase uc s) = to_lowercase uc s"
  by (rule lower_fixed) (rule lower_output_fixed)

end

interpretation basic: unicode_db basic_unicode
proof unfold_locales
  show "is_whitespace c \<Longrightarrow> \<not> is_alphanumeric basic_unicode c" for c
    by (auto simp: basic_unicode_def basic_alphanumeric_def is_ascii_alphanumeric_def is_whitespace_def)
  show "c \<in> set (to_lowercase basic_unicode s) \<Longrightarrow> to_lowercase basic_unicode [c] = [c]" for c s
    by (auto simp: basic_unicode_def basic_lower_def)
  show "to_lowercase basic_unicode s = s"
    if "\<And>c. c \<in> set s \<Longrightarrow> to_lowercase basic_unicode [c] = [c]" for s
    using that by (induction s) (auto simp: basic_unicode_def)
  show "(to_lowercase basic_unicode s = []) = (s = [])" for s
    by (simp add: basic_unicode_def)
  show "is_whitespace c \<Longrightarrow> to_lowercase basic_unicode [c] = [c]" for c
    by (auto simp: basic_unicode_def basic_lower_def is_whitespace_def)
  show "to_lowercase basic_unicode [1077] = [1077]"
    by (simp add: basic_unicode_def basic_lower_def)
qed

subsection \<open>Byte offsets and slices\<close>

lemma len_utf8_pos [simp]: "0 < len_utf8 c"
  by (simp add: len_utf8_def)

lemma len_utf8_neq_0 [simp]: "len_utf8 c \<noteq> 0"
  using len_utf8_pos [of c] by linarith

lemma str_len_append [str_simps, simp]: "str_len (s @ t) = str_len s + str_len t"
  by (induction s) simp_all

lemma str_len_0_iff [simp]: "str_len s = 0 \<longleftrightarrow> s = []"
  by (cases s) simp_all

lemma slice_to_boundary [str_simps, simp]: "slice_to (a @ b) (str_len a) = Some a"
  by (induction a) (cases b, simp_all)

lemma slice_from_boundary [str_simps, simp]: "slice_from (a @ b) (str_len a) = Some b"
  by (induction a) (cases b, simp_all)

lemma slice_to_all [simp]: "slice_to s (str_len s) = Some s"
  using slice_to_boundary [of s "[]"] by simp

lemma char_indices_from_append [str_simps]:
  "char_indices_from off (s @ t) = char_indices_from off s @ char_indices_from (off + str_len s) t"
  by (induction s arbitrary: off) (simp_all add: add.assoc)

lemma length_char_indices_from [simp]: "length (char_indices_from off s) = length s"
  by (induction s arbitrary: off) simp_all

lemma length_char_indices [simp]: "length (char_indices s) = length s"
  by (simp add: char_indices_def)

lemma drop_char_indices_from:
  "drop n (char_indices_from off s) = char_indices_from (off + str_len (take n s)) (drop n s)"
proof (induction s arbitrary: off n)
  case (Cons c s)
  then show ?case by (cases n) (simp_all add: add.assoc)
qed simp

lemma iter_nth_char_indices:
  assumes "n < length s"
  shows "iter_nth (char_indices s) n = Some (str_len (take n s), s ! n)"
proof -
  from assms have "drop n s = s ! n # drop (Suc n) s"
    by (simp add: Cons_nth_drop_Suc)
  then show ?thesis
    by (simp add: iter_nth_def char_indices_def drop_char_indices_from)
qed

text \<open>Membership in \<open>char_indices\<close> is a split of the string at a character.\<close>

lemma char_indices_from_split:
  assumes "(i, c) \<in> set (char_indices_from off s)"
  shows "\<exists>a b. s = a @ c # b \<and> i = off + str_len a"
  using assms
proof (induction s arbitrary: off)
  case (Cons d s)
  show ?case
  proof (cases "(i, c) = (off, d)")
    case True
    then have "d # s = [] @ c # s \<and> i = off + str_len []" by simp
    then show ?thesis by blast
  next
    case False
    with Cons.prems have "(i, c) \<in> set (char_indices_from (off + len_utf8 d) s)" by auto
    then obtain a b where "s = a @ c # b" "i = off + len_utf8 d + str_len a"
      using Cons.IH by blast
    then have "d # s = (d # a) @ c # b \<and> i = off + str_len (d # a)" by simp
    then show ?thesis by blast
  qed
qed simp

lemma char_indices_split:
  assumes "(i, c) \<in> set (char_indices s)"
  obtains a b where "s = a @ c # b" and "i = str_len a"
proof -
  from assms obtain a b where "s = a @ c # b \<and> i = 0 + str_len a"
    using char_indices_from_split unfolding char_indices_def by blast
  then show thesis using that by simp
qed

text \<open>What \<open>rfind\<close> returns: the last position at which the pattern holds.\<close>

lemma rfind_from_Some:
  assumes "rfind_from off P s = Some i"
  shows "\<exists>a b. s = a @ b \<and> i = off + str_len a \<and> P b"
  using assms
proof (induction s arbitrary: off)
  case Nil
  then show ?case by (simp split: if_splits)
next
  case (Cons c s)
  show ?case
  proof (cases "rfind_from (off + len_utf8 c) P s")
    case None
    with Cons.prems have "c # s = [] @ (c # s) \<and> i = off + str_len [] \<and> P (c # s)"
      by (simp split: if_splits)
    then show ?thesis by blast
  next
    case (Some j)
    with Cons.prems have "j = i" by simp
    with Some obtain a b where "s = a @ b" "i = off + len_utf8 c + str_len a" "P b"
      using Cons.IH by blast
    then have "c # s = (c # a) @ b \<and> i = off + str_len (c # a) \<and> P b" by simp
    then show ?thesis by blast
  qed
qed

lemma rfind_from_None_iff: "rfind_from off P s = None \<longleftrightarrow> (\<forall>a b. s = a @ b \<longrightarrow> \<not> P b)"
proof (induction s arbitrary: off)
  case (Cons c s)
  show ?case
    by (cases "rfind_from (off + len_utf8 c) P s")
       (use Cons.IH [of "off + len_utf8 c"] in \<open>auto simp: Cons_eq_append_conv\<close>)
qed simp

lemma rfind_str_Some:
  assumes "rfind_str s p = Some i"
  obtains a b where "s = a @ p @ b" and "i = str_len a"
proof -
  from assms obtain a t where "s = a @ t \<and> i = 0 + str_len a \<and> starts_with t p"
    using rfind_from_Some unfolding rfind_str_def by blast
  then have "s = a @ t" "i = str_len a" "starts_with t p" by simp_all
  moreover from this have "t = p @ drop (length p) t"
    by (metis append_take_drop_id starts_with_def)
  ultimately show thesis using that by metis
qed

lemma rfind_char_Some:
  assumes "rfind_char s P = Some i"
  obtains a c b where "s = a @ c # b" and "i = str_len a" and "P c"
proof -
  from assms obtain a t where
    "s = a @ t \<and> i = 0 + str_len a \<and> (case t of [] \<Rightarrow> False | c # _ \<Rightarrow> P c)"
    using rfind_from_Some unfolding rfind_char_def by blast
  then have "s = a @ t" "i = str_len a" and t: "case t of [] \<Rightarrow> False | c # _ \<Rightarrow> P c"
    by simp_all
  moreover from t obtain c b where "t = c # b" "P c" by (cases t) simp_all
  ultimately show thesis using that by simp
qed

lemma rfind_char_last:
  assumes "rfind_char s P = Some i"
  obtains a c b where "s = a @ c # b" and "i = str_len a" and "P c" and "\<forall>x \<in> set b. \<not> P x"
proof -
  let ?Q = "\<lambda>t. case t of [] \<Rightarrow> False | c # _ \<Rightarrow> P c"
  have none: "rfind_from off ?Q s = None \<Longrightarrow> \<forall>x \<in> set s. \<not> P x" for off s
    by (force simp: rfind_from_None_iff in_set_conv_decomp split: list.splits)
  have "rfind_from off ?Q s = Some i \<Longrightarrow>
      \<exists>a c b. s = a @ c # b \<and> i = off + str_len a \<and> P c \<and> (\<forall>x \<in> set b. \<not> P x)" for off
  proof (induction s arbitrary: off)
    case (Cons c s)
    show ?case
    proof (cases "rfind_from (off + len_utf8 c) ?Q s")
      case None
      with Cons.prems none [OF None] show ?thesis
        by (intro exI [of _ "[]"] exI [of _ c] exI [of _ s]) (simp split: if_splits)
    next
      case (Some j)
      with Cons.prems have "rfind_from (off + len_utf8 c) ?Q s = Some i" by simp
      from Cons.IH [OF this] obtain a d b where "s = a @ d # b" "i = off + len_utf8 c + str_len a" "P d" "\<forall>x \<in> set b. \<not> P x"
        by blast
      then show ?thesis by (intro exI [of _ "c # a"] exI [of _ d] exI [of _ b]) simp
    qed
  qed simp
  from this [of 0] assms that show thesis unfolding rfind_char_def by auto
qed

lemma rfind_char_None: "rfind_char s P = None \<Longrightarrow> c \<in> set s \<Longrightarrow> \<not> P c"
  by (force simp: rfind_char_def rfind_from_None_iff in_set_conv_decomp split: list.splits)

subsection \<open>Prefixes and trimming\<close>

lemma starts_with_iff: "starts_with s p \<longleftrightarrow> (\<exists>t. s = p @ t)"
  by (metis append_eq_conv_conj starts_with_def)

lemma strip_prefix_Some: "strip_prefix s p = Some t \<longleftrightarrow> s = p @ t"
  by (auto simp: strip_prefix_def starts_with_iff)

lemma trim_end_matches_prefix: "\<exists>t. s = trim_end_matches P s @ t \<and> list_all P t"
proof -
  have "rev s = takeWhile P (rev s) @ dropWhile P (rev s)" by simp
  then have "s = trim_end_matches P s @ rev (takeWhile P (rev s))"
    by (metis rev_append rev_rev_ident trim_end_matches_def)
  moreover have "list_all P (rev (takeWhile P (rev s)))"
    by (auto simp: list_all_iff dest: set_takeWhileD)
  ultimately show ?thesis by blast
qed

lemma length_trim_end_le [simp]: "length (trim_end s) \<le> length s"
  using length_dropWhile_le [of is_whitespace "rev s"]
  by (simp add: trim_end_def trim_end_matches_def)

lemma trim_end_matches_last: "trim_end_matches P s \<noteq> [] \<Longrightarrow> \<not> P (last (trim_end_matches P s))"
proof -
  assume "trim_end_matches P s \<noteq> []"
  then have "dropWhile P (rev s) \<noteq> []" by (simp add: trim_end_matches_def)
  then show ?thesis
    by (metis hd_dropWhile hd_rev last_rev rev_rev_ident trim_end_matches_def)
qed

lemma trim_empty_iff: "trim s = [] \<longleftrightarrow> list_all is_whitespace s"
proof -
  have "trim s = [] \<longleftrightarrow> list_all is_whitespace (trim_end s)"
    by (simp add: trim_def list_all_iff)
  also have "\<dots> \<longleftrightarrow> list_all is_whitespace s"
    using trim_end_matches_prefix [of s is_whitespace]
    by (metis list_all_append trim_end_def)
  finally show ?thesis .
qed

subsection \<open>Decimal numerals\<close>

lemma show_nat_digits [simp]: "list_all is_ascii_digit (show_nat n)"
proof (induction n rule: show_nat.induct)
  case (1 n)
  have "is_ascii_digit (48 + int (n mod 10))" and "n < 10 \<Longrightarrow> is_ascii_digit (48 + int n)"
    by (simp_all add: is_ascii_digit_def)
  with 1 show ?case by (subst show_nat.simps) simp
qed

lemma length_show_nat_le: "0 < k \<Longrightarrow> n < 10 ^ k \<Longrightarrow> length (show_nat n) \<le> k"
proof (induction n arbitrary: k rule: show_nat.induct)
  case (1 n)
  show ?case
  proof (cases "n < 10")
    case True
    with 1 show ?thesis by (subst show_nat.simps) simp
  next
    case False
    with 1(3) obtain j where k: "k = Suc j" "0 < j" by (cases k; cases "k - 1") auto
    with 1(3) have "n div 10 < 10 ^ j" by (simp add: less_mult_imp_div_less mult.commute)
    with 1(1) [OF False k(2)] False k show ?thesis by (subst show_nat.simps) simp
  qed
qed

lemma str_len_digits: "list_all is_ascii_digit s \<Longrightarrow> str_len s = length s"
  by (induction s) (auto simp: is_ascii_digit_def len_utf8_def)

end
