(* ===== verification/House_Store.thy ===== *)
theory House_Store
  imports Rust_Str
begin

section \<open>Households and their store\<close>

text \<open>
  Model of \<^verbatim>\<open>crates/bridge-core/src/household.rs\<close> (the data),
  \<^verbatim>\<open>house_store.rs\<close> (the trait \<open>HouseholdStore\<close>, here a record of operations, as a
  trait object is) and the in-memory store of \<^verbatim>\<open>testing.rs\<close>. The locale
  \<open>household_store_laws\<close> is the contract of the trait: a view of the store (the
  thread of each house, the deferred reply and the unread chunks of each surface)
  and what every operation does to it. The engine's lemmas rest on the contract
  alone; the in-memory store here and the Postgres store in \<open>House_Store_Pg\<close>
  both meet it.
\<close>

record surface_identity =
  si_user_id :: rstr
  si_application_id :: rstr

record house_context =
  hc_id :: i64
  hc_name :: rstr
  codex_thread_id :: "rstr option"
  homey_connector_id :: rstr

datatype surface_resolution =
    Bound house_context
  | PairingRequired rstr
  | Unauthorized

datatype pending_reply = NoReply | Thinking | Ready rstr

datatype household_store_error = HouseholdStoreError rstr

type_synonym ('s, 'r) store_op = "'s \<Rightarrow> ('r, household_store_error) result \<times> 's"

text \<open>
  An operation of the trait may await. All but one are one statement or one transaction
  of the database; \<open>resolve_surface\<close> is up to four statements, and other requests and the
  administrator run between them. \<open>resolve_step\<close> is one of them: it ends the operation or
  says which comes next.
\<close>

datatype resolve_point =
    FindBinding
  | FindApplication
  | FindMemberships
  | InsertRequest "i64 option"

datatype resolve_progress = Next resolve_point | Resolved surface_resolution

record 's household_store =
  resolve_step :: "surface_identity \<Rightarrow> resolve_point \<Rightarrow> ('s, resolve_progress) store_op"
  save_thread_id :: "i64 \<Rightarrow> rstr \<Rightarrow> ('s, unit) store_op"
  poll_pending :: "i64 \<Rightarrow> rstr \<Rightarrow> ('s, pending_reply) store_op"
  mark_thinking :: "i64 \<Rightarrow> rstr \<Rightarrow> ('s, unit) store_op"
  save_ready :: "i64 \<Rightarrow> rstr \<Rightarrow> rstr \<Rightarrow> ('s, unit) store_op"
  clear_pending :: "i64 \<Rightarrow> rstr \<Rightarrow> ('s, unit) store_op"
  take_continuation :: "i64 \<Rightarrow> rstr \<Rightarrow> ('s, rstr list option) store_op"
  save_continuation :: "i64 \<Rightarrow> rstr \<Rightarrow> rstr list \<Rightarrow> ('s, unit) store_op"
  clear_continuation :: "i64 \<Rightarrow> rstr \<Rightarrow> ('s, unit) store_op"

text \<open>The whole operation, when nothing comes between its statements.\<close>

fun resolve_from :: "nat \<Rightarrow> 's household_store \<Rightarrow> surface_identity \<Rightarrow> resolve_point \<Rightarrow> ('s, surface_resolution) store_op" where
  "resolve_from 0 S i p s = (Err (HouseholdStoreError []), s)"
| "resolve_from (Suc n) S i p s =
     (case resolve_step S i p s of
        (Inl e, s') \<Rightarrow> (Err e, s')
      | (Inr (Next q), s') \<Rightarrow> resolve_from n S i q s'
      | (Inr (Resolved r), s') \<Rightarrow> (Ok r, s'))"

definition resolve_surface :: "'s household_store \<Rightarrow> surface_identity \<Rightarrow> ('s, surface_resolution) store_op" where
  "resolve_surface S i = resolve_from 4 S i FindBinding"

text \<open>How many statements may still follow.\<close>

fun statements_left :: "resolve_point \<Rightarrow> nat" where
  "statements_left FindBinding = 3"
| "statements_left FindApplication = 2"
| "statements_left FindMemberships = 1"
| "statements_left (InsertRequest h) = 0"

subsection \<open>The in-memory store\<close>

record household_inner =
  houses :: "i64 \<rightharpoonup> house_context"
  members :: "(i64 \<times> rstr) set"
  surfaces :: "rstr \<rightharpoonup> i64 \<times> rstr"
  pending :: "i64 \<times> rstr \<rightharpoonup> pending_reply"
  continuations :: "i64 \<times> rstr \<rightharpoonup> rstr list"

definition mem_fixture :: household_inner where
  "mem_fixture = \<lparr>houses = Map.empty, members = {}, surfaces = Map.empty,
                  pending = Map.empty, continuations = Map.empty\<rparr>"

definition mem_house :: "i64 \<Rightarrow> rstr \<Rightarrow> rstr option \<Rightarrow> rstr \<Rightarrow> household_inner \<Rightarrow> household_inner" where
  "mem_house house_id name thread connector s =
     s\<lparr>houses := (houses s)(house_id \<mapsto> \<lparr>hc_id = house_id, hc_name = name, codex_thread_id = thread,
                                     homey_connector_id = connector\<rparr>)\<rparr>"

definition mem_member :: "i64 \<Rightarrow> rstr \<Rightarrow> household_inner \<Rightarrow> household_inner option" where
  "mem_member house_id user_id s =
     (if houses s house_id = None then None
      else Some (s\<lparr>members := insert (house_id, user_id) (members s)\<rparr>))"

definition mem_surface :: "i64 \<Rightarrow> rstr \<Rightarrow> rstr \<Rightarrow> household_inner \<Rightarrow> household_inner option" where
  "mem_surface house_id user_id application_id s =
     (if (house_id, user_id) \<notin> members s then None
      else if surfaces s application_id \<noteq> None then None
      else Some (s\<lparr>surfaces := (surfaces s)(application_id \<mapsto> (house_id, user_id))\<rparr>))"

definition mem_resolve_surface :: "surface_identity \<Rightarrow> (household_inner, surface_resolution) store_op" where
  "mem_resolve_surface identity s =
     (case surfaces s (si_application_id identity) of
        Some (house_id, user_id) \<Rightarrow>
          (if user_id = si_user_id identity \<and> (house_id, user_id) \<in> members s
           then (case houses s house_id of
                   Some h \<Rightarrow> (Ok (Bound h), s)
                 | None \<Rightarrow> (Err (HouseholdStoreError (asc ''surface house is missing'')), s))
           else (Ok Unauthorized, s))
      | None \<Rightarrow>
          (if \<exists>m \<in> members s. snd m = si_user_id identity
           then (Ok (PairingRequired (asc ''123456'')), s)
           else (Ok Unauthorized, s)))"

text \<open>The whole operation holds the mutex.\<close>

definition mem_resolve_step :: "surface_identity \<Rightarrow> resolve_point \<Rightarrow> (household_inner, resolve_progress) store_op" where
  "mem_resolve_step identity p s = (case mem_resolve_surface identity s of (r, s') \<Rightarrow> (map_sum id Resolved r, s'))"

definition mem_save_thread_id :: "i64 \<Rightarrow> rstr \<Rightarrow> (household_inner, unit) store_op" where
  "mem_save_thread_id house_id thread_id s =
     (case houses s house_id of
        None \<Rightarrow> (Err (HouseholdStoreError (asc ''house is missing'')), s)
      | Some h \<Rightarrow>
          (if (case codex_thread_id h of Some t \<Rightarrow> t \<noteq> thread_id | None \<Rightarrow> False)
           then (Err (HouseholdStoreError (asc ''house already has a different thread'')), s)
           else (Ok (), s\<lparr>houses := (houses s)(house_id \<mapsto> h\<lparr>codex_thread_id := Some thread_id\<rparr>)\<rparr>)))"

definition mem_poll_pending :: "i64 \<Rightarrow> rstr \<Rightarrow> (household_inner, pending_reply) store_op" where
  "mem_poll_pending house_id application_id s =
     (Ok (case pending s (house_id, application_id) of Some p \<Rightarrow> p | None \<Rightarrow> NoReply), s)"

definition mem_mark_thinking :: "i64 \<Rightarrow> rstr \<Rightarrow> (household_inner, unit) store_op" where
  "mem_mark_thinking house_id application_id s =
     (Ok (), s\<lparr>pending := (pending s)((house_id, application_id) \<mapsto> Thinking)\<rparr>)"

definition mem_save_ready :: "i64 \<Rightarrow> rstr \<Rightarrow> rstr \<Rightarrow> (household_inner, unit) store_op" where
  "mem_save_ready house_id application_id text s =
     (Ok (), s\<lparr>pending := (pending s)((house_id, application_id) \<mapsto> Ready text)\<rparr>)"

definition mem_clear_pending :: "i64 \<Rightarrow> rstr \<Rightarrow> (household_inner, unit) store_op" where
  "mem_clear_pending house_id application_id s =
     (Ok (), s\<lparr>pending := (pending s)((house_id, application_id) := None)\<rparr>)"

definition mem_take_continuation :: "i64 \<Rightarrow> rstr \<Rightarrow> (household_inner, rstr list option) store_op" where
  "mem_take_continuation house_id application_id s =
     (Ok (continuations s (house_id, application_id)),
      s\<lparr>continuations := (continuations s)((house_id, application_id) := None)\<rparr>)"

definition mem_save_continuation :: "i64 \<Rightarrow> rstr \<Rightarrow> rstr list \<Rightarrow> (household_inner, unit) store_op" where
  "mem_save_continuation house_id application_id chunks s =
     (let key = (house_id, application_id)
      in if chunks = [] then (Ok (), s\<lparr>continuations := (continuations s)(key := None)\<rparr>)
         else (Ok (), s\<lparr>continuations := (continuations s)(key \<mapsto> chunks)\<rparr>))"

definition mem_clear_continuation :: "i64 \<Rightarrow> rstr \<Rightarrow> (household_inner, unit) store_op" where
  "mem_clear_continuation house_id application_id s =
     (Ok (), s\<lparr>continuations := (continuations s)((house_id, application_id) := None)\<rparr>)"

definition memory_household_store :: "household_inner household_store" where
  "memory_household_store =
     \<lparr>resolve_step = mem_resolve_step,
      save_thread_id = mem_save_thread_id,
      poll_pending = mem_poll_pending,
      mark_thinking = mem_mark_thinking,
      save_ready = mem_save_ready,
      clear_pending = mem_clear_pending,
      take_continuation = mem_take_continuation,
      save_continuation = mem_save_continuation,
      clear_continuation = mem_clear_continuation\<rparr>"

lemmas memory_store_defs =
  memory_household_store_def mem_resolve_step_def mem_resolve_surface_def mem_save_thread_id_def mem_poll_pending_def
  mem_mark_thinking_def mem_save_ready_def mem_clear_pending_def mem_take_continuation_def
  mem_save_continuation_def mem_clear_continuation_def

lemma mem_resolve: "resolve_surface memory_household_store i s = mem_resolve_surface i s"
proof -
  obtain r s' where "mem_resolve_surface i s = (r, s')" by fastforce
  then show ?thesis
    by (cases r) (simp_all add: resolve_surface_def memory_household_store_def mem_resolve_step_def eval_nat_numeral)
qed

subsection \<open>The contract of the trait\<close>

text \<open>What a client can observe of a store: the abstract state of the contract.\<close>

record house_view =
  v_thread :: "i64 \<Rightarrow> rstr option"
  v_pending :: "i64 \<times> rstr \<Rightarrow> pending_reply"
  v_chunks :: "i64 \<times> rstr \<Rightarrow> rstr list option"

definition view_set_thread :: "i64 \<Rightarrow> rstr \<Rightarrow> house_view \<Rightarrow> house_view" where
  "view_set_thread h t v = v\<lparr>v_thread := (v_thread v)(h := Some t)\<rparr>"

definition view_set_pending :: "i64 \<times> rstr \<Rightarrow> pending_reply \<Rightarrow> house_view \<Rightarrow> house_view" where
  "view_set_pending k p v = v\<lparr>v_pending := (v_pending v)(k := p)\<rparr>"

definition view_set_chunks :: "i64 \<times> rstr \<Rightarrow> rstr list \<Rightarrow> house_view \<Rightarrow> house_view" where
  "view_set_chunks k cs v = v\<lparr>v_chunks := (v_chunks v)(k := (if cs = [] then None else Some cs))\<rparr>"

lemma view_set_simps [simp]:
  "v_thread (view_set_thread h t v) = (v_thread v)(h := Some t)"
  "v_thread (view_set_pending k p v) = v_thread v"
  "v_thread (view_set_chunks k cs v) = v_thread v"
  "v_pending (view_set_thread h t v) = v_pending v"
  "v_pending (view_set_pending k p v) = (v_pending v)(k := p)"
  "v_pending (view_set_chunks k cs v) = v_pending v"
  "v_chunks (view_set_thread h t v) = v_chunks v"
  "v_chunks (view_set_pending k p v) = v_chunks v"
  "v_chunks (view_set_chunks k cs v) = (v_chunks v)(k := (if cs = [] then None else Some cs))"
  by (simp_all add: view_set_thread_def view_set_pending_def view_set_chunks_def)

text \<open>
  \<open>effect invar view f upd r s s'\<close>: the operation ended with \<open>r\<close> in \<open>s'\<close>, kept the
  invariant and changed the view by \<open>upd\<close> when it succeeded and not at all when it failed.
\<close>

definition effect :: "('s \<Rightarrow> bool) \<Rightarrow> ('s \<Rightarrow> house_view) \<Rightarrow> (house_view \<Rightarrow> house_view) \<Rightarrow>
    ('r, household_store_error) result \<Rightarrow> 's \<Rightarrow> 's \<Rightarrow> bool" where
  "effect invar view upd r s s' \<longleftrightarrow>
     invar s' \<and> view s' = (case r of Inl _ \<Rightarrow> view s | Inr _ \<Rightarrow> upd (view s))"

locale household_store_laws =
  fixes S :: "'s household_store"
    and invar :: "'s \<Rightarrow> bool"
    and view :: "'s \<Rightarrow> house_view"
    and storable :: "rstr \<Rightarrow> bool"
  assumes resolve_effect:
      "invar s \<Longrightarrow> resolve_step S i pt s = (rr, s') \<Longrightarrow> effect invar view (\<lambda>v. v) rr s s'"
    and resolve_bound:
      "invar s \<Longrightarrow> resolve_step S i pt s = (Ok (Resolved (Bound hc)), s') \<Longrightarrow>
       v_thread (view s) (hc_id hc) = codex_thread_id hc"
    and resolve_ends:
      "resolve_step S i pt s = (Ok (Next q), s') \<Longrightarrow> statements_left q < statements_left pt"
    and save_thread_effect:
      "invar s \<Longrightarrow> save_thread_id S h t s = (r, s') \<Longrightarrow> effect invar view (view_set_thread h t) r s s'"
    and save_thread_once:
      "invar s \<Longrightarrow> save_thread_id S h t s = (Ok u, s') \<Longrightarrow> v_thread (view s) h \<in> {None, Some t}"
    and poll_effect:
      "invar s \<Longrightarrow> poll_pending S h a s = (rp, s') \<Longrightarrow> effect invar view (\<lambda>v. v) rp s s'"
    and poll_result:
      "invar s \<Longrightarrow> poll_pending S h a s = (Ok p, s') \<Longrightarrow> p = v_pending (view s) (h, a)"
    and mark_thinking_effect:
      "invar s \<Longrightarrow> mark_thinking S h a s = (r, s') \<Longrightarrow>
       effect invar view (view_set_pending (h, a) Thinking) r s s'"
    and save_ready_effect:
      "invar s \<Longrightarrow> storable str \<Longrightarrow> save_ready S h a str s = (r, s') \<Longrightarrow>
       effect invar view (view_set_pending (h, a) (Ready str)) r s s'"
    and clear_pending_effect:
      "invar s \<Longrightarrow> clear_pending S h a s = (r, s') \<Longrightarrow>
       effect invar view (view_set_pending (h, a) NoReply) r s s'"
    and take_effect:
      "invar s \<Longrightarrow> take_continuation S h a s = (rc, s') \<Longrightarrow>
       invar s' \<and> (case rc of Inl _ \<Rightarrow> view s' = view s \<or> view s' = view_set_chunks (h, a) [] (view s)
                          | Inr c \<Rightarrow> c = v_chunks (view s) (h, a) \<and>
                                     view s' = view_set_chunks (h, a) [] (view s))"
    and save_continuation_effect:
      "invar s \<Longrightarrow> list_all storable cs \<Longrightarrow> save_continuation S h a cs s = (r, s') \<Longrightarrow>
       effect invar view (view_set_chunks (h, a) cs) r s s'"
    and clear_continuation_effect:
      "invar s \<Longrightarrow> clear_continuation S h a s = (r, s') \<Longrightarrow>
       effect invar view (view_set_chunks (h, a) []) r s s'"
begin

lemmas op_effects =
  resolve_effect save_thread_effect poll_effect mark_thinking_effect save_ready_effect
  clear_pending_effect save_continuation_effect clear_continuation_effect

text \<open>No operation of the contract takes the thread of a house away or replaces it.\<close>

lemma save_thread_monotone:
  assumes "invar s" and "save_thread_id S h t s = (r, s')" and "v_thread (view s) k = Some u"
  shows "v_thread (view s') k = Some u"
proof (cases r)
  case (Inl e)
  with assms save_thread_effect [OF assms(1,2)] show ?thesis by (simp add: effect_def)
next
  case (Inr x)
  with assms save_thread_effect [OF assms(1,2)] save_thread_once [of s h t x s']
  show ?thesis by (auto simp: effect_def)
qed

end

subsection \<open>The in-memory store meets the contract\<close>

definition mem_inv :: "household_inner \<Rightarrow> bool" where
  "mem_inv s \<longleftrightarrow> (\<forall>k h. houses s k = Some h \<longrightarrow> hc_id h = k)"

definition mem_view :: "household_inner \<Rightarrow> house_view" where
  "mem_view s =
     \<lparr>v_thread = (\<lambda>k. Option.bind (houses s k) codex_thread_id),
      v_pending = (\<lambda>k. case pending s k of Some p \<Rightarrow> p | None \<Rightarrow> NoReply),
      v_chunks = (\<lambda>k. continuations s k)\<rparr>"

lemma mem_view_simps [simp]:
  "v_thread (mem_view s) k = Option.bind (houses s k) codex_thread_id"
  "v_pending (mem_view s) k2 = (case pending s k2 of Some p \<Rightarrow> p | None \<Rightarrow> NoReply)"
  "v_chunks (mem_view s) k2 = continuations s k2"
  by (simp_all add: mem_view_def)

interpretation mem: household_store_laws memory_household_store mem_inv mem_view "\<lambda>_. True"
proof unfold_locales
  fix s :: household_inner and i pt and rr :: "(resolve_progress, household_store_error) result" and s'
  assume "mem_inv s" "resolve_step memory_household_store i pt s = (rr, s')"
  then show "effect mem_inv mem_view (\<lambda>v. v) rr s s'"
    by (auto simp: memory_store_defs effect_def split: option.splits prod.splits if_splits sum.splits)
next
  fix s i pt h s'
  assume "mem_inv s" "resolve_step memory_household_store i pt s = (Ok (Resolved (Bound h)), s')"
  then show "v_thread (mem_view s) (hc_id h) = codex_thread_id h"
    by (auto simp: memory_store_defs mem_inv_def split: option.splits prod.splits if_splits)
next
  fix s :: household_inner and i pt q s'
  assume "resolve_step memory_household_store i pt s = (Ok (Next q), s')"
  then show "statements_left q < statements_left pt"
    by (auto simp: memory_household_store_def mem_resolve_step_def map_sum_def split: prod.splits sum.splits)
qed (auto simp: memory_store_defs effect_def mem_inv_def mem_view_def view_set_thread_def
      view_set_pending_def view_set_chunks_def fun_eq_iff Let_def
      split: option.splits if_splits sum.splits)

end
