(* ===== verification/Utf8.thy ===== *)
theory Utf8
  imports Rust_Str
begin

section \<open>UTF-8\<close>

text \<open>
  \<open>str::as_bytes\<close> and \<open>String::from_utf8\<close> of the standard library, which the
  encrypted state passes through. A byte is an integer between 0 and 255. Decoding
  refuses overlong forms, surrogates and values above U+10FFFF, as Rust does.
\<close>

type_synonym byte = int
type_synonym bytes = "byte list"

definition is_scalar :: "rchar \<Rightarrow> bool" where
  "is_scalar c \<longleftrightarrow> (0 \<le> c \<and> c < 55296) \<or> (57344 \<le> c \<and> c < 1114112)"

definition wf_str :: "rstr \<Rightarrow> bool" where
  "wf_str s = list_all is_scalar s"

definition encode_char :: "rchar \<Rightarrow> bytes" where
  "encode_char c =
     (if c < 128 then [c]
      else if c < 2048 then [192 + c div 64, 128 + c mod 64]
      else if c < 65536 then [224 + c div 4096, 128 + c div 64 mod 64, 128 + c mod 64]
      else [240 + c div 262144, 128 + c div 4096 mod 64, 128 + c div 64 mod 64, 128 + c mod 64])"

definition as_bytes :: "rstr \<Rightarrow> bytes" where
  "as_bytes s = concat (map encode_char s)"

definition is_cont :: "byte \<Rightarrow> bool" where
  "is_cont b \<longleftrightarrow> 128 \<le> b \<and> b < 192"

definition decode_char :: "bytes \<Rightarrow> (rchar \<times> bytes) option" where
  "decode_char bs =
     (case bs of
        [] \<Rightarrow> None
      | b # r \<Rightarrow>
          if 0 \<le> b \<and> b < 128 then Some (b, r)
          else if 194 \<le> b \<and> b < 224 then
            (case r of
               b1 # r1 \<Rightarrow> if is_cont b1 then Some ((b - 192) * 64 + (b1 - 128), r1) else None
             | _ \<Rightarrow> None)
          else if 224 \<le> b \<and> b < 240 then
            (case r of
               b1 # b2 # r2 \<Rightarrow>
                 (let c = (b - 224) * 4096 + (b1 - 128) * 64 + (b2 - 128)
                  in if is_cont b1 \<and> is_cont b2 \<and> 2048 \<le> c \<and> is_scalar c then Some (c, r2) else None)
             | _ \<Rightarrow> None)
          else if 240 \<le> b \<and> b < 245 then
            (case r of
               b1 # b2 # b3 # r3 \<Rightarrow>
                 (let c = (b - 240) * 262144 + (b1 - 128) * 4096 + (b2 - 128) * 64 + (b3 - 128)
                  in if is_cont b1 \<and> is_cont b2 \<and> is_cont b3 \<and> 65536 \<le> c \<and> is_scalar c
                     then Some (c, r3) else None)
             | _ \<Rightarrow> None)
          else None)"

lemma decode_char_shorter: "decode_char bs = Some (c, r) \<Longrightarrow> length r < length bs"
  by (auto simp: decode_char_def Let_def split: list.splits if_splits)

function from_utf8 :: "bytes \<Rightarrow> rstr option" where
  "from_utf8 bs =
     (if bs = [] then Some []
      else (case decode_char bs of
              None \<Rightarrow> None
            | Some (c, r) \<Rightarrow> map_option (Cons c) (from_utf8 r)))"
  by pat_completeness auto
termination
  by (relation "measure length") (auto dest: decode_char_shorter)

declare from_utf8.simps [simp del]

lemma as_bytes_simps [simp]:
  "as_bytes [] = []"
  "as_bytes (c # s) = encode_char c @ as_bytes s"
  "as_bytes (s @ t) = as_bytes s @ as_bytes t"
  by (simp_all add: as_bytes_def)

lemma encode_char_nonempty [simp]: "encode_char c \<noteq> []"
  by (simp add: encode_char_def)

text \<open>The byte length that the source reads off a string is the length of its encoding.\<close>

lemma length_encode_char: "length (encode_char c) = len_utf8 c"
  by (simp add: encode_char_def len_utf8_def)

lemma length_as_bytes: "length (as_bytes s) = str_len s"
  by (induction s) (simp_all add: length_encode_char)

text \<open>Decoding a two-, three- or four-byte form from its payload bits.\<close>

lemma decode_char2:
  assumes "2 \<le> q" "q < 32" "0 \<le> m" "m < 64"
  shows "decode_char ((192 + q) # (128 + m) # r) = Some (q * 64 + m, r)"
  using assms by (simp add: decode_char_def is_cont_def)

lemma decode_char3:
  assumes "0 \<le> q" "q < 16" "0 \<le> n" "n < 64" "0 \<le> m" "m < 64"
    and "c = q * 4096 + n * 64 + m" "2048 \<le> c" "is_scalar c"
  shows "decode_char ((224 + q) # (128 + n) # (128 + m) # r) = Some (c, r)"
  using assms by (simp add: decode_char_def is_cont_def)

lemma decode_char4:
  assumes "0 \<le> q" "q < 5" "0 \<le> l" "l < 64" "0 \<le> n" "n < 64" "0 \<le> m" "m < 64"
    and "c = q * 262144 + l * 4096 + n * 64 + m" "65536 \<le> c" "is_scalar c"
  shows "decode_char ((240 + q) # (128 + l) # (128 + n) # (128 + m) # r) = Some (c, r)"
  using assms by (simp add: decode_char_def is_cont_def Let_def add.assoc)

lemma decode_encode_char:
  assumes "is_scalar c"
  shows "decode_char (encode_char c @ r) = Some (c, r)"
proof -
  have c: "0 \<le> c" "c < 1114112" using assms by (auto simp: is_scalar_def)
  define m where "m = c mod 64"
  define n where "n = c div 64 mod 64"
  define l where "l = c div 4096 mod 64"
  have small: "0 \<le> m" "m < 64" "0 \<le> n" "n < 64" "0 \<le> l" "l < 64"
    by (simp_all add: m_def n_def l_def)
  have two: "c = c div 64 * 64 + m" by (simp add: m_def)
  have d1: "c div 64 = c div 4096 * 64 + n"
    using div_mult_mod_eq [of "c div 64" 64] by (simp add: n_def zdiv_zmult2_eq [symmetric])
  have d2: "c div 4096 = c div 262144 * 64 + l"
    using div_mult_mod_eq [of "c div 4096" 64] by (simp add: l_def zdiv_zmult2_eq [symmetric])
  consider "c < 128" | "128 \<le> c" "c < 2048" | "2048 \<le> c" "c < 65536" | "65536 \<le> c"
    by linarith
  then show ?thesis
  proof cases
    case 1
    with c show ?thesis by (simp add: encode_char_def decode_char_def)
  next
    case 2
    have "encode_char c = [192 + c div 64, 128 + m]" using 2 by (simp add: encode_char_def m_def)
    moreover have "2 \<le> c div 64" "c div 64 < 32" using 2 two small by linarith+
    ultimately show ?thesis using decode_char2 [of "c div 64" m r] small two by simp
  next
    case 3
    have enc: "encode_char c = [224 + c div 4096, 128 + n, 128 + m]"
      using 3 by (simp add: encode_char_def m_def n_def)
    have "c = c div 4096 * 4096 + n * 64 + m" using two d1 by linarith
    moreover have "0 \<le> c div 4096" "c div 4096 < 16" using 3 c by simp_all
    ultimately show ?thesis unfolding enc append.simps using small 3 assms by (intro decode_char3)
  next
    case 4
    have enc: "encode_char c = [240 + c div 262144, 128 + l, 128 + n, 128 + m]"
      using 4 by (simp add: encode_char_def m_def n_def l_def)
    have "c = c div 262144 * 262144 + l * 4096 + n * 64 + m" using two d1 d2 by linarith
    moreover have "0 \<le> c div 262144" "c div 262144 < 5" using c by simp_all
    ultimately show ?thesis unfolding enc append.simps using small 4 assms by (intro decode_char4)
  qed
qed

text \<open>Decoding inverts encoding on every string of scalar values.\<close>

lemma from_utf8_as_bytes: "wf_str s \<Longrightarrow> from_utf8 (as_bytes s) = Some s"
proof (induction s)
  case Nil
  then show ?case by (simp add: from_utf8.simps)
next
  case (Cons c s)
  then have "is_scalar c" "from_utf8 (as_bytes s) = Some s" by (simp_all add: wf_str_def)
  then show ?case by (subst from_utf8.simps) (simp add: decode_encode_char)
qed

lemma as_bytes_inject: "wf_str s \<Longrightarrow> wf_str t \<Longrightarrow> as_bytes s = as_bytes t \<longleftrightarrow> s = t"
  by (metis from_utf8_as_bytes option.inject)

text \<open>The byte 0 occurs in an encoding only as the character U+0000.\<close>

lemma zero_in_as_bytes: "wf_str s \<Longrightarrow> 0 \<in> set (as_bytes s) \<longleftrightarrow> 0 \<in> set s"
proof (induction s)
  case (Cons c s)
  then have "is_scalar c" by (simp add: wf_str_def)
  then have "0 \<in> set (encode_char c) \<longleftrightarrow> 0 = c"
    by (auto simp: encode_char_def is_scalar_def; presburger)
  with Cons show ?case by (auto simp: wf_str_def)
qed simp

end
