(* ===== verification/Reply.thy ===== *)
theory Reply
  imports Rust_Str
begin

section \<open>Voice replies cut into chunks\<close>

text \<open>
  Model of \<^verbatim>\<open>crates/bridge-core/src/reply.rs\<close>: how a long answer is cut into
  pieces that fit one spoken turn, and how the next utterance decides whether the
  rest is read. The cutting loop works on byte offsets and slices as the source
  does: \<open>None\<close> is a panic (a slice off a character boundary, a failed assertion)
  or a loop that never ends, and the theorems show that neither happens.
\<close>

definition CONTINUATION_SUFFIX :: rstr where
  "CONTINUATION_SUFFIX = cyr '' Prodolvatx?''"

record shaped_reply =
  spoken :: rstr
  remaining :: "rstr list"

datatype continuation_decision = Continue | Stop | Empty

definition reply_shaper_new :: "usize \<Rightarrow> usize option" where
  "reply_shaper_new limit = (if limit > length CONTINUATION_SUFFIX then Some limit else None)"

definition sentence_or_space_split :: "rstr \<Rightarrow> nat option" where
  "sentence_or_space_split prfx =
     (case find (\<lambda>(_, character). character \<in> set (asc ''.!?'' @ [8230])) (rev (char_indices prfx)) of
        Some (index, character) \<Rightarrow> Some (index + len_utf8 character)
      | None \<Rightarrow>
          map_option fst
            (find (\<lambda>(index, character). index > 0 \<and> is_whitespace character)
               (rev (char_indices prfx))))"

definition preferred_split :: "rstr \<Rightarrow> nat option" where
  "preferred_split prfx =
     (case rfind_str prfx [10, 10] of
        Some index \<Rightarrow>
          (if index + 2 > 0 then Some (index + 2) else sentence_or_space_split prfx)
      | None \<Rightarrow> sentence_or_space_split prfx)"

partial_function (option) split_loop :: "rstr list \<Rightarrow> rstr \<Rightarrow> usize \<Rightarrow> (rstr list \<times> rstr) option" where
  "split_loop chunks text limit =
     (if length text > limit then
        (let exact_end = (case iter_nth (char_indices text) limit of
                            Some (index, _) \<Rightarrow> index | None \<Rightarrow> str_len text)
         in case slice_to text exact_end of None \<Rightarrow> None | Some prfx \<Rightarrow>
         (let split_at = (case preferred_split prfx of Some k \<Rightarrow> k | None \<Rightarrow> exact_end)
          in case slice_to text split_at of None \<Rightarrow> None | Some chunk \<Rightarrow>
             (case slice_from text split_at of None \<Rightarrow> None | Some rest \<Rightarrow>
                split_loop (chunks @ [chunk]) rest limit)))
      else Some (chunks, text))"

definition split_into_chunks :: "rstr \<Rightarrow> usize \<Rightarrow> rstr list option" where
  "split_into_chunks text limit =
     (case split_loop [] text limit of
        None \<Rightarrow> None
      | Some (chunks, rest) \<Rightarrow>
          Some (if rest \<noteq> [] \<or> chunks = [] then chunks @ [rest] else chunks))"

definition shaper_split :: "usize \<Rightarrow> rstr \<Rightarrow> shaped_reply option" where
  "shaper_split limit text =
     (if limit < length CONTINUATION_SUFFIX then None
      else
        (let content_limit = limit - length CONTINUATION_SUFFIX
         in case split_into_chunks text content_limit of
              None \<Rightarrow> None
            | Some chunks \<Rightarrow>
                (let first = (case chunks of [] \<Rightarrow> [] | c # _ \<Rightarrow> c);
                     remaining = drop 1 chunks
                 in Some \<lparr>spoken = (if remaining = [] then first else first @ CONTINUATION_SUFFIX),
                          remaining = remaining\<rparr>)))"

definition stop_words :: "rstr list" where
  "stop_words = [cyr ''net'', cyr ''ne nado'', cyr ''ne prodolvaj'',
                 cyr ''hwatit'', cyr ''stop'', cyr ''otmena'']"

definition closing_mark :: "rchar \<Rightarrow> bool" where
  "closing_mark character \<longleftrightarrow>
     is_whitespace character \<or> character \<in> set (asc ''.!?,;:'' @ [8230])"

definition from_utterance :: "unicode \<Rightarrow> rstr \<Rightarrow> continuation_decision" where
  "from_utterance uc text =
     (let normalized = to_lowercase uc (trim_end_matches closing_mark (trim text))
      in if normalized = [] then Empty
         else if normalized \<in> set stop_words then Stop else Continue)"

subsection \<open>The cutting loop\<close>

lemma length_CONTINUATION_SUFFIX [simp]: "length CONTINUATION_SUFFIX = 12"
  by (simp add: CONTINUATION_SUFFIX_def cyr_def)

text \<open>A preferred cut is a character boundary behind at least one character.\<close>

lemma preferred_split_boundary:
  assumes "preferred_split s = Some k"
  shows "\<exists>a b. s = a @ b \<and> k = str_len a \<and> a \<noteq> []"
proof (cases "rfind_str s [10, 10]")
  case (Some i)
  then obtain a b where s: "s = a @ [10, 10] @ b" and i: "i = str_len a"
    by (rule rfind_str_Some)
  with assms Some have "s = (a @ [10, 10]) @ b \<and> k = str_len (a @ [10, 10]) \<and> a @ [10, 10] \<noteq> []"
    by (simp add: preferred_split_def len_utf8_def)
  then show ?thesis by blast
next
  case no_break: None
  let ?mark = "find (\<lambda>(_, character). character \<in> set (asc ''.!?'' @ [8230])) (rev (char_indices s))"
  show ?thesis
  proof (cases ?mark)
    case (Some p)
    then obtain i c where p: "p = (i, c)" and "(i, c) \<in> set (char_indices s)"
      by (cases p) (auto dest!: find_in_set)
    then obtain a b where "s = a @ c # b" "i = str_len a" by (blast elim: char_indices_split)
    with assms no_break Some p have "s = (a @ [c]) @ b \<and> k = str_len (a @ [c]) \<and> a @ [c] \<noteq> []"
      by (simp add: preferred_split_def sentence_or_space_split_def)
    then show ?thesis by blast
  next
    case None
    with assms no_break obtain c where "(k, c) \<in> set (char_indices s)" "k > 0"
      by (auto simp: preferred_split_def sentence_or_space_split_def dest!: find_in_set)
    then obtain a b where "s = a @ c # b" "k = str_len a" by (blast elim: char_indices_split)
    with \<open>k > 0\<close> show ?thesis by auto
  qed
qed

text \<open>One iteration: the loop cuts off a nonempty piece of at most \<open>limit\<close> characters.\<close>

lemma split_loop_step:
  assumes "length str > limit" and "limit > 0"
  obtains chunk rest where "str = chunk @ rest" and "chunk \<noteq> []" and "length chunk \<le> limit"
    and "\<And>chunks. split_loop chunks str limit = split_loop (chunks @ [chunk]) rest limit"
proof -
  let ?prfx = "take limit str"
  have str: "str = ?prfx @ drop limit str" by simp
  have ends: "iter_nth (char_indices str) limit = Some (str_len ?prfx, str ! limit)"
    using assms(1) by (rule iter_nth_char_indices)
  have to: "slice_to str (str_len ?prfx) = Some ?prfx"
    using slice_to_boundary [of ?prfx "drop limit str"] by simp
  define split_at where
    "split_at = (case preferred_split ?prfx of Some k \<Rightarrow> k | None \<Rightarrow> str_len ?prfx)"
  obtain a b where ab: "?prfx = a @ b" "split_at = str_len a" "a \<noteq> []"
  proof (cases "preferred_split ?prfx")
    case None
    moreover have "?prfx \<noteq> []" using assms by (cases str) simp_all
    ultimately show thesis using that [of ?prfx "[]"] by (simp add: split_at_def)
  next
    case (Some k)
    with preferred_split_boundary [OF Some] that show thesis by (auto simp: split_at_def)
  qed
  define rest where "rest = b @ drop limit str"
  have split: "str = a @ rest" using ab str by (simp add: rest_def)
  show thesis
  proof (rule that [OF split ab(3)])
    have "length a \<le> length ?prfx" using ab(1) by simp
    then show "length a \<le> limit" using assms by simp
    show "split_loop chunks str limit = split_loop (chunks @ [a]) rest limit" for chunks
    proof -
      have "slice_to str split_at = Some a" "slice_from str split_at = Some rest"
        using split ab(2) by simp_all
      then show ?thesis
        using assms ends to
        by (subst split_loop.simps) (simp add: Let_def split_at_def)
    qed
  qed
qed

lemma split_loop_total:
  assumes "limit > 0"
  shows "\<exists>cs rest. split_loop chunks str limit = Some (chunks @ cs, rest) \<and>
           concat cs @ rest = str \<and> length rest \<le> limit \<and>
           (\<forall>c \<in> set cs. c \<noteq> [] \<and> length c \<le> limit)"
proof (induction "length str" arbitrary: str chunks rule: less_induct)
  case less
  show ?case
  proof (cases "length str > limit")
    case False
    then have "split_loop chunks str limit = Some (chunks @ [], str)"
      by (subst split_loop.simps) simp
    with False show ?thesis by (intro exI [of _ "[]"] exI [of _ str]) simp
  next
    case True
    then obtain chunk rest where c: "str = chunk @ rest" "chunk \<noteq> []" "length chunk \<le> limit"
      and step: "\<And>chunks. split_loop chunks str limit = split_loop (chunks @ [chunk]) rest limit"
      using split_loop_step [OF True assms] by blast
    from c have "length rest < length str" by simp
    then obtain cs r where
      "split_loop (chunks @ [chunk]) rest limit = Some ((chunks @ [chunk]) @ cs, r)"
      "concat cs @ r = rest" "length r \<le> limit" "\<forall>c \<in> set cs. c \<noteq> [] \<and> length c \<le> limit"
      using less.hyps by blast
    with c step show ?thesis by (intro exI [of _ "chunk # cs"] exI [of _ r]) simp
  qed
qed

lemma split_loop_short: "length str \<le> limit \<Longrightarrow> split_loop chunks str limit = Some (chunks, str)"
  by (subst split_loop.simps) simp

lemma split_into_chunks_total:
  assumes "limit > 0"
  shows "\<exists>d ds. split_into_chunks str limit = Some (d # ds) \<and> d @ concat ds = str \<and>
           length d \<le> limit \<and> (\<forall>c \<in> set ds. c \<noteq> [] \<and> length c \<le> limit) \<and>
           (str \<noteq> [] \<longrightarrow> d \<noteq> []) \<and> (ds = [] \<longleftrightarrow> length str \<le> limit)"
proof (cases "length str \<le> limit")
  case True
  then have "split_into_chunks str limit = Some [str]"
    by (simp add: split_into_chunks_def split_loop_short)
  with True show ?thesis by (intro exI [of _ str] exI [of _ "[]"]) simp
next
  case False
  obtain cs rest where l: "split_loop [] str limit = Some (cs, rest)"
    and str: "concat cs @ rest = str" and len: "length rest \<le> limit"
    "\<forall>c \<in> set cs. c \<noteq> [] \<and> length c \<le> limit"
    using split_loop_total [OF assms, of "[]" str] by auto
  from False str len obtain d ds where cs: "cs = d # ds" by (cases cs) auto
  define es where "es = (if rest \<noteq> [] then ds @ [rest] else ds)"
  have "split_into_chunks str limit = Some (d # es)"
    using l cs by (simp add: split_into_chunks_def es_def)
  moreover have "d @ concat es = str" using str cs by (auto simp: es_def)
  moreover have "\<forall>c \<in> set es. c \<noteq> [] \<and> length c \<le> limit" using len cs by (simp add: es_def)
  moreover have "es \<noteq> []" using False str len cs by (auto simp: es_def)
  ultimately show ?thesis using len(2) cs False by (intro exI [of _ d] exI [of _ es]) simp
qed

subsection \<open>Shaped replies\<close>

lemma reply_shaper_new_Some [simp]: "reply_shaper_new limit = Some l \<longleftrightarrow> l = limit \<and> limit > 12"
  by (auto simp: reply_shaper_new_def)

text \<open>The shape of a shaped reply: everything the clients need, once.\<close>

lemma shaper_split_shape:
  assumes "limit > 12"
  shows "\<exists>d ds. shaper_split limit str = Some
             \<lparr>spoken = d @ (if ds = [] then [] else CONTINUATION_SUFFIX), remaining = ds\<rparr> \<and>
           d @ concat ds = str \<and> length d + 12 \<le> limit \<and> (str \<noteq> [] \<longrightarrow> d \<noteq> []) \<and>
           (\<forall>c \<in> set ds. c \<noteq> [] \<and> length c + 12 \<le> limit) \<and> (ds = [] \<longleftrightarrow> length str + 12 \<le> limit)"
proof -
  from assms have "limit - 12 > 0" by simp
  then obtain d ds where c: "split_into_chunks str (limit - 12) = Some (d # ds)"
    "d @ concat ds = str" "length d \<le> limit - 12"
    "\<forall>c \<in> set ds. c \<noteq> [] \<and> length c \<le> limit - 12" "str \<noteq> [] \<longrightarrow> d \<noteq> []"
    "ds = [] \<longleftrightarrow> length str \<le> limit - 12"
    using split_into_chunks_total by blast
  have "shaper_split limit str = Some
      \<lparr>spoken = d @ (if ds = [] then [] else CONTINUATION_SUFFIX), remaining = ds\<rparr>"
    using assms c(1) by (simp add: shaper_split_def)
  moreover have "length d + 12 \<le> limit" using assms c(3) by linarith
  moreover have "\<forall>c \<in> set ds. c \<noteq> [] \<and> length c + 12 \<le> limit"
    using assms c(4) by (simp add: le_diff_conv2)
  moreover have "ds = [] \<longleftrightarrow> length str + 12 \<le> limit"
    using assms c(6) by (simp only: le_diff_conv2 less_imp_le)
  ultimately show ?thesis using c(2,5) by blast
qed

text \<open>
  C20. Shaping an answer never panics or hangs, and loses nothing: what is spoken
  (without the question that is added exactly when something is left)
  followed by the stored chunks is the answer.
\<close>

theorem shaper_split_roundtrip:
  assumes "reply_shaper_new limit = Some shaper"
  shows "\<exists>r first. shaper_split shaper str = Some r \<and>
           spoken r = first @ (if remaining r = [] then [] else CONTINUATION_SUFFIX) \<and>
           first @ concat (remaining r) = str"
  using shaper_split_shape [of limit str] assms by fastforce

theorem shaper_split_roundtrip_witness:
  "\<exists>r first. shaper_split 16 (asc ''Yes. No way.'') = Some r \<and>
     spoken r = first @ (if remaining r = [] then [] else CONTINUATION_SUFFIX) \<and>
     first @ concat (remaining r) = asc ''Yes. No way.''"
  by (rule shaper_split_roundtrip [of 16]) simp

text \<open>
  C21. A spoken turn fits the configured limit, question included; every stored chunk
  is nonempty and leaves room for the question; an answer is cut exactly when it does
  not fit beside the question.
\<close>

theorem shaper_split_bounds:
  assumes "reply_shaper_new limit = Some shaper" and "shaper_split shaper str = Some r"
  shows "length (spoken r) \<le> limit \<and>
         (\<forall>c \<in> set (remaining r). c \<noteq> [] \<and> length c + length CONTINUATION_SUFFIX \<le> limit) \<and>
         (remaining r = [] \<longleftrightarrow> length str + length CONTINUATION_SUFFIX \<le> limit)"
proof -
  from assms(1) have l: "limit > 12" "shaper = limit" by simp_all
  from shaper_split_shape [OF l(1), of str] obtain d ds where
    "shaper_split limit str = Some
       \<lparr>spoken = d @ (if ds = [] then [] else CONTINUATION_SUFFIX), remaining = ds\<rparr>"
    and d: "length d + 12 \<le> limit" "\<forall>c \<in> set ds. c \<noteq> [] \<and> length c + 12 \<le> limit"
      "ds = [] \<longleftrightarrow> length str + 12 \<le> limit"
    by blast
  then have "r = \<lparr>spoken = d @ (if ds = [] then [] else CONTINUATION_SUFFIX), remaining = ds\<rparr>"
    using assms(2) l(2) by simp
  with d show ?thesis by simp
qed

theorem shaper_split_bounds_witness:
  "\<exists>r. shaper_split 16 (asc ''Yes. No way.'') = Some r \<and> length (spoken r) \<le> 16 \<and> remaining r \<noteq> []"
proof -
  have new: "reply_shaper_new 16 = Some 16" by simp
  obtain r where r: "shaper_split 16 (asc ''Yes. No way.'') = Some r"
    using shaper_split_shape [of 16 "asc ''Yes. No way.''"] by auto
  have "length (asc ''Yes. No way.'') = 12" by (simp add: asc_def)
  then show ?thesis using shaper_split_bounds [OF new r] r by auto
qed

subsection \<open>The decision on the next utterance\<close>

lemma closing_mark_whitespace: "is_whitespace c \<Longrightarrow> closing_mark c"
  by (simp add: closing_mark_def)

lemma trim_end_matches_empty_iff: "trim_end_matches P s = [] \<longleftrightarrow> list_all P s"
  by (simp add: trim_end_matches_def list_all_iff)

lemma trim_end_matches_append:
  assumes "x \<noteq> []" and "\<not> P (last x)"
  shows "trim_end_matches P (x @ y) = x @ trim_end_matches P y"
proof -
  have "dropWhile P (rev x) = rev x"
    using assms by (simp add: dropWhile_eq_self_iff hd_rev)
  then show ?thesis
    by (auto simp: trim_end_matches_def dropWhile_append dropWhile_eq_Nil_conv)
qed

lemma list_all_trim:
  assumes "\<And>c. is_whitespace c \<Longrightarrow> P c"
  shows "list_all P (trim s) \<longleftrightarrow> list_all P s"
proof -
  obtain t where t: "s = trim_end s @ t" "list_all is_whitespace t"
    using trim_end_matches_prefix unfolding trim_end_def by blast
  have end_part: "list_all P (trim_end s) \<longleftrightarrow> list_all P s"
    using t assms by (metis (mono_tags, lifting) list.pred_mono_strong list_all_append)
  have "trim_end s = takeWhile is_whitespace (trim_end s) @ trim s"
    by (simp add: trim_def)
  moreover have "list_all P (takeWhile is_whitespace (trim_end s))"
    using assms by (auto simp: list_all_iff dest: set_takeWhileD)
  ultimately have "list_all P (trim s) \<longleftrightarrow> list_all P (trim_end s)"
    by (metis list_all_append)
  with end_part show ?thesis by simp
qed

context unicode_db begin

lemma from_utterance_empty: "from_utterance uc s = Empty \<longleftrightarrow> list_all closing_mark s"
  by (simp add: from_utterance_def Let_def lower_empty trim_end_matches_empty_iff
      list_all_trim closing_mark_whitespace)

lemma from_utterance_surrounded:
  assumes "list_all is_whitespace before" and "list_all closing_mark after"
    and "w \<noteq> []" and "\<not> is_whitespace (hd w)" and "\<not> closing_mark (last w)"
  shows "from_utterance uc (before @ w @ after) =
           (if to_lowercase uc w \<in> set stop_words then Stop else Continue)"
proof -
  have nws: "\<not> is_whitespace (last w)" using assms(5) closing_mark_whitespace by blast
  have "trim_end (before @ w @ after) = (before @ w) @ trim_end after"
    using trim_end_matches_append [of "before @ w" is_whitespace after] assms(3) nws
    by (simp add: trim_end_def)
  then have "trim (before @ w @ after) = w @ trim_end after"
    using assms(1,3,4) by (cases w) (auto simp: trim_def list_all_iff dropWhile_append)
  moreover have "trim_end_matches closing_mark (w @ trim_end after) = w"
    using trim_end_matches_append [of w closing_mark "trim_end after"] assms(2,3,5)
      trim_end_matches_prefix [of after is_whitespace]
    by (metis append_Nil2 list_all_append trim_end_def trim_end_matches_empty_iff)
  moreover have "to_lowercase uc w \<noteq> []" using assms(3) lower_empty by simp
  ultimately show ?thesis by (simp add: from_utterance_def Let_def)
qed

end

text \<open>
  C23. The next utterance is taken as empty exactly when it holds nothing but white
  space and closing punctuation; otherwise an utterance that is one of the refusals,
  whatever its case, surrounding space and closing punctuation, stops the reading,
  and any other utterance continues it.
\<close>

theorem from_utterance_decides:
  assumes "unicode_db uc"
  shows "(from_utterance uc s = Empty \<longleftrightarrow> list_all closing_mark s) \<and>
    (\<forall>before w after. list_all is_whitespace before \<longrightarrow> list_all closing_mark after \<longrightarrow>
       w \<noteq> [] \<longrightarrow> \<not> is_whitespace (hd w) \<longrightarrow> \<not> closing_mark (last w) \<longrightarrow>
       from_utterance uc (before @ w @ after) =
         (if to_lowercase uc w \<in> set stop_words then Stop else Continue))"
  using unicode_db.from_utterance_empty [OF assms] unicode_db.from_utterance_surrounded [OF assms]
  by blast

theorem from_utterance_decides_witness:
  "from_utterance basic_unicode (asc '' '' @ cyr ''Ne nado'' @ asc ''! '') = Stop"
proof -
  have "to_lowercase basic_unicode (cyr ''Ne nado'') \<in> set stop_words"
    by code_simp
  moreover have "list_all is_whitespace (asc '' '')" "list_all closing_mark (asc ''! '')"
    by (simp_all add: asc_def is_whitespace_def closing_mark_def)
  moreover have "cyr ''Ne nado'' \<noteq> []" "\<not> is_whitespace (hd (cyr ''Ne nado''))"
    "\<not> closing_mark (last (cyr ''Ne nado''))"
    by code_simp+
  ultimately show ?thesis
    using from_utterance_decides [OF basic.unicode_db_axioms] by simp
qed

end
