(* ===== verification/State_Crypto.thy ===== *)
theory State_Crypto
  imports Utf8
begin

section \<open>Encryption of temporary household state\<close>

text \<open>
  Model of \<^verbatim>\<open>crates/bridge-server/src/state_crypto.rs\<close>. The crates it calls
  (\<open>hex\<close>, \<open>chacha20poly1305\<close>, \<open>hmac\<close> with \<open>sha2\<close>, \<open>rand\<close>) are parameters: the
  record \<open>crypto_lib\<close> holds their functions, a nonce drawn at random is an argument.
  The locale \<open>crypto_laws\<close> states the one documented fact the store relies on:
  decryption with the same key and nonce inverts encryption.
\<close>

record crypto_lib =
  hex_decode :: "rstr \<Rightarrow> bytes option"
  aead_encrypt :: "bytes \<Rightarrow> bytes \<Rightarrow> bytes \<Rightarrow> bytes option"
  aead_decrypt :: "bytes \<Rightarrow> bytes \<Rightarrow> bytes \<Rightarrow> bytes option"
  hmac_sha256 :: "bytes \<Rightarrow> bytes \<Rightarrow> bytes"

definition NONCE_BYTES :: nat where "NONCE_BYTES = 12"
definition KEY_BYTES :: nat where "KEY_BYTES = 32"
definition CURRENT_KEY_VERSION :: int where "CURRENT_KEY_VERSION = 1"

record encrypted_payload =
  ep_nonce :: bytes
  ep_ciphertext :: bytes
  ep_key_version :: int

record state_cipher =
  sc_key :: bytes
  sc_key_version :: int

datatype crypto_error = InvalidKey | UnsupportedKeyVersion | InvalidNonce | Authentication

definition from_hex :: "crypto_lib \<Rightarrow> rstr \<Rightarrow> (state_cipher, crypto_error) result" where
  "from_hex cl value =
     (if str_len value \<noteq> KEY_BYTES * 2 then Err InvalidKey
      else (case hex_decode cl value of
              None \<Rightarrow> Err InvalidKey
            | Some key \<Rightarrow> Ok \<lparr>sc_key = key, sc_key_version = CURRENT_KEY_VERSION\<rparr>))"

definition seal :: "crypto_lib \<Rightarrow> state_cipher \<Rightarrow> bytes \<Rightarrow> bytes \<Rightarrow>
    (encrypted_payload, crypto_error) result" where
  "seal cl cipher nonce_bytes plaintext =
     (case aead_encrypt cl (sc_key cipher) nonce_bytes plaintext of
        None \<Rightarrow> Err Authentication
      | Some ciphertext \<Rightarrow>
          Ok \<lparr>ep_nonce = nonce_bytes, ep_ciphertext = ciphertext,
              ep_key_version = sc_key_version cipher\<rparr>)"

definition open_payload :: "crypto_lib \<Rightarrow> state_cipher \<Rightarrow> encrypted_payload \<Rightarrow>
    (bytes, crypto_error) result" where
  "open_payload cl cipher payload =
     (if ep_key_version payload \<noteq> sc_key_version cipher then Err UnsupportedKeyVersion
      else if length (ep_nonce payload) \<noteq> NONCE_BYTES then Err InvalidNonce
      else ok_or Authentication
             (aead_decrypt cl (sc_key cipher) (ep_nonce payload) (ep_ciphertext payload)))"

text \<open>The message under the HMAC: a zero byte before each of the three parts.\<close>

definition pairing_message :: "rstr \<Rightarrow> rstr \<Rightarrow> rstr \<Rightarrow> bytes" where
  "pairing_message user_id application_id code =
     concat (map (\<lambda>value. 0 # value) [as_bytes user_id, as_bytes application_id, as_bytes code])"

definition pairing_code_hash :: "crypto_lib \<Rightarrow> state_cipher \<Rightarrow> rstr \<Rightarrow> rstr \<Rightarrow> rstr \<Rightarrow> bytes" where
  "pairing_code_hash cl cipher user_id application_id code =
     hmac_sha256 cl (sc_key cipher) (pairing_message user_id application_id code)"

definition pairing_code_matches :: "crypto_lib \<Rightarrow> state_cipher \<Rightarrow> bytes \<Rightarrow> rstr \<Rightarrow> rstr \<Rightarrow> rstr \<Rightarrow> bool" where
  "pairing_code_matches cl cipher stored_hash user_id application_id code \<longleftrightarrow>
     hmac_sha256 cl (sc_key cipher) (pairing_message user_id application_id code) = stored_hash"

locale crypto_laws =
  fixes cl :: crypto_lib
  assumes decrypt_encrypt:
    "aead_encrypt cl key nonce plaintext = Some ciphertext \<Longrightarrow>
     aead_decrypt cl key nonce ciphertext = Some plaintext"
begin

lemma open_seal:
  assumes "seal cl cipher nonce plaintext = Ok payload" and "length nonce = NONCE_BYTES"
  shows "open_payload cl cipher payload = Ok plaintext"
  using assms decrypt_encrypt by (auto simp: seal_def open_payload_def split: option.splits)

end

text \<open>A concrete library for evaluation: the key and nonce as a visible tag.\<close>

definition demo_crypto :: crypto_lib where
  "demo_crypto =
     \<lparr>hex_decode = (\<lambda>s. Some s),
      aead_encrypt = (\<lambda>k n p. Some (k @ n @ p)),
      aead_decrypt = (\<lambda>k n c. if take (length k + length n) c = k @ n
                               then Some (drop (length k + length n) c) else None),
      hmac_sha256 = (\<lambda>k m. k @ m)\<rparr>"

interpretation demo: crypto_laws demo_crypto
  by unfold_locales (auto simp: demo_crypto_def)

subsection \<open>Round trip and key versions\<close>

lemma open_payload_ok_iff:
  "open_payload cl cipher payload = Ok plaintext \<longleftrightarrow>
     ep_key_version payload = sc_key_version cipher \<and> length (ep_nonce payload) = NONCE_BYTES \<and>
     aead_decrypt cl (sc_key cipher) (ep_nonce payload) (ep_ciphertext payload) = Some plaintext"
  by (auto simp: open_payload_def ok_or_def split: option.splits)

text \<open>
  State sealed by the bridge opens to the same bytes, whatever the nonce drawn,
  and a payload with another key version, or with a nonce of another length, is
  refused with its own error before any decryption.
\<close>

theorem seal_open_roundtrip:
  assumes "crypto_laws cl"
  shows "\<forall>cipher nonce plaintext payload. length nonce = NONCE_BYTES \<longrightarrow>
           seal cl cipher nonce plaintext = Ok payload \<longrightarrow>
           open_payload cl cipher payload = Ok plaintext \<and>
           open_payload cl cipher (payload\<lparr>ep_key_version := sc_key_version cipher + 1\<rparr>)
             = Err UnsupportedKeyVersion \<and>
           (\<forall>n. length n \<noteq> NONCE_BYTES \<longrightarrow>
              open_payload cl cipher (payload\<lparr>ep_nonce := n\<rparr>) = Err InvalidNonce)"
proof (intro allI impI conjI)
  fix cipher nonce plaintext payload
  assume n: "length nonce = NONCE_BYTES" and s: "seal cl cipher nonce plaintext = Ok payload"
  show "open_payload cl cipher payload = Ok plaintext"
    using crypto_laws.open_seal [OF assms s n] .
  from s have v: "ep_key_version payload = sc_key_version cipher"
    by (auto simp: seal_def split: option.splits)
  show "open_payload cl cipher (payload\<lparr>ep_key_version := sc_key_version cipher + 1\<rparr>)
          = Err UnsupportedKeyVersion"
    by (simp add: open_payload_def)
  show "open_payload cl cipher (payload\<lparr>ep_nonce := m\<rparr>) = Err InvalidNonce"
    if "length m \<noteq> NONCE_BYTES" for m
    using that v by (simp add: open_payload_def)
qed

theorem seal_open_roundtrip_witness:
  "\<exists>payload. seal demo_crypto \<lparr>sc_key = [7], sc_key_version = 1\<rparr> (replicate 12 5) [1, 2] = Ok payload \<and>
     open_payload demo_crypto \<lparr>sc_key = [7], sc_key_version = 1\<rparr> payload = Ok [1, 2]"
proof -
  obtain payload where s:
    "seal demo_crypto \<lparr>sc_key = [7], sc_key_version = 1\<rparr> (replicate 12 5) [1, 2] = Ok payload"
    by (simp add: seal_def demo_crypto_def)
  have "length (replicate 12 (5::int)) = NONCE_BYTES" by (simp add: NONCE_BYTES_def)
  with s seal_open_roundtrip [OF demo.crypto_laws_axioms] show ?thesis by blast
qed

subsection \<open>The message of a pairing code\<close>

lemma append_zero_inject:
  assumes "0 \<notin> set a" and "0 \<notin> set b" and "a @ 0 # x = b @ 0 # (y::bytes)"
  shows "a = b \<and> x = y"
proof -
  have "takeWhile (\<lambda>c. c \<noteq> 0) (a @ 0 # x) = a" "takeWhile (\<lambda>c. c \<noteq> 0) (b @ 0 # y) = b"
    using assms(1,2) by (auto simp: takeWhile_tail takeWhile_append)
  with assms(3) show ?thesis by auto
qed

text \<open>
  C24. The bytes under the pairing HMAC determine the account, the device and the code,
  as long as none of the identifiers holds the character U+0000: a code spoken for one
  device cannot be presented for another one without a hash collision.
\<close>

theorem pairing_message_inject:
  assumes "wf_str u" "wf_str a" "wf_str c" "wf_str u'" "wf_str a'" "wf_str c'"
    and "0 \<notin> set u \<union> set a \<union> set u' \<union> set a'"
    and "pairing_message u a c = pairing_message u' a' c'"
  shows "u = u' \<and> a = a' \<and> c = c'"
proof -
  have z: "0 \<notin> set (as_bytes u)" "0 \<notin> set (as_bytes a)" "0 \<notin> set (as_bytes u')" "0 \<notin> set (as_bytes a')"
    using assms by (simp_all add: zero_in_as_bytes)
  have "as_bytes u @ 0 # as_bytes a @ 0 # as_bytes c = as_bytes u' @ 0 # as_bytes a' @ 0 # as_bytes c'"
    using assms(8) by (simp add: pairing_message_def)
  then have "as_bytes u = as_bytes u'"
    and "as_bytes a @ 0 # as_bytes c = as_bytes a' @ 0 # as_bytes c'"
    using append_zero_inject z by blast+
  moreover from this(2) have "as_bytes a = as_bytes a'" "as_bytes c = as_bytes c'"
    using append_zero_inject z by blast+
  ultimately show ?thesis using assms as_bytes_inject by blast
qed

theorem pairing_message_inject_witness:
  "pairing_message (asc ''u1'') (asc ''a1'') (asc ''123456'') \<noteq>
   pairing_message (asc ''u1'') (asc ''a2'') (asc ''123456'')"
proof
  assume eq: "pairing_message (asc ''u1'') (asc ''a1'') (asc ''123456'') =
    pairing_message (asc ''u1'') (asc ''a2'') (asc ''123456'')"
  have "asc ''a1'' = asc ''a2''"
    using pairing_message_inject [OF _ _ _ _ _ _ _ eq]
    by (simp add: asc_def wf_str_def is_scalar_def)
  then show False by (simp add: asc_def)
qed

end
