(* ===== verification/House_Store_Pg.thy ===== *)
theory House_Store_Pg
  imports House_Store State_Crypto
begin

section \<open>The Postgres household store\<close>

text \<open>
  Model of \<^verbatim>\<open>crates/bridge-server/src/house_store_pg.rs\<close> over the tables of
  \<^verbatim>\<open>migrations/0002_household.sql\<close>. A table that is only read by its primary key is a
  map from the key to the row, a table that a query scans is the list of its rows in
  whatever order Postgres returns them. Foreign keys of the schema are checked where
  the statements insert. The clock (\<open>now()\<close>, seconds) and the outcome of the coming
  database calls (\<open>pg_faults\<close>: True is a call that fails, a missing entry succeeds)
  belong to the state; a failed call changes nothing, a transaction that does not
  commit is rolled back. Random draws, the cryptographic crates and \<open>serde_json\<close> are
  the parameters of \<open>pg_env\<close>.
\<close>

definition PAIRING_TTL_SECONDS :: int where "PAIRING_TTL_SECONDS = 600"
definition PENDING_TTL_SECONDS :: int where "PENDING_TTL_SECONDS = 120"
definition CONTINUATION_TTL_SECONDS :: int where "CONTINUATION_TTL_SECONDS = 600"

record house_row =
  hr_name :: rstr
  hr_thread :: "rstr option"
  hr_connector :: rstr
  hr_enabled :: bool

record member_row =
  mr_house :: i64
  mr_user :: rstr
  mr_role :: rstr
  mr_enabled :: bool

record surface_row =
  sr_house :: i64
  sr_user :: rstr
  sr_enabled :: bool

record pairing_row =
  pr_id :: i64
  pr_house :: "i64 option"
  pr_user :: rstr
  pr_app :: rstr
  pr_hash :: bytes
  pr_expires :: int
  pr_approved :: "int option"

text \<open>By the table's check constraint a row without payload has status \<open>thinking\<close>
  and a row with payload has status \<open>ready\<close>.\<close>

record pending_row =
  pe_payload :: "encrypted_payload option"
  pe_expires :: int

record continuation_row =
  ct_payload :: encrypted_payload
  ct_expires :: int

record pg_state =
  pg_houses :: "i64 \<rightharpoonup> house_row"
  pg_members :: "member_row list"
  pg_surfaces :: "rstr \<rightharpoonup> surface_row"
  pg_pairings :: "pairing_row list"
  pg_pending :: "i64 \<times> rstr \<rightharpoonup> pending_row"
  pg_conts :: "i64 \<times> rstr \<rightharpoonup> continuation_row"
  pg_next_house :: i64
  pg_next_pairing :: i64
  pg_now :: int
  pg_faults :: "bool list"
  pg_draws :: nat

record pg_env =
  env_crypto :: crypto_lib
  env_cipher :: state_cipher
  env_to_vec :: "rstr list \<Rightarrow> bytes option"
  env_from_str :: "rstr \<Rightarrow> rstr list option"
  env_code :: "nat \<Rightarrow> nat"
  env_bytes :: "nat \<Rightarrow> nat \<Rightarrow> byte"

definition db_error :: household_store_error where
  "db_error = HouseholdStoreError (asc ''household database operation failed'')"

definition crypto_failure :: household_store_error where
  "crypto_failure = HouseholdStoreError (asc ''household state authentication failed'')"

text \<open>One operation against the pool: it fails as a whole or runs.\<close>

definition with_db :: "(pg_state, 'r) store_op \<Rightarrow> (pg_state, 'r) store_op" where
  "with_db f s =
     (case pg_faults s of
        [] \<Rightarrow> f s
      | fails # rest \<Rightarrow>
          (let s' = s\<lparr>pg_faults := rest\<rparr> in if fails then (Err db_error, s') else f s'))"

definition draw_nonce :: "pg_env \<Rightarrow> pg_state \<Rightarrow> bytes" where
  "draw_nonce env s = map (env_bytes env (pg_draws s)) [0..<NONCE_BYTES]"

definition next_draw :: "pg_state \<Rightarrow> pg_state" where
  "next_draw s = s\<lparr>pg_draws := Suc (pg_draws s)\<rparr>"

text \<open>\<open>{:06}\<close>: at least six digits, zeros in front.\<close>

definition pad6 :: "nat \<Rightarrow> rstr" where
  "pad6 n = replicate (6 - length (show_nat n)) 48 @ show_nat n"

definition open_text :: "pg_env \<Rightarrow> encrypted_payload \<Rightarrow> (rstr, household_store_error) result" where
  "open_text env payload =
     (case open_payload (env_crypto env) (env_cipher env) payload of
        Inl _ \<Rightarrow> Err crypto_failure
      | Inr plaintext \<Rightarrow>
          ok_or (HouseholdStoreError (asc ''encrypted state is not valid UTF-8'')) (from_utf8 plaintext))"

definition house_enabled :: "pg_state \<Rightarrow> i64 \<Rightarrow> bool" where
  "house_enabled s h = (case pg_houses s h of Some r \<Rightarrow> hr_enabled r | None \<Rightarrow> False)"

definition membership_exists :: "pg_state \<Rightarrow> i64 \<Rightarrow> rstr \<Rightarrow> bool" where
  "membership_exists s h u =
     (house_enabled s h \<and> list_ex (\<lambda>m. mr_house m = h \<and> mr_user m = u \<and> mr_enabled m) (pg_members s))"

text \<open>\<open>UPDATE pairing_requests SET house_id, approved_at WHERE id\<close> on one row.\<close>

definition set_approved :: "i64 \<Rightarrow> i64 \<Rightarrow> int \<Rightarrow> pairing_row \<Rightarrow> pairing_row" where
  "set_approved request_id house_id now q =
     (if pr_id q = request_id then q\<lparr>pr_house := Some house_id, pr_approved := Some now\<rparr> else q)"

definition approve_pairing :: "pg_env \<Rightarrow> i64 \<Rightarrow> rstr \<Rightarrow> (pg_state, bool) store_op" where
  "approve_pairing env house_id code s0 =
     (if str_len code \<noteq> 6 \<or> \<not> list_all is_ascii_digit code then (Ok False, s0)
      else with_db (\<lambda>s.
        (let rows = filter (\<lambda>r. (pr_house r = Some house_id \<or> pr_house r = None) \<and>
                                pr_approved r = None \<and> pr_expires r > pg_now s) (pg_pairings s)
         in case find (\<lambda>r. pairing_code_matches (env_crypto env) (env_cipher env) (pr_hash r)
                             (pr_user r) (pr_app r) code) rows of
              None \<Rightarrow> (Ok False, s)
            | Some r \<Rightarrow>
                if \<not> membership_exists s house_id (pr_user r) then (Ok False, s)
                else
                  (let bind_row = \<lparr>sr_house = house_id, sr_user = pr_user r, sr_enabled = True\<rparr>;
                       approved = map (set_approved (pr_id r) house_id (pg_now s)) (pg_pairings s)
                   in case pg_surfaces s (pr_app r) of
                        Some sr \<Rightarrow>
                          if sr_house sr = house_id \<and> sr_user sr = pr_user r
                          then (Ok True, s\<lparr>pg_surfaces := (pg_surfaces s)(pr_app r \<mapsto> sr\<lparr>sr_enabled := True\<rparr>),
                                           pg_pairings := approved\<rparr>)
                          else (Err (HouseholdStoreError
                                  (asc ''application is already bound to another household'')), s)
                      | None \<Rightarrow>
                          (Ok True, s\<lparr>pg_surfaces := (pg_surfaces s)(pr_app r \<mapsto> bind_row),
                                      pg_pairings := approved\<rparr>)))) s0)"

definition create_pairing_request :: "pg_env \<Rightarrow> i64 option \<Rightarrow> rstr \<Rightarrow> rstr \<Rightarrow> (pg_state, rstr) store_op" where
  "create_pairing_request env house_id user_id application_id s =
     (let code = pad6 (env_code env (pg_draws s) mod 1000000);
          code_hash = pairing_code_hash (env_crypto env) (env_cipher env) user_id application_id code;
          expires = pg_now s + PAIRING_TTL_SECONDS;
          new_row = \<lparr>pr_id = pg_next_pairing s, pr_house = house_id, pr_user = user_id,
                     pr_app = application_id, pr_hash = code_hash, pr_expires = expires,
                     pr_approved = None\<rparr>;
          upserted = (if list_ex (\<lambda>q. pr_app q = application_id) (pg_pairings s)
                      then map (\<lambda>q. if pr_app q = application_id
                                     then q\<lparr>pr_house := house_id, pr_user := user_id, pr_hash := code_hash,
                                            pr_expires := expires, pr_approved := None\<rparr>
                                     else q) (pg_pairings s)
                      else pg_pairings s @ [new_row])
      in (Ok code, next_draw (s\<lparr>pg_pairings := upserted, pg_next_pairing := pg_next_pairing s + 1\<rparr>)))"

definition pg_bound :: "surface_identity \<Rightarrow> pg_state \<Rightarrow> house_context option" where
  "pg_bound identity s =
     (case pg_surfaces s (si_application_id identity) of
        None \<Rightarrow> None
      | Some sr \<Rightarrow>
          (case pg_houses s (sr_house sr) of
             None \<Rightarrow> None
           | Some hr \<Rightarrow>
               if sr_user sr = si_user_id identity \<and> sr_enabled sr \<and> hr_enabled hr \<and>
                  list_ex (\<lambda>m. mr_house m = sr_house sr \<and> mr_user m = sr_user sr \<and> mr_enabled m)
                    (pg_members s)
               then Some \<lparr>hc_id = sr_house sr, hc_name = hr_name hr, codex_thread_id = hr_thread hr,
                          homey_connector_id = hr_connector hr\<rparr>
               else None))"

definition pg_memberships :: "rstr \<Rightarrow> pg_state \<Rightarrow> i64 list" where
  "pg_memberships user_id s =
     take 2 (sort (map mr_house
       (filter (\<lambda>m. mr_user m = user_id \<and> mr_enabled m \<and> house_enabled s (mr_house m)) (pg_members s))))"

text \<open>
  The four statements of \<open>resolve_surface\<close>, each on its own: the binding; whether the
  application has any; the memberships of the account; the insertion of a request.
\<close>

fun pg_resolve_step :: "pg_env \<Rightarrow> surface_identity \<Rightarrow> resolve_point \<Rightarrow> (pg_state, resolve_progress) store_op" where
  "pg_resolve_step env identity FindBinding = with_db (\<lambda>s.
     (case pg_bound identity s of
        Some house \<Rightarrow> (Ok (Resolved (Bound house)), s)
      | None \<Rightarrow> (Ok (Next FindApplication), s)))"
| "pg_resolve_step env identity FindApplication = with_db (\<lambda>s.
     (if pg_surfaces s (si_application_id identity) \<noteq> None then (Ok (Resolved Unauthorized), s)
      else (Ok (Next FindMemberships), s)))"
| "pg_resolve_step env identity FindMemberships = with_db (\<lambda>s.
     (let memberships = pg_memberships (si_user_id identity) s
      in if memberships = [] then (Ok (Resolved Unauthorized), s)
         else (Ok (Next (InsertRequest (if length memberships = 1 then Some (hd memberships) else None))), s)))"
| "pg_resolve_step env identity (InsertRequest house_id) = with_db (\<lambda>s.
     (case create_pairing_request env house_id (si_user_id identity) (si_application_id identity) s of
        (Inl e, s') \<Rightarrow> (Inl e, s')
      | (Inr spoken_code, s') \<Rightarrow> (Ok (Resolved (PairingRequired spoken_code)), s')))"

definition pg_save_thread_id :: "i64 \<Rightarrow> rstr \<Rightarrow> (pg_state, unit) store_op" where
  "pg_save_thread_id house_id thread_id = with_db (\<lambda>s.
     (case pg_houses s house_id of
        Some hr \<Rightarrow>
          if hr_thread hr = None \<or> hr_thread hr = Some thread_id
          then (Ok (), s\<lparr>pg_houses := (pg_houses s)(house_id \<mapsto> hr\<lparr>hr_thread := Some thread_id\<rparr>)\<rparr>)
          else (Err (HouseholdStoreError (asc ''house already has a different Codex thread'')), s)
      | None \<Rightarrow> (Err (HouseholdStoreError (asc ''house already has a different Codex thread'')), s)))"

definition pg_poll_pending :: "pg_env \<Rightarrow> i64 \<Rightarrow> rstr \<Rightarrow> (pg_state, pending_reply) store_op" where
  "pg_poll_pending env house_id application_id = with_db (\<lambda>s.
     (case pg_pending s (house_id, application_id) of
        None \<Rightarrow> (Ok NoReply, s)
      | Some row \<Rightarrow>
          if \<not> pe_expires row > pg_now s then (Ok NoReply, s)
          else (case pe_payload row of
                  None \<Rightarrow> (Ok Thinking, s)
                | Some payload \<Rightarrow>
                    (case open_text env payload of
                       Inl e \<Rightarrow> (Err e, s)
                     | Inr text \<Rightarrow> (Ok (Ready text), s)))))"

text \<open>The foreign key of \<open>pending_replies\<close> and \<open>continuations\<close>.\<close>

definition surface_fk :: "pg_state \<Rightarrow> i64 \<Rightarrow> rstr \<Rightarrow> bool" where
  "surface_fk s h a = (case pg_surfaces s a of Some sr \<Rightarrow> sr_house sr = h | None \<Rightarrow> False)"

definition pg_mark_thinking :: "i64 \<Rightarrow> rstr \<Rightarrow> (pg_state, unit) store_op" where
  "pg_mark_thinking house_id application_id = with_db (\<lambda>s.
     (if surface_fk s house_id application_id
      then (Ok (), s\<lparr>pg_pending := (pg_pending s)((house_id, application_id) \<mapsto>
              \<lparr>pe_payload = None, pe_expires = pg_now s + PENDING_TTL_SECONDS\<rparr>)\<rparr>)
      else (Err db_error, s)))"

definition pg_save_ready :: "pg_env \<Rightarrow> i64 \<Rightarrow> rstr \<Rightarrow> rstr \<Rightarrow> (pg_state, unit) store_op" where
  "pg_save_ready env house_id application_id text s0 =
     (case seal (env_crypto env) (env_cipher env) (draw_nonce env s0) (as_bytes text) of
        Inl _ \<Rightarrow> (Err crypto_failure, next_draw s0)
      | Inr payload \<Rightarrow> with_db (\<lambda>s.
          (if surface_fk s house_id application_id
           then (Ok (), s\<lparr>pg_pending := (pg_pending s)((house_id, application_id) \<mapsto>
                   \<lparr>pe_payload = Some payload, pe_expires = pg_now s + PENDING_TTL_SECONDS\<rparr>)\<rparr>)
           else (Err db_error, s))) (next_draw s0))"

definition pg_clear_pending :: "i64 \<Rightarrow> rstr \<Rightarrow> (pg_state, unit) store_op" where
  "pg_clear_pending house_id application_id = with_db (\<lambda>s.
     (Ok (), s\<lparr>pg_pending := (pg_pending s)((house_id, application_id) := None)\<rparr>))"

definition pg_take_continuation :: "pg_env \<Rightarrow> i64 \<Rightarrow> rstr \<Rightarrow> (pg_state, rstr list option) store_op" where
  "pg_take_continuation env house_id application_id = with_db (\<lambda>s.
     (case pg_conts s (house_id, application_id) of
        None \<Rightarrow> (Ok None, s)
      | Some row \<Rightarrow>
          if \<not> ct_expires row > pg_now s then (Ok None, s)
          else
            (let s' = s\<lparr>pg_conts := (pg_conts s)((house_id, application_id) := None)\<rparr>
             in case open_text env (ct_payload row) of
                  Inl e \<Rightarrow> (Err e, s')
                | Inr text \<Rightarrow>
                    (case env_from_str env text of
                       None \<Rightarrow> (Err (HouseholdStoreError (asc ''continuation payload is invalid'')), s')
                     | Some chunks \<Rightarrow> (Ok (Some chunks), s')))))"

definition pg_clear_continuation :: "i64 \<Rightarrow> rstr \<Rightarrow> (pg_state, unit) store_op" where
  "pg_clear_continuation house_id application_id = with_db (\<lambda>s.
     (Ok (), s\<lparr>pg_conts := (pg_conts s)((house_id, application_id) := None)\<rparr>))"

definition pg_save_continuation :: "pg_env \<Rightarrow> i64 \<Rightarrow> rstr \<Rightarrow> rstr list \<Rightarrow> (pg_state, unit) store_op" where
  "pg_save_continuation env house_id application_id chunks s0 =
     (if chunks = [] then pg_clear_continuation house_id application_id s0
      else (case env_to_vec env chunks of
              None \<Rightarrow> (Err (HouseholdStoreError (asc ''continuation serialization failed'')), s0)
            | Some plaintext \<Rightarrow>
                (case seal (env_crypto env) (env_cipher env) (draw_nonce env s0) plaintext of
                   Inl _ \<Rightarrow> (Err crypto_failure, next_draw s0)
                 | Inr payload \<Rightarrow> with_db (\<lambda>s.
                     (if surface_fk s house_id application_id
                      then (Ok (), s\<lparr>pg_conts := (pg_conts s)((house_id, application_id) \<mapsto>
                              \<lparr>ct_payload = payload, ct_expires = pg_now s + CONTINUATION_TTL_SECONDS\<rparr>)\<rparr>)
                      else (Err db_error, s))) (next_draw s0))))"

definition pg_household_store :: "pg_env \<Rightarrow> pg_state household_store" where
  "pg_household_store env =
     \<lparr>resolve_step = pg_resolve_step env,
      save_thread_id = pg_save_thread_id,
      poll_pending = pg_poll_pending env,
      mark_thinking = pg_mark_thinking,
      save_ready = pg_save_ready env,
      clear_pending = pg_clear_pending,
      take_continuation = pg_take_continuation env,
      save_continuation = pg_save_continuation env,
      clear_continuation = pg_clear_continuation\<rparr>"

text \<open>The whole operation, when nothing comes between its statements.\<close>

abbreviation pg_resolve_surface :: "pg_env \<Rightarrow> surface_identity \<Rightarrow> (pg_state, surface_resolution) store_op" where
  "pg_resolve_surface env \<equiv> resolve_surface (pg_household_store env)"

lemma pg_resolve_surface_calm:
  assumes "pg_faults s = []"
  shows "pg_resolve_surface env i s =
     (case pg_bound i s of
        Some house \<Rightarrow> (Ok (Bound house), s)
      | None \<Rightarrow>
          if pg_surfaces s (si_application_id i) \<noteq> None then (Ok Unauthorized, s)
          else
            (let memberships = pg_memberships (si_user_id i) s
             in if memberships = [] then (Ok Unauthorized, s)
                else
                  (case create_pairing_request env (if length memberships = 1 then Some (hd memberships) else None)
                          (si_user_id i) (si_application_id i) s of
                     (Inl e, s') \<Rightarrow> (Inl e, s')
                   | (Inr spoken_code, s') \<Rightarrow> (Ok (PairingRequired spoken_code), s'))))"
  using assms
  by (simp add: resolve_surface_def pg_household_store_def eval_nat_numeral with_db_def Let_def
      split: option.split sum.split prod.split)

subsection \<open>Invariant and view\<close>

text \<open>
  The invariant of the tables: application ids and row ids of pairing requests are
  unique (schema), every binding refers to a member, and no house has an id the sequence has yet
  to give.
\<close>

definition pg_inv :: "pg_state \<Rightarrow> bool" where
  "pg_inv s \<longleftrightarrow>
     distinct (map pr_app (pg_pairings s)) \<and> distinct (map pr_id (pg_pairings s)) \<and>
     (\<forall>r \<in> set (pg_pairings s). pr_id r < pg_next_pairing s) \<and>
     (\<forall>a sr. pg_surfaces s a = Some sr \<longrightarrow>
        (\<exists>m \<in> set (pg_members s). mr_house m = sr_house sr \<and> mr_user m = sr_user sr)) \<and>
     (\<forall>h. pg_next_house s \<le> h \<longrightarrow> pg_houses s h = None)"

definition live_pending :: "pg_env \<Rightarrow> int \<Rightarrow> pending_row option \<Rightarrow> pending_reply" where
  "live_pending env now row =
     (case row of
        None \<Rightarrow> NoReply
      | Some r \<Rightarrow>
          if \<not> pe_expires r > now then NoReply
          else (case pe_payload r of
                  None \<Rightarrow> Thinking
                | Some p \<Rightarrow> (case open_text env p of Inl _ \<Rightarrow> NoReply | Inr t \<Rightarrow> Ready t)))"

definition live_chunks :: "pg_env \<Rightarrow> int \<Rightarrow> continuation_row option \<Rightarrow> rstr list option" where
  "live_chunks env now row =
     (case row of
        None \<Rightarrow> None
      | Some r \<Rightarrow>
          if \<not> ct_expires r > now then None
          else (case open_text env (ct_payload r) of Inl _ \<Rightarrow> None | Inr t \<Rightarrow> env_from_str env t))"

definition pg_view :: "pg_env \<Rightarrow> pg_state \<Rightarrow> house_view" where
  "pg_view env s =
     \<lparr>v_thread = (\<lambda>h. Option.bind (pg_houses s h) hr_thread),
      v_pending = (\<lambda>k. live_pending env (pg_now s) (pg_pending s k)),
      v_chunks = (\<lambda>k. live_chunks env (pg_now s) (pg_conts s k))\<rparr>"

lemma pg_view_simps [simp]:
  "v_thread (pg_view env s) h = Option.bind (pg_houses s h) hr_thread"
  "v_pending (pg_view env s) k = live_pending env (pg_now s) (pg_pending s k)"
  "v_chunks (pg_view env s) k = live_chunks env (pg_now s) (pg_conts s k)"
  by (simp_all add: pg_view_def)

lemma pg_inv_frame [simp]:
  "pg_inv (s\<lparr>pg_faults := f\<rparr>) = pg_inv s"
  "pg_inv (s\<lparr>pg_draws := d\<rparr>) = pg_inv s"
  "pg_inv (s\<lparr>pg_now := t\<rparr>) = pg_inv s"
  "pg_houses s h = Some hr \<Longrightarrow> pg_inv (s\<lparr>pg_houses := (pg_houses s)(h \<mapsto> hr2)\<rparr>) = pg_inv s"
  "pg_inv (s\<lparr>pg_pending := ps\<rparr>) = pg_inv s"
  "pg_inv (s\<lparr>pg_conts := cs\<rparr>) = pg_inv s"
  "pg_inv (next_draw s) = pg_inv s"
  by (auto simp add: pg_inv_def next_draw_def)

lemma pg_view_frame [simp]:
  "pg_view env (s\<lparr>pg_faults := f\<rparr>) = pg_view env s"
  "pg_view env (s\<lparr>pg_draws := d\<rparr>) = pg_view env s"
  "pg_view env (s\<lparr>pg_pairings := ps\<rparr>) = pg_view env s"
  "pg_view env (s\<lparr>pg_next_pairing := n\<rparr>) = pg_view env s"
  "pg_view env (next_draw s) = pg_view env s"
  by (simp_all add: pg_view_def next_draw_def)

text \<open>Writing one row changes the view at its key only.\<close>

lemma pg_view_upd:
  "pg_view env (s\<lparr>pg_pending := (pg_pending s)(k := row)\<rparr>) =
     view_set_pending k (live_pending env (pg_now s) row) (pg_view env s)"
  "pg_view env (s\<lparr>pg_conts := (pg_conts s)(k := crow)\<rparr>) =
     (pg_view env s)\<lparr>v_chunks := (v_chunks (pg_view env s))(k := live_chunks env (pg_now s) crow)\<rparr>"
  "pg_view env (s\<lparr>pg_houses := (pg_houses s)(h \<mapsto> hr\<lparr>hr_thread := Some t\<rparr>)\<rparr>) =
     view_set_thread h t (pg_view env s)"
  by (simp_all add: pg_view_def view_set_pending_def view_set_thread_def fun_eq_iff)

lemma live_pending_simps [simp]:
  "live_pending env now None = NoReply"
  "live_pending env now (Some \<lparr>pe_payload = None, pe_expires = now + PENDING_TTL_SECONDS\<rparr>) = Thinking"
  "open_text env p = Ok str \<Longrightarrow>
   live_pending env now (Some \<lparr>pe_payload = Some p, pe_expires = now + PENDING_TTL_SECONDS\<rparr>) = Ready str"
  by (simp_all add: live_pending_def PENDING_TTL_SECONDS_def)

lemma live_chunks_simps [simp]:
  "live_chunks env now None = None"
  "open_text env p = Ok str \<Longrightarrow> env_from_str env str = Some cs \<Longrightarrow>
   live_chunks env now (Some \<lparr>ct_payload = p, ct_expires = now + CONTINUATION_TTL_SECONDS\<rparr>) = Some cs"
  by (simp_all add: live_chunks_def CONTINUATION_TTL_SECONDS_def)

lemma with_db_cases:
  assumes "with_db f s = (r, s')"
  obtains rest where "r = Err db_error" and "s' = s\<lparr>pg_faults := rest\<rparr>"
    | fs where "f (s\<lparr>pg_faults := fs\<rparr>) = (r, s')"
proof (cases "pg_faults s")
  case Nil
  then have "s\<lparr>pg_faults := []\<rparr> = s" by simp
  with assms Nil that(2) [of "[]"] show thesis by (simp add: with_db_def)
next
  case (Cons fails rest)
  with assms that(1) [of rest] that(2) [of rest] show thesis
    by (cases fails) (simp_all add: with_db_def Let_def)
qed

lemma effect_with_db:
  assumes "\<And>s r s'. pg_inv s \<Longrightarrow> f s = (r, s') \<Longrightarrow> effect pg_inv (pg_view env) upd r s s'"
    and "pg_inv s" and "with_db f s = (r, s')"
  shows "effect pg_inv (pg_view env) upd r s s'"
  using assms(3)
proof (cases rule: with_db_cases)
  case (1 rest)
  with assms(2) show ?thesis by (simp add: effect_def)
next
  case (2 fs)
  with assms(1) [of "s\<lparr>pg_faults := fs\<rparr>"] assms(2) show ?thesis
    by (cases r) (simp_all add: effect_def)
qed

text \<open>Updating some rows of a table in place keeps the columns the update does not write.\<close>

lemma map_update_column:
  assumes "\<And>q. col (g q) = col q"
  shows "map col (map (\<lambda>q. if P q then g q else q) qs) = map col qs"
  using assms by (induction qs) simp_all

lemma pg_inv_pairings:
  assumes "pg_inv s" and "map pr_app ps = map pr_app (pg_pairings s)"
    and "map pr_id ps = map pr_id (pg_pairings s)" and "pg_next_pairing s \<le> n"
  shows "pg_inv (s\<lparr>pg_pairings := ps, pg_next_pairing := n\<rparr>)"
proof -
  have "set (map pr_id ps) = set (map pr_id (pg_pairings s))" using assms(3) by simp
  moreover have "\<forall>i \<in> set (map pr_id (pg_pairings s)). i < n"
    using assms(1,4) by (auto simp: pg_inv_def)
  ultimately have "\<forall>i \<in> set (map pr_id ps). i < n" by (simp only:)
  then have "\<forall>r \<in> set ps. pr_id r < n" by simp
  with assms show ?thesis by (auto simp: pg_inv_def)
qed

lemma create_pairing_request_inv:
  assumes "pg_inv s" and "create_pairing_request env h u app s = (r, s')"
  shows "pg_inv s' \<and> pg_view env s' = pg_view env s"
proof (cases "list_ex (\<lambda>q. pr_app q = app) (pg_pairings s)")
  case True
  let ?g = "\<lambda>q. q\<lparr>pr_house := h, pr_user := u,
     pr_hash := pairing_code_hash (env_crypto env) (env_cipher env) u app
                  (pad6 (env_code env (pg_draws s) mod 1000000)),
     pr_expires := pg_now s + PAIRING_TTL_SECONDS, pr_approved := None\<rparr>"
  let ?ps = "map (\<lambda>q. if pr_app q = app then ?g q else q) (pg_pairings s)"
  have "s' = next_draw (s\<lparr>pg_pairings := ?ps, pg_next_pairing := pg_next_pairing s + 1\<rparr>)"
    using True assms(2) by (auto simp: create_pairing_request_def Let_def)
  moreover have "pg_inv (s\<lparr>pg_pairings := ?ps, pg_next_pairing := pg_next_pairing s + 1\<rparr>)"
    using assms(1)
    by (intro pg_inv_pairings map_update_column) (auto simp: pg_inv_def)
  ultimately show ?thesis by simp
next
  case False
  then have "\<forall>q \<in> set (pg_pairings s). pr_app q \<noteq> app" by (auto simp: list_ex_iff)
  moreover have "\<forall>q \<in> set (pg_pairings s). pr_id q \<le> pg_next_pairing s"
    using assms(1) by (fastforce simp: pg_inv_def)
  moreover have "pg_next_pairing s \<notin> pr_id ` set (pg_pairings s)"
    using assms(1) by (fastforce simp: pg_inv_def)
  ultimately show ?thesis
    using assms False
    by (auto simp: create_pairing_request_def Let_def pg_inv_def next_draw_def pg_view_def)
qed

lemma pg_resolve_bound:
  assumes "pg_resolve_step env i pt s = (Ok (Resolved (Bound hc)), s')"
  shows "pg_bound i s = Some hc"
proof (cases pt)
  case FindBinding
  have "pg_bound i (s\<lparr>pg_faults := fs\<rparr>) = pg_bound i s" for fs
    by (auto simp: pg_bound_def split: option.split)
  with FindBinding assms show ?thesis
    by (auto elim!: with_db_cases split: option.splits)
qed (use assms in \<open>auto elim!: with_db_cases simp: Let_def split: if_splits sum.splits prod.splits\<close>)

lemma pg_resolve_ends: "pg_resolve_step env i pt s = (Ok (Next q), s') \<Longrightarrow> statements_left q < statements_left pt"
  by (cases pt) (auto elim!: with_db_cases simp: Let_def split: option.splits if_splits sum.splits prod.splits)

subsection \<open>The Postgres store meets the contract\<close>

text \<open>The JSON text of a chunk list reads back as the list.\<close>

locale pg_env_laws =
  fixes env :: pg_env
  assumes crypto: "crypto_laws (env_crypto env)"
    and json_roundtrip:
      "list_all wf_str cs \<Longrightarrow> env_to_vec env cs = Some b \<Longrightarrow>
       \<exists>t. from_utf8 b = Some t \<and> env_from_str env t = Some cs"
begin

lemma open_text_seal:
  assumes "seal (env_crypto env) (env_cipher env) (draw_nonce env s) b = Ok payload"
  shows "open_text env payload =
    ok_or (HouseholdStoreError (asc ''encrypted state is not valid UTF-8'')) (from_utf8 b)"
proof -
  have "length (draw_nonce env s) = NONCE_BYTES" by (simp add: draw_nonce_def)
  with assms have "open_payload (env_crypto env) (env_cipher env) payload = Ok b"
    using crypto_laws.open_seal [OF crypto] by blast
  then show ?thesis by (simp add: open_text_def)
qed

lemma pg_save_ready_effect:
  assumes "pg_inv s" "wf_str str" "pg_save_ready env h a str s = (r, s')"
  shows "effect pg_inv (pg_view env) (view_set_pending (h, a) (Ready str)) r s s'"
proof (cases "seal (env_crypto env) (env_cipher env) (draw_nonce env s) (as_bytes str)")
  case (Inl e)
  with assms show ?thesis by (auto simp: pg_save_ready_def effect_def)
next
  case (Inr payload)
  then have p: "open_text env payload = Ok str"
    using open_text_seal from_utf8_as_bytes [OF assms(2)] by simp
  have "effect pg_inv (pg_view env) (view_set_pending (h, a) (Ready str)) r (next_draw s) s'"
    using assms Inr
    by (intro effect_with_db [where s = "next_draw s" and f = "\<lambda>s.
          (if surface_fk s h a
           then (Ok (), s\<lparr>pg_pending := (pg_pending s)((h, a) \<mapsto>
                   \<lparr>pe_payload = Some payload, pe_expires = pg_now s + PENDING_TTL_SECONDS\<rparr>)\<rparr>)
           else (Err db_error, s))"])
       (auto simp: pg_save_ready_def effect_def pg_view_upd p split: if_splits)
  then show ?thesis by (cases r) (simp_all add: effect_def)
qed

lemma pg_save_continuation_effect:
  assumes "pg_inv s" "list_all wf_str cs" "pg_save_continuation env h a cs s = (r, s')"
  shows "effect pg_inv (pg_view env) (view_set_chunks (h, a) cs) r s s'"
proof (cases "cs = []")
  case True
  then have "with_db (\<lambda>s. (Ok (), s\<lparr>pg_conts := (pg_conts s)((h, a) := None)\<rparr>)) s = (r, s')"
    using assms(3) by (simp add: pg_save_continuation_def pg_clear_continuation_def)
  then show ?thesis using True assms(1)
    by (rule_tac effect_with_db)
       (auto simp: effect_def pg_view_upd view_set_chunks_def)
next
  case False
  show ?thesis
  proof (cases "env_to_vec env cs")
    case None
    with False assms show ?thesis by (auto simp: pg_save_continuation_def effect_def)
  next
    case (Some b)
    note to_vec = Some
    with assms(2) obtain t where t: "from_utf8 b = Some t" "env_from_str env t = Some cs"
      using json_roundtrip by blast
    show ?thesis
    proof (cases "seal (env_crypto env) (env_cipher env) (draw_nonce env s) b")
      case (Inl e)
      with False to_vec assms show ?thesis by (auto simp: pg_save_continuation_def effect_def)
    next
      case (Inr payload)
      then have p: "open_text env payload = Ok t" using open_text_seal t(1) by simp
      have "effect pg_inv (pg_view env) (view_set_chunks (h, a) cs) r (next_draw s) s'"
        using assms(1,3) Inr False to_vec
        by (intro effect_with_db [where s = "next_draw s" and f = "\<lambda>s.
              (if surface_fk s h a
               then (Ok (), s\<lparr>pg_conts := (pg_conts s)((h, a) \<mapsto>
                       \<lparr>ct_payload = payload, ct_expires = pg_now s + CONTINUATION_TTL_SECONDS\<rparr>)\<rparr>)
               else (Err db_error, s))"])
           (auto simp: pg_save_continuation_def effect_def pg_view_upd view_set_chunks_def p t
              split: if_splits)
      then show ?thesis by (cases r) (simp_all add: effect_def)
    qed
  qed
qed


text \<open>The operations that neither encrypt nor decrypt what they write.\<close>

lemma pg_plain_effects:
  shows "pg_inv s \<Longrightarrow> pg_save_thread_id h t s = (r, s') \<Longrightarrow>
      effect pg_inv (pg_view env) (view_set_thread h t) r s s'"
    and "pg_inv s \<Longrightarrow> pg_mark_thinking h a s = (r, s') \<Longrightarrow>
      effect pg_inv (pg_view env) (view_set_pending (h, a) Thinking) r s s'"
    and "pg_inv s \<Longrightarrow> pg_clear_pending h a s = (r, s') \<Longrightarrow>
      effect pg_inv (pg_view env) (view_set_pending (h, a) NoReply) r s s'"
    and "pg_inv s \<Longrightarrow> pg_clear_continuation h a s = (r, s') \<Longrightarrow>
      effect pg_inv (pg_view env) (view_set_chunks (h, a) []) r s s'"
    and "pg_inv s \<Longrightarrow> pg_poll_pending env h a s = (rp, s') \<Longrightarrow>
      effect pg_inv (pg_view env) (\<lambda>v. v) rp s s'"
    and "pg_inv s \<Longrightarrow> pg_resolve_step env i pt s = (rr, s') \<Longrightarrow>
      effect pg_inv (pg_view env) (\<lambda>v. v) rr s s'"
proof -
  show "pg_inv s \<Longrightarrow> pg_save_thread_id h t s = (r, s') \<Longrightarrow>
      effect pg_inv (pg_view env) (view_set_thread h t) r s s'"
    unfolding pg_save_thread_id_def
    by (erule effect_with_db [rotated])
       (auto simp: effect_def pg_view_upd split: option.splits if_splits)
  show "pg_inv s \<Longrightarrow> pg_mark_thinking h a s = (r, s') \<Longrightarrow>
      effect pg_inv (pg_view env) (view_set_pending (h, a) Thinking) r s s'"
    unfolding pg_mark_thinking_def
    by (erule effect_with_db [rotated]) (auto simp: effect_def pg_view_upd split: if_splits)
  show "pg_inv s \<Longrightarrow> pg_clear_pending h a s = (r, s') \<Longrightarrow>
      effect pg_inv (pg_view env) (view_set_pending (h, a) NoReply) r s s'"
    unfolding pg_clear_pending_def
    by (erule effect_with_db [rotated]) (auto simp: effect_def pg_view_upd)
  show "pg_inv s \<Longrightarrow> pg_clear_continuation h a s = (r, s') \<Longrightarrow>
      effect pg_inv (pg_view env) (view_set_chunks (h, a) []) r s s'"
    unfolding pg_clear_continuation_def
    by (erule effect_with_db [rotated]) (auto simp: effect_def pg_view_upd view_set_chunks_def)
  show "pg_inv s \<Longrightarrow> pg_poll_pending env h a s = (rp, s') \<Longrightarrow>
      effect pg_inv (pg_view env) (\<lambda>v. v) rp s s'"
    unfolding pg_poll_pending_def
    by (erule effect_with_db [rotated])
       (auto simp: effect_def split: option.splits if_splits sum.splits)
  show "pg_inv s \<Longrightarrow> pg_resolve_step env i pt s = (rr, s') \<Longrightarrow>
      effect pg_inv (pg_view env) (\<lambda>v. v) rr s s'"
    by (cases pt; simp only: pg_resolve_step.simps; erule effect_with_db [rotated])
       (auto simp: effect_def Let_def dest: create_pairing_request_inv
          split: option.splits if_splits sum.splits prod.splits)
qed

lemma pg_poll_result:
  assumes "pg_poll_pending env h a s = (Ok p, s')"
  shows "p = v_pending (pg_view env s) (h, a)"
  using assms unfolding pg_poll_pending_def
  by (cases rule: with_db_cases)
     (auto simp: live_pending_def split: option.splits if_splits sum.splits)

lemma pg_take_effect:
  assumes "pg_inv s" "pg_take_continuation env h a s = (rc, s')"
  shows "pg_inv s' \<and> (case rc of
      Inl _ \<Rightarrow> pg_view env s' = pg_view env s \<or> pg_view env s' = view_set_chunks (h, a) [] (pg_view env s)
    | Inr c \<Rightarrow> c = v_chunks (pg_view env s) (h, a) \<and>
               pg_view env s' = view_set_chunks (h, a) [] (pg_view env s))"
  using assms(2) unfolding pg_take_continuation_def
proof (cases rule: with_db_cases)
  case (1 rest)
  with assms(1) show ?thesis by simp
next
  case (2 fs)
  let ?row = "pg_conts s (h, a)"
  show ?thesis
  proof (cases "\<exists>row. ?row = Some row \<and> ct_expires row > pg_now s")
    case False
    then have "live_chunks env (pg_now s) ?row = None"
      by (auto simp: live_chunks_def split: option.splits)
    then have "view_set_chunks (h, a) [] (pg_view env s) = pg_view env s"
      by (auto simp: view_set_chunks_def pg_view_def fun_eq_iff)
    with False 2 assms(1) show ?thesis
      by (auto simp: live_chunks_def split: option.splits if_splits)
  next
    case True
    then obtain row where row: "?row = Some row" "ct_expires row > pg_now s" by blast
    have view: "pg_view env (s\<lparr>pg_faults := fs, pg_conts := (pg_conts s)((h, a) := None)\<rparr>) =
        view_set_chunks (h, a) [] (pg_view env s)"
      using pg_view_upd(2) [of env "s\<lparr>pg_faults := fs\<rparr>" "(h, a)" None]
      by (simp add: view_set_chunks_def)
    with 2 row assms(1) show ?thesis
      by (auto simp: Let_def live_chunks_def split: sum.splits option.splits)
  qed
qed

end

sublocale pg_env_laws \<subseteq> pg: household_store_laws "pg_household_store env" pg_inv "pg_view env" wf_str
proof unfold_locales
  fix s i pt and hc :: house_context and s'
  assume "resolve_step (pg_household_store env) i pt s = (Ok (Resolved (Bound hc)), s')"
  then have "pg_bound i s = Some hc"
    by (simp add: pg_household_store_def pg_resolve_bound)
  then show "v_thread (pg_view env s) (hc_id hc) = codex_thread_id hc"
    by (auto simp: pg_bound_def split: option.splits if_splits)
next
  fix s i pt q s'
  assume "resolve_step (pg_household_store env) i pt s = (Ok (Next q), s')"
  then show "statements_left q < statements_left pt"
    by (simp add: pg_household_store_def pg_resolve_ends)
next
  fix s h t u s'
  assume "save_thread_id (pg_household_store env) h t s = (Ok u, s')"
  then show "v_thread (pg_view env s) h \<in> {None, Some t}"
    unfolding pg_household_store_def
    by (auto simp: pg_save_thread_id_def elim!: with_db_cases split: option.splits if_splits)
qed (auto simp: pg_household_store_def intro: pg_plain_effects pg_save_ready_effect
      pg_save_continuation_effect dest: pg_poll_result pg_take_effect)

subsection \<open>A concrete environment\<close>

text \<open>
  For evaluation: the visible-tag cryptography of \<open>demo_crypto\<close>, code and nonce bytes
  from the draw counter, and a self-delimiting encoding of chunk lists in place of JSON.
\<close>

definition demo_encode :: "rstr list \<Rightarrow> rstr" where
  "demo_encode cs = concat (map (\<lambda>w. concat (map (\<lambda>c. [49, c]) w) @ [48]) cs)"

fun demo_decode :: "rstr \<Rightarrow> rstr list option" where
  "demo_decode [] = Some []"
| "demo_decode [m] = (if m = 48 then Some [[]] else None)"
| "demo_decode (m # c # r) =
     (if m = 48 then map_option (Cons []) (demo_decode (c # r))
      else (case demo_decode r of Some (w # ws) \<Rightarrow> Some ((c # w) # ws) | _ \<Rightarrow> None))"

definition demo_env :: pg_env where
  "demo_env =
     \<lparr>env_crypto = demo_crypto, env_cipher = \<lparr>sc_key = [7], sc_key_version = 1\<rparr>,
      env_to_vec = (\<lambda>cs. Some (as_bytes (demo_encode cs))), env_from_str = demo_decode,
      env_code = (\<lambda>n. 42 + n), env_bytes = (\<lambda>n i. int i)\<rparr>"

lemma demo_decode_word:
  "demo_decode (concat (map (\<lambda>c. [49, c]) w) @ 48 # r) = map_option (Cons w) (demo_decode r)"
proof (induction w)
  case Nil
  show ?case by (cases r) simp_all
next
  case (Cons c w)
  then show ?case by (cases "demo_decode r") simp_all
qed

lemma demo_decode_encode: "demo_decode (demo_encode cs) = Some cs"
  by (induction cs) (simp_all add: demo_encode_def demo_decode_word)

interpretation demo_pg: pg_env_laws demo_env
proof unfold_locales
  show "aead_encrypt (env_crypto demo_env) key nonce plaintext = Some ciphertext \<Longrightarrow>
      aead_decrypt (env_crypto demo_env) key nonce ciphertext = Some plaintext"
    for key nonce plaintext ciphertext
    by (simp add: demo_env_def demo.decrypt_encrypt)
  fix cs b
  assume cs: "list_all wf_str cs" and b: "env_to_vec demo_env cs = Some b"
  have "wf_str (demo_encode cs)"
    using cs by (induction cs) (auto simp: demo_encode_def wf_str_def is_scalar_def list_all_iff)
  then have "from_utf8 b = Some (demo_encode cs)"
    using b from_utf8_as_bytes by (auto simp: demo_env_def)
  then show "\<exists>t. from_utf8 b = Some t \<and> env_from_str demo_env t = Some cs"
    using demo_decode_encode by (simp add: demo_env_def)
qed

subsection \<open>Pairing\<close>

lemma pad6_code:
  assumes "n < 1000000"
  shows "list_all is_ascii_digit (pad6 n) \<and> str_len (pad6 n) = 6"
proof -
  have d: "list_all is_ascii_digit (pad6 n)"
    by (simp add: pad6_def) (simp add: is_ascii_digit_def list_all_iff)
  have "length (show_nat n) \<le> 6" using length_show_nat_le [of 6 n] assms by simp
  then have "length (pad6 n) = 6" by (simp add: pad6_def)
  with d show ?thesis by (simp add: str_len_digits)
qed

text \<open>What an approval found, and what it wrote.\<close>

lemma approve_pairing_True:
  assumes "approve_pairing env h code s = (Ok True, s')"
  obtains r fs where "r \<in> set (pg_pairings s)" and "pr_house r \<in> {Some h, None}"
    and "pr_approved r = None" and "pg_now s < pr_expires r"
    and "pairing_code_matches (env_crypto env) (env_cipher env) (pr_hash r) (pr_user r) (pr_app r) code"
    and "membership_exists s h (pr_user r)"
    and "\<forall>sr. pg_surfaces s (pr_app r) = Some sr \<longrightarrow> sr_house sr = h \<and> sr_user sr = pr_user r"
    and "pg_surfaces s' = (pg_surfaces s)(pr_app r \<mapsto> \<lparr>sr_house = h, sr_user = pr_user r, sr_enabled = True\<rparr>)"
    and "s' = s\<lparr>pg_faults := fs, pg_surfaces := pg_surfaces s',
           pg_pairings := map (set_approved (pr_id r) h (pg_now s)) (pg_pairings s)\<rparr>"
proof -
  have me: "membership_exists (s\<lparr>pg_faults := fs\<rparr>) h u = membership_exists s h u" for fs u
    by (simp add: membership_exists_def house_enabled_def)
  from assms show thesis
    unfolding approve_pairing_def
    apply (simp split: if_splits)
    apply (erule with_db_cases)
     apply simp
    apply (auto simp: Let_def me split: option.splits if_splits dest!: find_in_set intro!: that)
    done
qed

lemma approve_pairing_other:
  assumes "approve_pairing env h code s = (r, s')" and "r \<noteq> Ok True"
  shows "\<exists>fs. s' = s\<lparr>pg_faults := fs\<rparr>"
proof (cases "str_len code \<noteq> 6 \<or> \<not> list_all is_ascii_digit code")
  case True
  with assms(1) have "s' = s\<lparr>pg_faults := pg_faults s\<rparr>" by (auto simp: approve_pairing_def)
  then show ?thesis by blast
next
  case False
  with assms show ?thesis
    by (auto simp: approve_pairing_def Let_def elim!: with_db_cases
        split: option.splits if_splits)
qed

lemma set_approved_simps [simp]:
  "pr_id (set_approved i h t q) = pr_id q"
  "pr_app (set_approved i h t q) = pr_app q"
  "pr_approved (set_approved i h t q) = (if pr_id q = i then Some t else pr_approved q)"
  by (simp_all add: set_approved_def)

lemma pg_inv_unique_app:
  assumes "pg_inv s" "q \<in> set (pg_pairings s)" "r \<in> set (pg_pairings s)" "pr_app q = pr_app r"
  shows "q = r"
  using assms by (auto simp: pg_inv_def distinct_map inj_on_def)

lemma approve_pairing_effect:
  assumes "pg_inv s" and "approve_pairing env h code s = (r, s')"
  shows "pg_inv s' \<and> (\<forall>env2. pg_view env2 s' = pg_view env2 s) \<and>
    (r \<noteq> Ok True \<longrightarrow> pg_surfaces s' = pg_surfaces s) \<and>
    (r = Ok True \<longrightarrow> (\<exists>q \<in> set (pg_pairings s).
       pr_house q \<in> {Some h, None} \<and> pr_approved q = None \<and> pg_now s < pr_expires q \<and>
       pairing_code_matches (env_crypto env) (env_cipher env) (pr_hash q) (pr_user q) (pr_app q) code \<and>
       membership_exists s h (pr_user q) \<and>
       (\<forall>sr. pg_surfaces s (pr_app q) = Some sr \<longrightarrow> sr_house sr = h \<and> sr_user sr = pr_user q) \<and>
       pg_surfaces s' = (pg_surfaces s)(pr_app q \<mapsto>
         \<lparr>sr_house = h, sr_user = pr_user q, sr_enabled = True\<rparr>)))"
proof (cases "r = Ok True")
  case False
  with approve_pairing_other [OF assms(2)] obtain fs where "s' = s\<lparr>pg_faults := fs\<rparr>" by blast
  with False assms(1) show ?thesis by simp
next
  case True
  with assms(2) have ok: "approve_pairing env h code s = (Ok True, s')" by simp
  obtain q fs where q: "q \<in> set (pg_pairings s)" "pr_house q \<in> {Some h, None}"
      "pr_approved q = None" "pg_now s < pr_expires q"
      "pairing_code_matches (env_crypto env) (env_cipher env) (pr_hash q) (pr_user q) (pr_app q) code"
      "membership_exists s h (pr_user q)"
      "\<forall>sr. pg_surfaces s (pr_app q) = Some sr \<longrightarrow> sr_house sr = h \<and> sr_user sr = pr_user q"
    and sf: "pg_surfaces s' = (pg_surfaces s)(pr_app q \<mapsto>
        \<lparr>sr_house = h, sr_user = pr_user q, sr_enabled = True\<rparr>)"
    and s': "s' = s\<lparr>pg_faults := fs, pg_surfaces := pg_surfaces s',
        pg_pairings := map (set_approved (pr_id q) h (pg_now s)) (pg_pairings s)\<rparr>"
    by (rule approve_pairing_True [OF ok]) blast
  have fields: "pg_pairings s' = map (set_approved (pr_id q) h (pg_now s)) (pg_pairings s)"
    "pg_members s' = pg_members s" "pg_next_pairing s' = pg_next_pairing s"
    "pg_houses s' = pg_houses s" "pg_next_house s' = pg_next_house s"
    by (subst s', simp)+
  have "pg_view env2 s' = pg_view env2 s" for env2 by (subst s') (simp add: pg_view_def)
  moreover have "pg_inv s'"
  proof -
    have "\<exists>m \<in> set (pg_members s). mr_house m = h \<and> mr_user m = pr_user q"
      using q(6) by (auto simp: membership_exists_def list_ex_iff)
    moreover have "map pr_app (pg_pairings s') = map pr_app (pg_pairings s)"
      "map pr_id (pg_pairings s') = map pr_id (pg_pairings s)"
      by (simp_all add: fields comp_def)
    moreover have "pr_app p \<noteq> pr_app q" if "p \<in> set (pg_pairings s)" "pr_id p \<noteq> pr_id q" for p
      using pg_inv_unique_app [OF assms(1) that(1) q(1)] that(2) by blast
    ultimately show ?thesis
      using assms(1) unfolding pg_inv_def by (auto simp: fields sf comp_def split: if_splits)
  qed
  ultimately show ?thesis using q sf True by blast
qed

text \<open>
  C12. Only an approval binds a device, and only like this: the code is that of a
  request that is neither approved nor expired and is addressed to this house or to
  none, its account is an enabled member of the enabled house, and the device had no
  binding or one, perhaps disabled, to this very house and account. Exactly this device is bound, to this
  house and account, and enabled; all other bindings stay as they are, and so do threads,
  deferred replies and chunks.
\<close>

theorem approve_pairing_binds:
  assumes "pg_inv s" and "approve_pairing env h code s = (r, s')"
  shows "pg_inv s' \<and> pg_view env s' = pg_view env s \<and>
    (r \<noteq> Ok True \<longrightarrow> pg_surfaces s' = pg_surfaces s) \<and>
    (r = Ok True \<longrightarrow> (\<exists>q \<in> set (pg_pairings s).
       pr_house q \<in> {Some h, None} \<and> pr_approved q = None \<and> pg_now s < pr_expires q \<and>
       pairing_code_matches (env_crypto env) (env_cipher env) (pr_hash q) (pr_user q) (pr_app q) code \<and>
       membership_exists s h (pr_user q) \<and>
       (\<forall>sr. pg_surfaces s (pr_app q) = Some sr \<longrightarrow> sr_house sr = h \<and> sr_user sr = pr_user q) \<and>
       pg_surfaces s' = (pg_surfaces s)(pr_app q \<mapsto>
         \<lparr>sr_house = h, sr_user = pr_user q, sr_enabled = True\<rparr>)))"
  using approve_pairing_effect [OF assms] by blast

lemma create_pairing_request_row:
  assumes "pg_inv s" and "create_pairing_request env hid u a s = (r, s1)"
  obtains code q where "r = Ok code" and "list_all is_ascii_digit code" and "str_len code = 6"
    and "q \<in> set (pg_pairings s1)" and "pr_house q = hid" and "pr_user q = u" and "pr_app q = a"
    and "pr_approved q = None" and "pr_expires q = pg_now s + PAIRING_TTL_SECONDS"
    and "pr_hash q = pairing_code_hash (env_crypto env) (env_cipher env) u a code"
    and "\<And>p. p \<in> set (pg_pairings s1) \<Longrightarrow> p \<noteq> q \<Longrightarrow> p \<in> set (pg_pairings s) \<and> pr_app p \<noteq> a"
    and "s1 = s\<lparr>pg_pairings := pg_pairings s1, pg_next_pairing := pg_next_pairing s + 1,
           pg_draws := Suc (pg_draws s)\<rparr>"
proof -
  define code where "code = pad6 (env_code env (pg_draws s) mod 1000000)"
  have c: "r = Ok code" using assms(2) by (auto simp: create_pairing_request_def Let_def code_def)
  have s1: "s1 = s\<lparr>pg_pairings := pg_pairings s1, pg_next_pairing := pg_next_pairing s + 1,
      pg_draws := Suc (pg_draws s)\<rparr>"
    using assms(2) by (auto simp: create_pairing_request_def Let_def next_draw_def)
  have new: "\<exists>q \<in> set (pg_pairings s1). pr_house q = hid \<and> pr_user q = u \<and> pr_app q = a \<and>
      pr_approved q = None \<and> pr_expires q = pg_now s + PAIRING_TTL_SECONDS \<and>
      pr_hash q = pairing_code_hash (env_crypto env) (env_cipher env) u a code"
  proof (cases "list_ex (\<lambda>q. pr_app q = a) (pg_pairings s)")
    case True
    then obtain q where "q \<in> set (pg_pairings s)" "pr_app q = a" by (auto simp: list_ex_iff)
    moreover have "pg_pairings s1 = map (\<lambda>q. if pr_app q = a
        then q\<lparr>pr_house := hid, pr_user := u,
               pr_hash := pairing_code_hash (env_crypto env) (env_cipher env) u a code,
               pr_expires := pg_now s + PAIRING_TTL_SECONDS, pr_approved := None\<rparr>
        else q) (pg_pairings s)"
      using True assms(2) by (auto simp: create_pairing_request_def Let_def next_draw_def code_def)
    ultimately show ?thesis by (simp only: set_map bex_simps) (rule bexI [of _ q], simp_all)
  next
    case False
    with assms(2) show ?thesis
      by (auto simp: create_pairing_request_def Let_def next_draw_def code_def)
  qed
  then obtain q where q: "q \<in> set (pg_pairings s1)" "pr_house q = hid" "pr_user q = u" "pr_app q = a"
    "pr_approved q = None" "pr_expires q = pg_now s + PAIRING_TTL_SECONDS"
    "pr_hash q = pairing_code_hash (env_crypto env) (env_cipher env) u a code" by blast
  have inv1: "pg_inv s1" using create_pairing_request_inv [OF assms] by blast
  have old: "p \<in> set (pg_pairings s) \<or> pr_app p = a" if "p \<in> set (pg_pairings s1)" for p
    using assms(2) that by (auto simp: create_pairing_request_def Let_def next_draw_def split: if_splits)
  have "p \<in> set (pg_pairings s) \<and> pr_app p \<noteq> a" if "p \<in> set (pg_pairings s1)" "p \<noteq> q" for p
    using pg_inv_unique_app [OF inv1 that(1) q(1)] that old q(4) by auto
  with that [OF c _ _ q _ s1] pad6_code [of "env_code env (pg_draws s) mod 1000000"]
  show thesis by (simp add: code_def)
qed

lemma membership_single:
  assumes "membership_exists s h u"
  shows "pg_memberships u s \<noteq> [] \<and> (length (pg_memberships u s) = 1 \<longrightarrow> hd (pg_memberships u s) = h)"
proof -
  define xs where "xs = map mr_house
      (filter (\<lambda>m. mr_user m = u \<and> mr_enabled m \<and> house_enabled s (mr_house m)) (pg_members s))"
  have h: "h \<in> set (sort xs)" using assms by (auto simp: membership_exists_def list_ex_iff xs_def)
  have m: "pg_memberships u s = take 2 (sort xs)" by (simp add: pg_memberships_def xs_def)
  from h show ?thesis unfolding m by (cases "sort xs") (auto simp: min_def split: if_splits)
qed

text \<open>A code that was just offered, approved in time for a house of the account.\<close>

lemma approve_created:
  assumes inv: "pg_inv s" and f: "pg_faults s = []" and create: "create_pairing_request env hid u a s = (Ok code, s1)"
    and hid: "hid \<in> {Some h, None}" and t: "t < pg_now s + PAIRING_TTL_SECONDS" and m: "membership_exists s h u"
    and bound: "pg_surfaces s a = None \<or> (\<exists>b. pg_surfaces s a = Some \<lparr>sr_house = h, sr_user = u, sr_enabled = b\<rparr>)"
    and others: "\<And>p. p \<in> set (pg_pairings s) \<Longrightarrow> pr_app p \<noteq> a \<Longrightarrow> pr_approved p = None \<Longrightarrow> t < pr_expires p \<Longrightarrow>
        \<not> pairing_code_matches (env_crypto env) (env_cipher env) (pr_hash p) (pr_user p) (pr_app p) code"
  obtains s2 where "approve_pairing env h code (s1\<lparr>pg_now := t\<rparr>) = (Ok True, s2)"
    and "pg_surfaces s2 = (pg_surfaces s)(a \<mapsto> \<lparr>sr_house = h, sr_user = u, sr_enabled = True\<rparr>)"
    and "pg_houses s2 = pg_houses s" and "pg_members s2 = pg_members s" and "pg_faults s2 = []"
proof -
  let ?ok = "\<lambda>r. pairing_code_matches (env_crypto env) (env_cipher env) (pr_hash r) (pr_user r) (pr_app r) code"
  obtain q where code: "list_all is_ascii_digit code" "str_len code = 6"
    and q: "q \<in> set (pg_pairings s1)" "pr_house q = hid" "pr_user q = u" "pr_app q = a"
      "pr_approved q = None" "pr_expires q = pg_now s + PAIRING_TTL_SECONDS"
      "pr_hash q = pairing_code_hash (env_crypto env) (env_cipher env) u a code"
    and old: "\<And>p. p \<in> set (pg_pairings s1) \<Longrightarrow> p \<noteq> q \<Longrightarrow> p \<in> set (pg_pairings s) \<and> pr_app p \<noteq> a"
    and s1: "s1 = s\<lparr>pg_pairings := pg_pairings s1, pg_next_pairing := pg_next_pairing s + 1,
           pg_draws := Suc (pg_draws s)\<rparr>"
    by (rule create_pairing_request_row [OF inv create]) blast
  have fields: "pg_surfaces s1 = pg_surfaces s" "pg_faults s1 = []" "pg_houses s1 = pg_houses s"
    "pg_members s1 = pg_members s"
    by (subst s1, simp add: f)+
  have ok: "?ok q" using q by (simp add: pairing_code_matches_def pairing_code_hash_def)
  have "find ?ok (filter (\<lambda>r. (pr_house r = Some h \<or> pr_house r = None) \<and> pr_approved r = None \<and>
      t < pr_expires r) (pg_pairings s1)) = Some q"
    using q hid t ok by (intro find_unique) (auto dest: old others)
  moreover have "membership_exists (s1\<lparr>pg_now := t\<rparr>) h u"
    using m by (simp add: membership_exists_def house_enabled_def fields)
  ultimately show thesis
    using code q bound that by (auto simp: approve_pairing_def with_db_def Let_def fields)
qed

text \<open>
  C11. Pairing from end to end. The bridge tells the member's device a code; when an
  administrator approves this code for a house of the member within ten minutes, and no
  other open request has a code that matches, the approval succeeds and the next
  request of the same account from the same device is in that house.
\<close>

theorem pairing_roundtrip:
  assumes inv: "pg_inv s" and f: "pg_faults s = []"
    and res: "pg_resolve_surface env i s = (Ok (PairingRequired code), s1)"
    and t: "t < pg_now s + PAIRING_TTL_SECONDS"
    and m: "membership_exists s h (si_user_id i)"
    and others: "\<And>p. p \<in> set (pg_pairings s) \<Longrightarrow> pr_app p \<noteq> si_application_id i \<Longrightarrow>
        pr_approved p = None \<Longrightarrow> t < pr_expires p \<Longrightarrow>
        \<not> pairing_code_matches (env_crypto env) (env_cipher env) (pr_hash p) (pr_user p) (pr_app p) code"
  shows "\<exists>s2 hc. approve_pairing env h code (s1\<lparr>pg_now := t\<rparr>) = (Ok True, s2) \<and>
           pg_resolve_surface env i s2 = (Ok (Bound hc), s2) \<and> hc_id hc = h"
proof -
  let ?a = "si_application_id i" and ?u = "si_user_id i"
  define hid where "hid = (if length (pg_memberships ?u s) = 1 then Some (hd (pg_memberships ?u s)) else None)"
  have hid: "hid \<in> {Some h, None}" using membership_single [OF m] by (simp add: hid_def)
  have free: "pg_surfaces s ?a = None" and create: "create_pairing_request env hid ?u ?a s = (Ok code, s1)"
    using res f by (auto simp: pg_resolve_surface_calm Let_def hid_def
        split: option.splits if_splits sum.splits prod.splits)
  obtain s2 where s2: "approve_pairing env h code (s1\<lparr>pg_now := t\<rparr>) = (Ok True, s2)"
    "pg_surfaces s2 = (pg_surfaces s)(?a \<mapsto> \<lparr>sr_house = h, sr_user = ?u, sr_enabled = True\<rparr>)"
    "pg_houses s2 = pg_houses s" "pg_members s2 = pg_members s" "pg_faults s2 = []"
    by (rule approve_created [OF inv f create hid t m _ others]) (simp_all add: free)
  from m obtain hr where "pg_houses s h = Some hr" "hr_enabled hr"
    by (auto simp: membership_exists_def house_enabled_def split: option.splits)
  with m have "\<exists>hc. pg_bound i s2 = Some hc \<and> hc_id hc = h"
    by (simp add: pg_bound_def s2 membership_exists_def list_ex_iff)
  with s2 show ?thesis by (auto simp: pg_resolve_surface_calm)
qed

text \<open>A house with one member, for evaluation.\<close>

definition demo_state :: pg_state where
  "demo_state =
     \<lparr>pg_houses = [1 \<mapsto> \<lparr>hr_name = asc ''home'', hr_thread = None, hr_connector = asc ''homey-1'',
                          hr_enabled = True\<rparr>],
      pg_members = [\<lparr>mr_house = 1, mr_user = asc ''u1'', mr_role = asc ''owner'', mr_enabled = True\<rparr>],
      pg_surfaces = Map.empty, pg_pairings = [], pg_pending = Map.empty, pg_conts = Map.empty,
      pg_next_house = 2, pg_next_pairing = 1, pg_now = 1000, pg_faults = [], pg_draws = 0\<rparr>"

definition demo_identity :: surface_identity where
  "demo_identity = \<lparr>si_user_id = asc ''u1'', si_application_id = asc ''a1''\<rparr>"

lemma demo_state_inv: "pg_inv demo_state"
  by (simp add: pg_inv_def demo_state_def)

lemma demo_membership: "membership_exists demo_state 1 (asc ''u1'')"
  by (simp add: membership_exists_def house_enabled_def demo_state_def)

lemma demo_resolve:
  "\<exists>s1. pg_resolve_surface demo_env demo_identity demo_state = (Ok (PairingRequired (pad6 42)), s1)"
proof -
  have "pg_memberships (asc ''u1'') demo_state = [1]"
    by (simp add: pg_memberships_def demo_state_def house_enabled_def)
  moreover have "pg_faults demo_state = []" "pg_draws demo_state = 0" "pg_surfaces demo_state = Map.empty"
    by (simp_all add: demo_state_def)
  moreover have "env_code demo_env 0 mod 1000000 = 42" by (simp add: demo_env_def)
  ultimately show ?thesis
    by (simp add: pg_resolve_surface_calm pg_bound_def Let_def create_pairing_request_def
        demo_identity_def)
qed

theorem pairing_roundtrip_witness:
  "\<exists>s1 s2 hc. pg_resolve_surface demo_env demo_identity demo_state = (Ok (PairingRequired (pad6 42)), s1) \<and>
     approve_pairing demo_env 1 (pad6 42) (s1\<lparr>pg_now := 1599\<rparr>) = (Ok True, s2) \<and>
     pg_resolve_surface demo_env demo_identity s2 = (Ok (Bound hc), s2) \<and> hc_id hc = 1"
proof -
  obtain s1 where r: "pg_resolve_surface demo_env demo_identity demo_state = (Ok (PairingRequired (pad6 42)), s1)"
    using demo_resolve by blast
  have "\<exists>s2 hc. approve_pairing demo_env 1 (pad6 42) (s1\<lparr>pg_now := 1599\<rparr>) = (Ok True, s2) \<and>
      pg_resolve_surface demo_env demo_identity s2 = (Ok (Bound hc), s2) \<and> hc_id hc = 1"
  proof (rule pairing_roundtrip [OF demo_state_inv _ r])
    show "membership_exists demo_state 1 (si_user_id demo_identity)"
      using demo_membership by (simp add: demo_identity_def)
  qed (simp_all add: demo_state_def PAIRING_TTL_SECONDS_def)
  with r show ?thesis by blast
qed

text \<open>The same house with an open request of the device \<open>a1\<close>.\<close>

definition demo_request :: pairing_row where
  "demo_request =
     \<lparr>pr_id = 0, pr_house = Some 1, pr_user = asc ''u1'', pr_app = asc ''a1'',
      pr_hash = pairing_code_hash (env_crypto demo_env) (env_cipher demo_env)
                  (asc ''u1'') (asc ''a1'') (asc ''000042''),
      pr_expires = 1600, pr_approved = None\<rparr>"

theorem approve_pairing_binds_witness:
  "\<exists>s'. approve_pairing demo_env 1 (asc ''000042'') (demo_state\<lparr>pg_pairings := [demo_request]\<rparr>) = (Ok True, s') \<and>
     pg_inv s' \<and> dom (pg_surfaces s') = {asc ''a1''}"
proof -
  have inv: "pg_inv (demo_state\<lparr>pg_pairings := [demo_request]\<rparr>)"
    by (simp add: pg_inv_def demo_state_def demo_request_def)
  have "list_all is_ascii_digit (asc ''000042'')" "str_len (asc ''000042'') = 6"
    by (simp_all add: asc_def is_ascii_digit_def len_utf8_def)
  moreover have "pairing_code_matches (env_crypto demo_env) (env_cipher demo_env) (pr_hash demo_request)
      (pr_user demo_request) (pr_app demo_request) (asc ''000042'')"
    by (simp add: pairing_code_matches_def pairing_code_hash_def demo_request_def)
  moreover have "membership_exists (demo_state\<lparr>pg_pairings := [demo_request]\<rparr>) 1 (asc ''u1'')"
    by (simp add: membership_exists_def house_enabled_def demo_state_def)
  ultimately obtain s' where a: "approve_pairing demo_env 1 (asc ''000042'')
      (demo_state\<lparr>pg_pairings := [demo_request]\<rparr>) = (Ok True, s')"
    by (simp add: approve_pairing_def with_db_def demo_state_def Let_def)
       (simp add: demo_request_def)
  from approve_pairing_binds [OF inv a] a show ?thesis
    by (auto simp: demo_state_def demo_request_def)
qed

subsection \<open>Authorisation\<close>

lemma pg_bound_iff:
  "pg_bound i s = Some hc \<longleftrightarrow> (\<exists>sr hr. pg_surfaces s (si_application_id i) = Some sr \<and>
     pg_houses s (sr_house sr) = Some hr \<and> sr_user sr = si_user_id i \<and> sr_enabled sr \<and>
     membership_exists s (sr_house sr) (si_user_id i) \<and>
     hc = \<lparr>hc_id = sr_house sr, hc_name = hr_name hr, codex_thread_id = hr_thread hr,
           homey_connector_id = hr_connector hr\<rparr>)"
  by (auto simp: pg_bound_def membership_exists_def house_enabled_def split: option.splits)

text \<open>
  C14. When the database answers, a request is in a house exactly when its device has an
  enabled binding made for the same account and the account is an enabled member of that
  enabled house; the house is the one of the binding, with its stored thread and
  connector. A code is told exactly to a device without any binding of an account that
  is an enabled member somewhere. Every other request is answered as unauthorised: that of a device with a
  binding that does not admit the account, and that of an unknown device of an account that is an enabled member
  nowhere. There is no other result, and resolving never makes or changes a binding.
\<close>

theorem resolve_surface_authorises:
  assumes "pg_faults s = []" and "pg_resolve_surface env i s = (r, s')"
  shows "(\<forall>hc. r = Ok (Bound hc) \<longleftrightarrow> (\<exists>sr hr. pg_surfaces s (si_application_id i) = Some sr \<and>
            pg_houses s (sr_house sr) = Some hr \<and> sr_user sr = si_user_id i \<and> sr_enabled sr \<and>
            membership_exists s (sr_house sr) (si_user_id i) \<and>
            hc = \<lparr>hc_id = sr_house sr, hc_name = hr_name hr, codex_thread_id = hr_thread hr,
                  homey_connector_id = hr_connector hr\<rparr>)) \<and>
         ((\<exists>code. r = Ok (PairingRequired code)) \<longleftrightarrow>
            pg_surfaces s (si_application_id i) = None \<and> (\<exists>h. membership_exists s h (si_user_id i))) \<and>
         (r = Ok Unauthorized \<longleftrightarrow>
            (case pg_surfaces s (si_application_id i) of
               Some sr \<Rightarrow> \<not> ((\<exists>hr. pg_houses s (sr_house sr) = Some hr) \<and> sr_user sr = si_user_id i \<and> sr_enabled sr \<and>
                         membership_exists s (sr_house sr) (si_user_id i))
             | None \<Rightarrow> \<not> (\<exists>h. membership_exists s h (si_user_id i)))) \<and>
         (\<exists>a. r = Ok a) \<and> pg_surfaces s' = pg_surfaces s"
proof -
  let ?a = "si_application_id i" and ?u = "si_user_id i"
  let ?hid = "if length (pg_memberships ?u s) = 1 then Some (hd (pg_memberships ?u s)) else None"
  have mems: "pg_memberships ?u s \<noteq> [] \<longleftrightarrow> (\<exists>h. membership_exists s h ?u)"
  proof -
    have "sort xs = [] \<longleftrightarrow> xs = []" for xs :: "int list"
      by (metis length_0_conv length_sort)
    then show ?thesis
      by (auto simp: pg_memberships_def membership_exists_def list_ex_iff filter_empty_conv)
  qed
  consider (bound) hc where "pg_bound i s = Some hc" "pg_surfaces s ?a \<noteq> None"
    | (taken) "pg_bound i s = None" "pg_surfaces s ?a \<noteq> None"
    | (stranger) "pg_bound i s = None" "pg_surfaces s ?a = None" "pg_memberships ?u s = []"
    | (pairing) "pg_bound i s = None" "pg_surfaces s ?a = None" "pg_memberships ?u s \<noteq> []"
    by (cases "pg_bound i s"; cases "pg_surfaces s ?a") (auto simp: pg_bound_iff)
  moreover have refused: "(case pg_surfaces s ?a of
        Some sr \<Rightarrow> \<not> ((\<exists>hr. pg_houses s (sr_house sr) = Some hr) \<and> sr_user sr = ?u \<and> sr_enabled sr \<and>
                  membership_exists s (sr_house sr) ?u)
      | None \<Rightarrow> \<not> (\<exists>h. membership_exists s h ?u)) \<longleftrightarrow>
      pg_bound i s = None \<and> (pg_surfaces s ?a = None \<longrightarrow> pg_memberships ?u s = [])"
    using mems by (auto simp: pg_bound_def membership_exists_def house_enabled_def split: option.splits)
  ultimately show ?thesis
    unfolding refused
    unfolding pg_bound_iff [symmetric] mems [symmetric]
  proof cases
    case pairing
    define hid where "hid = ?hid"
    obtain code s2 where c: "create_pairing_request env hid ?u ?a s = (Ok code, s2)"
      and s2: "pg_surfaces s2 = pg_surfaces s"
      by (simp add: create_pairing_request_def Let_def next_draw_def)
    have "pg_resolve_surface env i s = (Ok (PairingRequired code), s2)"
      using assms(1) pairing c by (simp add: pg_resolve_surface_calm Let_def hid_def)
    with assms(2) pairing s2 show "(\<forall>hc. r = Ok (Bound hc) \<longleftrightarrow> pg_bound i s = Some hc) \<and>
        ((\<exists>code. r = Ok (PairingRequired code)) \<longleftrightarrow> pg_surfaces s ?a = None \<and> pg_memberships ?u s \<noteq> []) \<and>
        (r = Ok Unauthorized \<longleftrightarrow> pg_bound i s = None \<and> (pg_surfaces s ?a = None \<longrightarrow> pg_memberships ?u s = [])) \<and>
        (\<exists>a. r = Ok a) \<and> pg_surfaces s' = pg_surfaces s"
      by auto
  qed (use assms in \<open>auto simp: pg_resolve_surface_calm Let_def\<close>)
qed

theorem resolve_surface_authorises_witness:
  "\<exists>r s'. pg_resolve_surface demo_env demo_identity demo_state = (r, s') \<and>
     (\<exists>code. r = Ok (PairingRequired code)) \<and> pg_surfaces s' = Map.empty"
proof -
  obtain r s' where r: "pg_resolve_surface demo_env demo_identity demo_state = (r, s')" by fastforce
  have "pg_faults demo_state = []" "pg_surfaces demo_state = Map.empty" by (simp_all add: demo_state_def)
  with resolve_surface_authorises [OF _ r] demo_membership r show ?thesis
    by (simp add: demo_identity_def) blast
qed

context pg_env_laws
begin

lemma contract: "household_store_laws (pg_household_store env) pg_inv (pg_view env) wf_str"
  by (rule pg.household_store_laws_axioms)

end

text \<open>
  C13. The Postgres store keeps the promises of the \<open>HouseholdStore\<close> trait in every state
  of its tables, whichever database calls fail: each operation changes of the view (the
  thread of a house, the deferred reply and the unread chunks of a surface) exactly
  its entry when it succeeds and nothing when it fails, the thread of a house is written
  once, and sealed replies and chunks read back as they were saved.
\<close>

theorem pg_store_meets_contract:
  assumes "pg_env_laws env"
  shows "household_store_laws (pg_household_store env) pg_inv (pg_view env) wf_str"
  using assms by (rule pg_env_laws.contract)

theorem pg_store_meets_contract_witness:
  "household_store_laws (pg_household_store demo_env) pg_inv (pg_view demo_env) wf_str \<and> pg_inv demo_state"
  using pg_store_meets_contract [OF demo_pg.pg_env_laws_axioms] demo_state_inv by blast

end
