(* ===== verification/Admin.thy ===== *)
theory Admin
  imports House_Store_Pg
begin

section \<open>The administration command\<close>

text \<open>
  Model of \<^verbatim>\<open>crates/bridge-server/src/bin/bridge-admin.rs\<close>: the command line, and
  what each command writes to the tables of \<open>House_Store_Pg\<close>. Printing and the connection
  to the database are left out; a call of the database fails when \<open>with_db\<close> says so.
\<close>

datatype admin_command =
    CreateHouse rstr rstr
  | AddMember i64 rstr rstr
  | ApprovePairing i64 rstr
  | DisableMember i64 rstr
  | DisableSurface rstr

datatype admin_error = InvalidArguments | InvalidEnvironment | Database | PairingNotFound

fun as_chunks2 :: "'a list \<Rightarrow> ('a \<times> 'a) list" where
  "as_chunks2 (a # b # xs) = (a, b) # as_chunks2 xs"
| "as_chunks2 _ = []"

fun flag_loop :: "rstr set \<Rightarrow> (rstr \<rightharpoonup> rstr) \<Rightarrow> (rstr \<times> rstr) list \<Rightarrow> ((rstr \<rightharpoonup> rstr), admin_error) result" where
  "flag_loop expected parsed [] = Ok parsed"
| "flag_loop expected parsed ((name, v) # pairs) =
     (if name \<notin> expected \<or> v = [] \<or> parsed name \<noteq> None then Err InvalidArguments
      else flag_loop expected (parsed(name \<mapsto> v)) pairs)"

definition parse_flags :: "rstr list \<Rightarrow> rstr list \<Rightarrow> ((rstr \<rightharpoonup> rstr), admin_error) result" where
  "parse_flags arguments expected =
     (if length arguments \<noteq> length expected * 2 then Err InvalidArguments
      else flag_loop (set expected) Map.empty (as_chunks2 arguments))"

definition required :: "(rstr \<rightharpoonup> rstr) \<Rightarrow> rstr \<Rightarrow> (rstr, admin_error) result" where
  "required flags name = ok_or InvalidArguments (flags name)"

definition positive_id :: "rstr \<Rightarrow> (i64, admin_error) result" where
  "positive_id v = ok_or InvalidArguments (case parse_i64 v of Some n \<Rightarrow> if n > 0 then Some n else None | None \<Rightarrow> None)"

definition valid_homey_connector :: "rstr \<Rightarrow> bool" where
  "valid_homey_connector connector \<longleftrightarrow>
     starts_with connector (asc ''homey-'') \<and>
     list_all (\<lambda>c. is_ascii_alphanumeric c \<or> c = 45 \<or> c = 95) connector"

definition parse_command :: "rstr list \<Rightarrow> (admin_command, admin_error) result" where
  "parse_command arguments =
     (case arguments of
        namespace # action # flags \<Rightarrow>
          (if namespace = asc ''house'' \<and> action = asc ''create'' then
             try_bind (parse_flags flags [asc ''--name'', asc ''--homey-connector'']) (\<lambda>flags.
             try_bind (required flags (asc ''--homey-connector'')) (\<lambda>homey_connector.
             if \<not> valid_homey_connector homey_connector then Err InvalidArguments
             else try_bind (required flags (asc ''--name'')) (\<lambda>name. Ok (CreateHouse name homey_connector))))
           else if namespace = asc ''member'' \<and> action = asc ''add'' then
             try_bind (parse_flags flags [asc ''--house'', asc ''--user-id'', asc ''--role'']) (\<lambda>flags.
             try_bind (required flags (asc ''--role'')) (\<lambda>role.
             if role \<notin> {asc ''owner'', asc ''member''} then Err InvalidArguments
             else try_bind (try_bind (required flags (asc ''--house'')) positive_id) (\<lambda>house_id.
                  try_bind (required flags (asc ''--user-id'')) (\<lambda>user_id. Ok (AddMember house_id user_id role)))))
           else if namespace = asc ''pairing'' \<and> action = asc ''approve'' then
             try_bind (parse_flags flags [asc ''--house'', asc ''--code'']) (\<lambda>flags.
             try_bind (required flags (asc ''--code'')) (\<lambda>code.
             if str_len code \<noteq> 6 \<or> \<not> list_all is_ascii_digit code then Err InvalidArguments
             else try_bind (try_bind (required flags (asc ''--house'')) positive_id) (\<lambda>house_id.
                  Ok (ApprovePairing house_id code))))
           else if namespace = asc ''member'' \<and> action = asc ''disable'' then
             try_bind (parse_flags flags [asc ''--house'', asc ''--user-id'']) (\<lambda>flags.
             try_bind (try_bind (required flags (asc ''--house'')) positive_id) (\<lambda>house_id.
             try_bind (required flags (asc ''--user-id'')) (\<lambda>user_id. Ok (DisableMember house_id user_id))))
           else if namespace = asc ''surface'' \<and> action = asc ''disable'' then
             try_bind (parse_flags flags [asc ''--application-id'']) (\<lambda>flags.
             try_bind (required flags (asc ''--application-id'')) (\<lambda>application_id.
             Ok (DisableSurface application_id)))
           else Err InvalidArguments)
      | _ \<Rightarrow> Err InvalidArguments)"

text \<open>Every database error of the command is reported as \<open>Database\<close>.\<close>

definition as_database :: "('r, household_store_error) result \<times> 's \<Rightarrow> ('r, admin_error) result \<times> 's" where
  "as_database x = (case x of (Inl _, s) \<Rightarrow> (Err Database, s) | (Inr r, s) \<Rightarrow> (Ok r, s))"

definition create_house :: "rstr \<Rightarrow> rstr \<Rightarrow> (pg_state, unit) store_op" where
  "create_house name homey_connector = with_db (\<lambda>s.
     (Ok (), s\<lparr>pg_houses := (pg_houses s)(pg_next_house s \<mapsto>
                 \<lparr>hr_name = name, hr_thread = None, hr_connector = homey_connector, hr_enabled = True\<rparr>),
               pg_next_house := pg_next_house s + 1\<rparr>))"

definition add_member :: "i64 \<Rightarrow> rstr \<Rightarrow> rstr \<Rightarrow> (pg_state, unit) store_op" where
  "add_member house_id user_id role = with_db (\<lambda>s.
     (if pg_houses s house_id = None \<or> role \<notin> {asc ''owner'', asc ''member''} then (Err db_error, s)
      else if list_ex (\<lambda>m. mr_house m = house_id \<and> mr_user m = user_id) (pg_members s)
      then (Ok (), s\<lparr>pg_members := map (\<lambda>m. if mr_house m = house_id \<and> mr_user m = user_id
                                            then m\<lparr>mr_role := role, mr_enabled := True\<rparr> else m) (pg_members s)\<rparr>)
      else (Ok (), s\<lparr>pg_members := pg_members s @
                       [\<lparr>mr_house = house_id, mr_user = user_id, mr_role = role, mr_enabled = True\<rparr>]\<rparr>)))"

definition disable_member :: "i64 \<Rightarrow> rstr \<Rightarrow> (pg_state, unit) store_op" where
  "disable_member house_id user_id = with_db (\<lambda>s.
     (Ok (), s\<lparr>pg_members := map (\<lambda>m. if mr_house m = house_id \<and> mr_user m = user_id
                                      then m\<lparr>mr_enabled := False\<rparr> else m) (pg_members s)\<rparr>))"

definition disable_surface :: "rstr \<Rightarrow> (pg_state, unit) store_op" where
  "disable_surface application_id = with_db (\<lambda>s.
     (Ok (), (case pg_surfaces s application_id of
                None \<Rightarrow> s
              | Some sr \<Rightarrow> s\<lparr>pg_surfaces := (pg_surfaces s)(application_id \<mapsto> sr\<lparr>sr_enabled := False\<rparr>)\<rparr>)))"

fun execute_command :: "pg_env \<Rightarrow> rstr option \<Rightarrow> admin_command \<Rightarrow> pg_state \<Rightarrow> (unit, admin_error) result \<times> pg_state" where
  "execute_command env key (CreateHouse name homey_connector) s = as_database (create_house name homey_connector s)"
| "execute_command env key (AddMember house_id user_id role) s = as_database (add_member house_id user_id role s)"
| "execute_command env key (ApprovePairing house_id code) s =
     (case key of
        None \<Rightarrow> (Err InvalidEnvironment, s)
      | Some k \<Rightarrow>
          (case from_hex (env_crypto env) k of
             Inl _ \<Rightarrow> (Err InvalidEnvironment, s)
           | Inr cipher \<Rightarrow>
               (case as_database (approve_pairing (env\<lparr>env_cipher := cipher\<rparr>) house_id code s) of
                  (Inl e, s') \<Rightarrow> (Err e, s')
                | (Inr approved, s') \<Rightarrow> if \<not> approved then (Err PairingNotFound, s') else (Ok (), s'))))"
| "execute_command env key (DisableMember house_id user_id) s = as_database (disable_member house_id user_id s)"
| "execute_command env key (DisableSurface application_id) s = as_database (disable_surface application_id s)"

text \<open>\<open>run\<close>: the arguments are parsed before the environment is read.\<close>

definition admin_run :: "pg_env \<Rightarrow> rstr option \<Rightarrow> rstr option \<Rightarrow> bool \<Rightarrow> rstr list \<Rightarrow> pg_state \<Rightarrow>
    (unit, admin_error) result \<times> pg_state" where
  "admin_run env database_url key connects arguments s =
     (case parse_command arguments of
        Inl e \<Rightarrow> (Err e, s)
      | Inr command \<Rightarrow>
          (if database_url = None then (Err InvalidEnvironment, s)
           else if \<not> connects then (Err Database, s)
           else execute_command env key command s))"

subsection \<open>The command line\<close>

lemma required_Ok [simp]: "required flags name = Ok v \<longleftrightarrow> flags name = Some v"
  by (auto simp: required_def ok_or_def split: option.splits)

lemma positive_id_Ok [simp]: "positive_id v = Ok n \<longleftrightarrow> parse_i64 v = Some n \<and> n > 0"
  by (auto simp: positive_id_def ok_or_def split: option.splits if_splits)

lemma parse_i64_range: "parse_i64 v = Some n \<Longrightarrow> i64_min \<le> n \<and> n \<le> i64_max"
  by (auto simp: parse_i64_def split: list.splits option.splits if_splits)

lemma flag_loop_values:
  assumes "flag_loop expected parsed pairs = Ok m" and "\<forall>k v. parsed k = Some v \<longrightarrow> v \<noteq> []"
  shows "\<forall>k v. m k = Some v \<longrightarrow> v \<noteq> []"
  using assms
proof (induction expected parsed pairs rule: flag_loop.induct)
  case (1 expected parsed)
  then show ?case by simp
next
  case (2 expected parsed name v pairs)
  from 2(2) have c: "\<not> (name \<notin> expected \<or> v = [] \<or> parsed name \<noteq> None)"
    and r: "flag_loop expected (parsed(name \<mapsto> v)) pairs = Ok m"
    by (metis flag_loop.simps(2) sum.distinct(1))+
  have "\<forall>k w. (parsed(name \<mapsto> v)) k = Some w \<longrightarrow> w \<noteq> []" using c 2(3) by simp
  then show ?case by (rule 2(1) [OF c r])
qed

lemma parse_flags_values: "parse_flags args expected = Ok m \<Longrightarrow> m k = Some v \<Longrightarrow> v \<noteq> []"
  using flag_loop_values [of "set expected" Map.empty "as_chunks2 args" m]
  by (auto simp: parse_flags_def split: if_splits)

fun command_ok :: "admin_command \<Rightarrow> bool" where
  "command_ok (CreateHouse name homey_connector) = (name \<noteq> [] \<and> valid_homey_connector homey_connector)"
| "command_ok (AddMember house_id user_id role) =
     (0 < house_id \<and> house_id \<le> i64_max \<and> user_id \<noteq> [] \<and> role \<in> {asc ''owner'', asc ''member''})"
| "command_ok (ApprovePairing house_id code) =
     (0 < house_id \<and> house_id \<le> i64_max \<and> length code = 6 \<and> list_all is_ascii_digit code)"
| "command_ok (DisableMember house_id user_id) = (0 < house_id \<and> house_id \<le> i64_max \<and> user_id \<noteq> [])"
| "command_ok (DisableSurface application_id) = (application_id \<noteq> [])"

text \<open>
  C25. Whatever the arguments, a command that the parser lets through is well formed: a
  positive house id within 64 bits, nonempty names, a role the schema knows, a code of
  six ASCII digits, a connector of the Homey form.
\<close>

theorem parse_command_sound:
  assumes "parse_command arguments = Ok command"
  shows "command_ok command"
  using assms
  by (auto simp: parse_command_def str_len_digits split: list.splits if_splits
      dest: parse_flags_values parse_i64_range)

text \<open>The other way round: each command has a command line, with its flags in any order.\<close>

lemma flag_names_distinct [simp]:
  "asc ''--name'' \<noteq> asc ''--homey-connector''" "asc ''--homey-connector'' \<noteq> asc ''--name''"
  "asc ''--house'' \<noteq> asc ''--user-id''" "asc ''--user-id'' \<noteq> asc ''--house''"
  "asc ''--house'' \<noteq> asc ''--role''" "asc ''--role'' \<noteq> asc ''--house''"
  "asc ''--user-id'' \<noteq> asc ''--role''" "asc ''--role'' \<noteq> asc ''--user-id''"
  "asc ''--house'' \<noteq> asc ''--code''" "asc ''--code'' \<noteq> asc ''--house''"
  by (simp_all add: asc_def)

theorem parse_command_sound_witness:
  "command_ok (DisableSurface (asc ''a1'')) \<and>
   parse_command [asc ''surface'', asc ''disable'', asc ''--application-id'', asc ''a1''] = Ok (DisableSurface (asc ''a1''))"
proof -
  have p: "parse_command [asc ''surface'', asc ''disable'', asc ''--application-id'', asc ''a1'']
      = Ok (DisableSurface (asc ''a1''))"
    by (simp add: parse_command_def parse_flags_def required_def asc_def)
  from parse_command_sound [OF p] p show ?thesis by blast
qed

end
