(* ===== verification/Household_System.thy ===== *)
theory Household_System
  imports House_Engine Admin
begin

section \<open>The household bridge on its Postgres store\<close>

text \<open>
  The engine of \<open>House_Engine\<close> over the store of \<open>House_Store_Pg\<close>, while the clock
  runs, database calls fail and the administrator works (\<open>Admin\<close>). The theorems of this
  theory are about the states that this system reaches: one task per house, one Codex
  thread per house, late answers only where they were asked for, only admitted devices,
  and an answer to every request. \<open>Revocation\<close> and \<open>Household_Talk\<close> build on it.
\<close>

inductive pg_other :: "pg_env \<Rightarrow> pg_state \<Rightarrow> pg_state \<Rightarrow> bool" for env where
  clock: "pg_now s \<le> t \<Longrightarrow> pg_other env s (s\<lparr>pg_now := t\<rparr>)"
| outage: "pg_other env s (s\<lparr>pg_faults := fs\<rparr>)"
| admin: "pg_other env s (snd (execute_command env key command s))"

abbreviation bridge_step :: "pg_env \<Rightarrow> unicode \<Rightarrow> household_engine_config \<Rightarrow> pg_state engine \<Rightarrow> pg_state engine \<Rightarrow> bool" where
  "bridge_step env uc cfg \<equiv> engine_step uc cfg (pg_household_store env) (pg_other env)"

abbreviation bridge_reachable :: "pg_env \<Rightarrow> unicode \<Rightarrow> household_engine_config \<Rightarrow> pg_state \<Rightarrow> pg_state engine \<Rightarrow> bool" where
  "bridge_reachable env uc cfg \<equiv> engine_reachable uc cfg (pg_household_store env) (pg_other env)"

abbreviation bridge_run :: "pg_env \<Rightarrow> unicode \<Rightarrow> household_engine_config \<Rightarrow> pg_state \<Rightarrow> pg_state engine list \<Rightarrow> bool" where
  "bridge_run env uc cfg \<equiv> engine_run uc cfg (pg_household_store env) (pg_other env)"

text \<open>A start of the process: the tables satisfy the invariant and no answer is deferred
  or half read.\<close>

definition quiet :: "pg_state \<Rightarrow> bool" where
  "quiet s \<longleftrightarrow> pg_inv s \<and> pg_pending s = Map.empty \<and> pg_conts s = Map.empty"

subsection \<open>What the administrator changes\<close>

text \<open>Bindings are never removed or moved.\<close>

definition surfaces_le :: "pg_state \<Rightarrow> pg_state \<Rightarrow> bool" where
  "surfaces_le s s' \<longleftrightarrow> (\<forall>a sr. pg_surfaces s a = Some sr \<longrightarrow>
     (\<exists>sr'. pg_surfaces s' a = Some sr' \<and> sr_house sr' = sr_house sr \<and> sr_user sr' = sr_user sr))"

lemma surfaces_le_same: "pg_surfaces s' = pg_surfaces s \<Longrightarrow> surfaces_le s s'"
  by (simp add: surfaces_le_def)

lemma surfaces_le_trans: "surfaces_le s t \<Longrightarrow> surfaces_le t u \<Longrightarrow> surfaces_le s u"
  unfolding surfaces_le_def by metis

lemma as_database_snd [simp]: "snd (as_database x) = snd x"
  by (auto simp: as_database_def split: prod.splits sum.splits)

text \<open>What an operation does to the tables, when it does nothing on a failed call.\<close>

lemma with_db_rule:
  assumes "P (s\<lparr>pg_faults := []\<rparr>)" and "\<And>fs. P (s\<lparr>pg_faults := fs\<rparr>)"
    and "\<And>fs. P (snd (f (s\<lparr>pg_faults := fs\<rparr>)))"
  shows "P (snd (with_db f s))"
proof -
  obtain r s' where r: "with_db f s = (r, s')" by fastforce
  then show ?thesis
    by (cases rule: with_db_cases) (use assms r in \<open>metis snd_conv\<close>)+
qed

definition admin_effect :: "pg_env \<Rightarrow> pg_state \<Rightarrow> pg_state \<Rightarrow> bool" where
  "admin_effect env s s' \<longleftrightarrow> pg_inv s' \<and> pg_view env s' = pg_view env s \<and> surfaces_le s s'"

lemma approve_admin_effect:
  assumes "pg_inv s"
  shows "admin_effect env s (snd (approve_pairing (env\<lparr>env_cipher := c\<rparr>) h code s))"
proof -
  obtain r s' where r: "approve_pairing (env\<lparr>env_cipher := c\<rparr>) h code s = (r, s')" by fastforce
  note eff = approve_pairing_effect [OF assms r]
  have "pg_view env s' = pg_view env s" using eff by blast
  moreover have "surfaces_le s s'"
    using eff by (cases "r = Ok True") (auto simp: surfaces_le_def)
  ultimately show ?thesis using eff r by (simp add: admin_effect_def)
qed

lemma admin_effect_members:
  assumes "pg_inv s" and "\<And>m. m \<in> set (pg_members s) \<Longrightarrow>
      \<exists>m2 \<in> set ms. mr_house m2 = mr_house m \<and> mr_user m2 = mr_user m"
  shows "admin_effect env s (s\<lparr>pg_faults := fs, pg_members := ms\<rparr>)"
proof -
  have "\<exists>m \<in> set ms. mr_house m = sr_house sr \<and> mr_user m = sr_user sr"
    if sr: "pg_surfaces s a = Some sr" for a sr
  proof -
    obtain m where "m \<in> set (pg_members s)" "mr_house m = sr_house sr" "mr_user m = sr_user sr"
      using assms(1) sr unfolding pg_inv_def by blast
    with assms(2) show ?thesis by metis
  qed
  with assms(1) show ?thesis by (simp add: admin_effect_def pg_inv_def pg_view_def surfaces_le_same)
qed

lemma admin_effect_map:
  assumes "pg_inv s" and "\<And>m. mr_house (f m) = mr_house m \<and> mr_user (f m) = mr_user m"
  shows "admin_effect env s (s\<lparr>pg_faults := fs, pg_members := map f (pg_members s)\<rparr>)"
  by (rule admin_effect_members [OF assms(1)]) (use assms(2) in \<open>auto simp: image_iff\<close>)

lemma admin_effect_append:
  "pg_inv s \<Longrightarrow> admin_effect env s (s\<lparr>pg_faults := fs, pg_members := pg_members s @ ms\<rparr>)"
  by (rule admin_effect_members) auto

lemma admin_effect_faults: "pg_inv s \<Longrightarrow> admin_effect env s (s\<lparr>pg_faults := fs\<rparr>)"
  by (simp add: admin_effect_def surfaces_le_same)

lemma execute_admin_effect:
  assumes "pg_inv s"
  shows "admin_effect env s (snd (execute_command env key command s))"
proof (cases command)
  case (CreateHouse name connector)
  show ?thesis
    unfolding CreateHouse execute_command.simps as_database_snd create_house_def
    by (rule with_db_rule)
       (use assms in \<open>auto simp: admin_effect_def pg_inv_def pg_view_def surfaces_le_def fun_eq_iff\<close>)
next
  case (AddMember h u role)
  show ?thesis
    unfolding AddMember execute_command.simps as_database_snd add_member_def
    by (rule with_db_rule)
       (use assms in \<open>auto intro!: admin_effect_map admin_effect_append admin_effect_faults\<close>)
next
  case (ApprovePairing h code)
  have "admin_effect env s s" using assms by (simp add: admin_effect_def surfaces_le_same)
  with ApprovePairing approve_admin_effect [OF assms] show ?thesis
    by (auto simp: as_database_def split: option.splits sum.splits prod.splits) (metis snd_conv)+
next
  case (DisableMember h u)
  show ?thesis
    unfolding DisableMember execute_command.simps as_database_snd disable_member_def
    by (rule with_db_rule)
       (use assms in \<open>auto intro!: admin_effect_map admin_effect_append admin_effect_faults\<close>)
next
  case (DisableSurface a)
  show ?thesis
    unfolding DisableSurface execute_command.simps as_database_snd disable_surface_def
    by (rule with_db_rule)
       (use assms in \<open>auto simp: admin_effect_def pg_inv_def pg_view_def surfaces_le_def split: option.splits\<close>)
qed

subsection \<open>The environment respects the contract\<close>

lemma live_later:
  assumes "now \<le> t"
  shows "live_pending env t row = live_pending env now row \<or> live_pending env t row = NoReply"
    and "live_chunks env t crow = live_chunks env now crow \<or> live_chunks env t crow = None"
  using assms by (auto simp: live_pending_def live_chunks_def split: option.splits)

lemma pg_other_ok:
  assumes "pg_inv s" and "pg_other env s s'"
  shows "pg_inv s' \<and> view_le (pg_view env s) (pg_view env s') \<and> surfaces_le s s'"
  using assms(2)
proof cases
  case (clock t)
  with assms(1) live_later show ?thesis by (simp add: view_le_def surfaces_le_same)
next
  case (outage fs)
  with assms(1) show ?thesis by (simp add: view_le_def surfaces_le_same)
next
  case (admin key command)
  with execute_admin_effect [OF assms(1), of env key command] show ?thesis
    by (simp add: admin_effect_def view_le_def)
qed

sublocale pg_env_laws \<subseteq> bridge: engine_laws "pg_household_store env" pg_inv "pg_view env" wf_str "pg_other env"
  by unfold_locales (use pg_other_ok in blast)+

context pg_env_laws
begin

lemma bridge_contract: "engine_laws (pg_household_store env) pg_inv (pg_view env) wf_str (pg_other env)"
  by (rule bridge.engine_laws_axioms)

end

lemma pg_ops_surfaces:
  "pg_resolve_step env i pt s = (rr, s') \<Longrightarrow> pg_surfaces s' = pg_surfaces s"
  "pg_save_thread_id h t s = (ru, s') \<Longrightarrow> pg_surfaces s' = pg_surfaces s"
  "pg_poll_pending env h a s = (rp, s') \<Longrightarrow> pg_surfaces s' = pg_surfaces s"
  "pg_mark_thinking h a s = (ru, s') \<Longrightarrow> pg_surfaces s' = pg_surfaces s"
  "pg_save_ready env h a t s = (ru, s') \<Longrightarrow> pg_surfaces s' = pg_surfaces s"
  "pg_clear_pending h a s = (ru, s') \<Longrightarrow> pg_surfaces s' = pg_surfaces s"
  "pg_take_continuation env h a s = (rc, s') \<Longrightarrow> pg_surfaces s' = pg_surfaces s"
  "pg_save_continuation env h a cs s = (ru, s') \<Longrightarrow> pg_surfaces s' = pg_surfaces s"
proof -
  show "pg_resolve_step env i pt s = (rr, s') \<Longrightarrow> pg_surfaces s' = pg_surfaces s"
    by (cases pt) (auto simp: create_pairing_request_def next_draw_def Let_def elim!: with_db_cases
        split: option.splits sum.splits if_splits prod.splits)
qed (auto simp: pg_save_thread_id_def pg_poll_pending_def pg_mark_thinking_def
      pg_save_ready_def pg_clear_pending_def pg_take_continuation_def pg_save_continuation_def
      pg_clear_continuation_def next_draw_def Let_def elim!: with_db_cases
      split: option.splits sum.splits if_splits prod.splits)

lemma pg_store_fields [simp]:
  "resolve_step (pg_household_store env) = pg_resolve_step env"
  "save_thread_id (pg_household_store env) = pg_save_thread_id"
  "poll_pending (pg_household_store env) = pg_poll_pending env"
  "mark_thinking (pg_household_store env) = pg_mark_thinking"
  "save_ready (pg_household_store env) = pg_save_ready env"
  "clear_pending (pg_household_store env) = pg_clear_pending"
  "take_continuation (pg_household_store env) = pg_take_continuation env"
  "save_continuation (pg_household_store env) = pg_save_continuation env"
  by (simp_all add: pg_household_store_def)

lemma respond_step_surfaces:
  assumes "respond_step uc limit (pg_household_store env) input p s = (ph, s')"
  shows "pg_surfaces s' = pg_surfaces s"
  using assms
  by (cases p)
     (auto simp: or_panic_def answer_continuation_def shape_and_save_def dest: pg_ops_surfaces
       split: prod.splits sum.splits option.splits resolve_progress.splits surface_resolution.splits
         pending_reply.splits continuation_decision.splits)

lemma bridge_step_surfaces:
  assumes "bridge_step env uc cfg e e'" and "pg_inv (en_store e)"
  shows "surfaces_le (en_store e) (en_store e')"
  using assms(1)
proof (cases rule: engine_step.cases)
  case (store_call r input p ph s')
  with respond_step_surfaces [OF store_call(3)] show ?thesis by (simp add: set_phase_def surfaces_le_same)
next
  case (late j h a job res)
  have "pg_surfaces (snd (pg_save_ready env h a t (en_store e))) = pg_surfaces (en_store e)"
    "pg_surfaces (snd (pg_clear_pending h a (en_store e))) = pg_surfaces (en_store e)" for t
    by (rule pg_ops_surfaces(5), rule prod.collapse [symmetric])
       (rule pg_ops_surfaces(6), rule prod.collapse [symmetric])
  with late show ?thesis
    by (cases res) (simp_all add: watcher_step_def surfaces_le_same)
next
  case (environment s')
  with pg_other_ok [OF assms(2)] show ?thesis by simp
qed (auto simp: engine_defs Let_def intro!: surfaces_le_same dest: pg_ops_surfaces
      split: option.splits sum.splits prod.splits)

subsection \<open>The states of the bridge\<close>

lemma quiet_start: "quiet s \<Longrightarrow> pg_inv s \<and> store_ok (pg_view env s) Map.empty"
  by (simp add: quiet_def store_ok_def)

lemma bridge_inv:
  assumes "pg_env_laws env" "quiet s0" "chunk_limit cfg > 12" "bridge_reachable env uc cfg s0 e"
  shows "pg_inv (en_store e) \<and> engine_ok (pg_view env (en_store e)) e"
proof -
  have "engine_laws (pg_household_store env) pg_inv (pg_view env) wf_str (pg_other env)"
    by (rule pg_env_laws.bridge_contract [OF assms(1)])
  from engine_laws.reachable_ok [OF this assms(4)] quiet_start [OF assms(2)] assms(3)
  show ?thesis by blast
qed

text \<open>
  C1. At most one Codex task runs for a house at any time, whichever requests arrive from
  whichever of its devices, in whatever order the steps interleave: two unfinished tasks
  of one house are the same task, and it holds the lock of the house.
\<close>

theorem one_task_per_house:
  assumes "engine_reachable uc cfg S E s0 e"
    and "en_jobs e j = Some job" and "unfinished job"
    and "en_jobs e k = Some job2" and "unfinished job2"
    and "hc_id (jb_house job) = hc_id (jb_house job2)"
  shows "j = k \<and> en_locks e (hc_id (jb_house job)) = Some j"
proof -
  have l: "locks_ok (en_locks e) (en_jobs e)" by (rule reachable_locks [OF assms(1)])
  have "en_locks e (hc_id (jb_house job)) = Some j" using l assms(2,3) by (simp add: locks_ok_def)
  moreover have "en_locks e (hc_id (jb_house job)) = Some k" using l assms(4-6) by (simp add: locks_ok_def)
  ultimately show ?thesis by simp
qed

text \<open>
  C2. A house has one Codex thread for its lifetime: every turn the bridge ever asked for
  on behalf of a house ran in the thread that the database has for the house, so any two
  turns of one house ran in the same thread, whatever failed in between.
\<close>

theorem one_thread_per_house:
  assumes "pg_env_laws env" and "quiet s0" and "reply_shaper_new (chunk_limit cfg) = Some shaper"
    and "bridge_reachable env uc cfg s0 e"
    and "RunTurn house thread utterance \<in> set (en_calls e)"
  shows "(\<exists>hr. pg_houses (en_store e) (hc_id house) = Some hr \<and> hr_thread hr = Some thread) \<and>
         (\<forall>house2 thread2 utterance2. RunTurn house2 thread2 utterance2 \<in> set (en_calls e) \<longrightarrow>
            hc_id house2 = hc_id house \<longrightarrow> thread2 = thread)"
proof -
  from assms(3) have "chunk_limit cfg > 12" by simp
  then have "engine_ok (pg_view env (en_store e)) e" using bridge_inv assms(1,2,4) by blast
  then have calls: "\<forall>c \<in> set (en_calls e). call_ok (pg_view env (en_store e)) c" by (simp add: engine_ok_def)
  have run: "Option.bind (pg_houses (en_store e) (hc_id h)) hr_thread = Some t"
    if "RunTurn h t u \<in> set (en_calls e)" for h t u
    using bspec [OF calls that] by simp
  show ?thesis
  proof (intro conjI allI impI)
    show "\<exists>hr. pg_houses (en_store e) (hc_id house) = Some hr \<and> hr_thread hr = Some thread"
      using run [OF assms(5)] by (auto simp: bind_eq_Some_conv)
    fix house2 thread2 utterance2
    assume "RunTurn house2 thread2 utterance2 \<in> set (en_calls e)" "hc_id house2 = hc_id house"
    then show "thread2 = thread" using run [OF assms(5)] run by fastforce
  qed
qed

text \<open>
  A deferred reply is found only where it was asked for: when the poll of a surface
  finds a ready text, a task that a request of this very device started for this
  very house has ended with exactly this text.
\<close>

theorem deferred_reply_origin:
  assumes "pg_env_laws env" and "quiet s0" and "reply_shaper_new (chunk_limit cfg) = Some shaper"
    and "bridge_reachable env uc cfg s0 e"
    and "pg_poll_pending env h a (en_store e) = (Ok (Ready str), s')"
  shows "\<exists>j job. en_jobs e j = Some job \<and> hc_id (jb_house job) = h \<and>
           si_application_id (hi_identity (jb_input job)) = a \<and> jb_phase job = JFinished (WorkOk str)"
proof -
  from assms(3) have "chunk_limit cfg > 12" by simp
  then have "pg_inv (en_store e)" "engine_ok (pg_view env (en_store e)) e"
    using bridge_inv assms(1,2,4) by blast+
  moreover have "v_pending (pg_view env (en_store e)) (h, a) = Ready str"
    using pg_env_laws.pg_poll_result [OF assms(1,5)] by simp
  ultimately show ?thesis by (auto simp: engine_ok_def store_ok_def answered_by_def jb_app_def)
qed

text \<open>A request was admitted in a run at the statement that finds the binding of its device.\<close>

lemma bound_by_binding: "pg_resolve_step env i pt s = (Ok (Resolved (Bound h)), s') \<Longrightarrow> pt = FindBinding"
  by (cases pt) (auto simp: Let_def elim!: with_db_cases split: option.splits sum.splits if_splits prod.splits)

lemma admitted_in_bridge:
  assumes "admitted_in (pg_household_store env) es r i h"
  shows "\<exists>e0 \<in> set es. \<exists>sr hr. en_requests e0 r = Some (i, At (Resolve FindBinding)) \<and>
           pg_surfaces (en_store e0) (si_application_id (hi_identity i)) = Some sr \<and> sr_enabled sr \<and>
           sr_user sr = si_user_id (hi_identity i) \<and> sr_house sr = hc_id h \<and>
           membership_exists (en_store e0) (sr_house sr) (sr_user sr) \<and>
           pg_houses (en_store e0) (sr_house sr) = Some hr \<and> homey_connector_id h = hr_connector hr"
proof -
  obtain e0 pt s' where e0: "e0 \<in> set es" "en_requests e0 r = Some (i, At (Resolve pt))"
    and res: "pg_resolve_step env (hi_identity i) pt (en_store e0) = (Ok (Resolved (Bound h)), s')"
    using assms by (auto simp: admitted_in_def)
  have "pt = FindBinding" by (rule bound_by_binding [OF res])
  moreover from pg_resolve_bound [OF res] obtain sr hr where
    "pg_surfaces (en_store e0) (si_application_id (hi_identity i)) = Some sr"
    "pg_houses (en_store e0) (sr_house sr) = Some hr" "sr_user sr = si_user_id (hi_identity i)" "sr_enabled sr"
    "membership_exists (en_store e0) (sr_house sr) (sr_user sr)"
    "hc_id h = sr_house sr" "homey_connector_id h = hr_connector hr"
    unfolding pg_bound_iff by auto
  ultimately show ?thesis using e0 by metis
qed

text \<open>
  C5. The runtime is called only for admitted devices: in every run, each thread that was started and each
  turn that was run belongs to a task, for its house and with its words; and in a state of this very run, before the
  task was there, a request with the input of the task was looking for its binding and found that its device was bound
  to this house for its account, the binding enabled, the account an enabled member of the enabled house, whose connector
  the call carries.
\<close>

theorem runtime_only_for_admitted:
  assumes "bridge_run env uc cfg s0 (e # es)" and "c \<in> set (en_calls e)"
  shows "\<exists>j job r e0 sr hr. en_jobs e j = Some job \<and> call_of job c \<and>
           e0 \<in> set (e # es) \<and> en_jobs e0 j = None \<and>
           en_requests e0 r = Some (jb_input job, At (Resolve FindBinding)) \<and>
           pg_surfaces (en_store e0) (si_application_id (hi_identity (jb_input job))) = Some sr \<and> sr_enabled sr \<and>
           sr_user sr = si_user_id (hi_identity (jb_input job)) \<and> sr_house sr = hc_id (jb_house job) \<and>
           membership_exists (en_store e0) (sr_house sr) (sr_user sr) \<and>
           pg_houses (en_store e0) (sr_house sr) = Some hr \<and> homey_connector_id (jb_house job) = hr_connector hr"
proof -
  have "bridge_reachable env uc cfg s0 e" using run_reachable [OF assms(1)] by simp
  then obtain j job where j: "en_jobs e j = Some job" "call_of job c"
    using reachable_calls_owned [of uc cfg "pg_household_store env" "pg_other env" s0 e] assms(2)
    unfolding calls_owned_def by blast
  obtain r where "admitted_in (pg_household_store env) (filter (\<lambda>e0. en_jobs e0 j = None) (e # es)) r (jb_input job) (jb_house job)"
    using job_admitted [OF assms(1) j(1)] by blast
  from admitted_in_bridge [OF this] j show ?thesis unfolding set_filter by blast
qed

text \<open>
  C7. Every request is answered and none panics: in each state the bridge reaches, a
  request that has no reply yet can take a step of its own that brings it closer to one
  (a waiting request by its deadline at the latest), no step of anybody else takes
  it further away, and it needs at most ten steps of its own.
\<close>

theorem every_request_answered:
  assumes "pg_env_laws env" and "quiet s0" and "reply_shaper_new (chunk_limit cfg) = Some shaper"
    and "bridge_reachable env uc cfg s0 e" and "en_requests e r = Some (input, ph)"
  shows "ph \<noteq> Panicked \<and> rank ph \<le> 10 \<and>
    (\<forall>e'. bridge_step env uc cfg e e' \<longrightarrow>
       (\<exists>ph'. en_requests e' r = Some (input, ph') \<and> (ph' = ph \<or> rank ph' < rank ph))) \<and>
    ((\<exists>reply. ph = Done reply) \<or>
     (\<exists>e' ph'. bridge_step env uc cfg e e' \<and> en_requests e' r = Some (input, ph') \<and> rank ph' < rank ph))"
proof -
  from assms(3) have "chunk_limit cfg > 12" by simp
  then have ok: "engine_ok (pg_view env (en_store e)) e" using bridge_inv assms(1,2,4) by blast
  then have ph: "phase_ok (pg_view env (en_store e)) ph" and w: "waits_ok (en_requests e) (en_jobs e)"
    using assms(5) by (auto simp: engine_ok_def)
  from ph have np: "ph \<noteq> Panicked" by auto
  have "rank ph \<le> 10" by (rule rank_le)
  moreover have "rank ph = 0 \<Longrightarrow> \<exists>reply. ph = Done reply" 
    using np by (cases ph) (simp_all, metis less_irrefl point_rank_pos)
  moreover obtain n where "fresh_from (en_jobs e) n" using reachable_fresh [OF assms(4)] by blast
  ultimately show ?thesis
    using np engine_laws.step_rank [OF pg_env_laws.bridge_contract [OF assms(1)] _ assms(5)]
      engine_laws.request_progress [OF pg_env_laws.bridge_contract [OF assms(1)] assms(5) w] by (metis gr0I)
qed

text \<open>
  C19. A request reads its house before it has the lock. When the house got its thread in
  between, the task of the request still starts a thread of its own, cannot store it, and
  ends in an error, so that a correct request is answered with an internal
  error; the house keeps its thread.
\<close>

theorem stale_house_copy_fails:
  assumes "pg_env_laws env" and "quiet s0" and "reply_shaper_new (chunk_limit cfg) = Some shaper"
    and "bridge_reachable env uc cfg s0 e" and "en_jobs e j = Some job"
    and "jb_phase job = JSaving thread_id"
    and "pg_houses (en_store e) (hc_id (jb_house job)) = Some hr" and "hr_thread hr = Some t"
    and "thread_id \<noteq> t"
  shows "\<exists>s'. bridge_step env uc cfg e (finish_job j job WorkErr (e\<lparr>en_store := s'\<rparr>)) \<and>
           pg_view env s' = pg_view env (en_store e) \<and>
           (\<forall>house. in_time house WorkErr = Done InternalError)"
proof -
  from assms(3) have "chunk_limit cfg > 12" by simp
  then have inv: "pg_inv (en_store e)" using bridge_inv assms(1,2,4) by blast
  have "v_thread (pg_view env (en_store e)) (hc_id (jb_house job)) = Some t" using assms(7,8) by simp
  from engine_laws.stale_save [OF pg_env_laws.bridge_contract [OF assms(1)] inv this assms(9)]
  obtain s' where "job_save (pg_household_store env) j job thread_id e =
      finish_job j job WorkErr (e\<lparr>en_store := s'\<rparr>)" "pg_view env s' = pg_view env (en_store e)" by blast
  moreover have "bridge_step env uc cfg e (job_save (pg_household_store env) j job thread_id e)"
    using assms(5,6) by (rule saved)
  ultimately show ?thesis by auto
qed

subsection \<open>A run of the bridge\<close>

text \<open>
  A house with one member and one bound device; the device asks twice, and both requests
  read the house before either has the lock. The states of this run are the concrete
  instances of the theorems above.
\<close>

definition demo_cfg :: household_engine_config where
  "demo_cfg = \<lparr>reply_budget = 3500, chunk_limit = 20, homey_enabled = False\<rparr>"

definition demo_bound :: pg_state where
  "demo_bound = demo_state\<lparr>pg_surfaces := [asc ''a1'' \<mapsto> \<lparr>sr_house = 1, sr_user = asc ''u1'', sr_enabled = True\<rparr>]\<rparr>"

definition demo_job :: "job_phase \<Rightarrow> job" where
  "demo_job ph = \<lparr>jb_input = demo_input, jb_house = demo_house, jb_phase = ph, jb_aborting = False\<rparr>"

abbreviation demo_pg_store :: "pg_state household_store" where
  "demo_pg_store \<equiv> pg_household_store demo_env"

definition run1 :: "pg_state engine" where
  "run1 = set_phase 2 demo_input (Enter demo_house)
     (set_phase 0 demo_input (Enter demo_house) (engine_new demo_bound))"
definition run2 :: "pg_state engine" where
  "run2 = job_begin False 0 (demo_job JBegin) (enter_step 0 0 demo_input demo_house run1)"
definition run3 :: "pg_state engine" where
  "run3 = job_save demo_pg_store 0 (demo_job (JSaving (asc ''t1''))) (asc ''t1'')
     (set_job 0 (demo_job JStarting) (JSaving (asc ''t1'')) run2)"
definition run4 :: "pg_state engine" where
  "run4 = mark_step demo_pg_store 0 demo_input demo_house 0 (demo_job (JTurn (asc ''t1'')))
     (set_phase 0 demo_input (Mark demo_house 0) run3)"
definition run5 :: "pg_state engine" where
  "run5 = watcher_step demo_pg_store 0 1 (asc ''a1'') (WorkOk (asc ''Yes.''))
     (finish_job 0 (demo_job (JTurn (asc ''t1''))) (WorkOk (asc ''Yes.'')) run4)"
definition run6 :: "pg_state engine" where
  "run6 = set_job 2 (demo_job JStarting) (JSaving (asc ''t2''))
     (job_begin False 2 (demo_job JBegin) (enter_step 2 2 demo_input demo_house run5))"

abbreviation demo_reachable :: "pg_state engine \<Rightarrow> bool" where
  "demo_reachable \<equiv> bridge_reachable demo_env basic_unicode demo_cfg demo_bound"

lemma demo_quiet: "quiet demo_bound"
  by (simp add: quiet_def pg_inv_def demo_bound_def demo_state_def)

lemma demo_bound_fields:
  "pg_faults demo_bound = []" "pg_pending demo_bound = Map.empty" "pg_conts demo_bound = Map.empty"
  "pg_now demo_bound = 1000" "pg_draws demo_bound = 0"
  "pg_surfaces demo_bound = [asc ''a1'' \<mapsto> \<lparr>sr_house = 1, sr_user = asc ''u1'', sr_enabled = True\<rparr>]"
  "pg_houses demo_bound = [1 \<mapsto> \<lparr>hr_name = asc ''home'', hr_thread = None, hr_connector = asc ''homey-1'',
     hr_enabled = True\<rparr>]"
  by (simp_all add: demo_bound_def demo_state_def)

lemma demo_run_request:
  "run_request 3 basic_unicode (chunk_limit demo_cfg) demo_pg_store demo_input (At (Resolve FindBinding)) demo_bound =
     (Enter demo_house, demo_bound)"
proof -
  have "pg_resolve_step demo_env (hi_identity demo_input) FindBinding demo_bound = (Ok (Resolved (Bound demo_house)), demo_bound)"
    by (simp add: with_db_def demo_bound_fields pg_bound_def demo_input_def demo_house_def)
       (simp add: demo_bound_def demo_state_def)
  moreover have "pg_take_continuation demo_env h a demo_bound = (Ok None, demo_bound)"
    "pg_poll_pending demo_env h a demo_bound = (Ok NoReply, demo_bound)" for h a
    by (simp_all add: pg_take_continuation_def pg_poll_pending_def with_db_def demo_bound_fields)
  ultimately show ?thesis by (simp add: eval_nat_numeral)
qed

lemma run1_reachable: "demo_reachable run1"
proof -
  let ?e0 = "engine_new demo_bound"
  let ?e1 = "set_phase 0 demo_input (Enter demo_house) ?e0"
  have s: "en_store ?e0 = demo_bound" "?e0\<lparr>en_store := demo_bound\<rparr> = ?e0"
    "en_store ?e1 = demo_bound" "?e1\<lparr>en_store := demo_bound\<rparr> = ?e1"
    by (simp_all add: engine_new_def set_phase_def)
  have "demo_reachable (set_phase 0 demo_input (At (Resolve FindBinding)) ?e0)"
    by (rule engine_reachable.step [OF engine_reachable.start arrive]) (simp add: engine_new_def)
  then have "demo_reachable ?e1"
    using reachable_run [of _ demo_cfg _ _ _ 0 demo_input "At (Resolve FindBinding)" ?e0 3 "Enter demo_house" demo_bound]
      demo_run_request s by simp
  then have "demo_reachable (set_phase 2 demo_input (At (Resolve FindBinding)) ?e1)"
    by (rule engine_reachable.step [OF _ arrive]) (simp add: engine_new_def set_phase_def)
  then show ?thesis
    using reachable_run [of _ demo_cfg _ _ _ 2 demo_input "At (Resolve FindBinding)" ?e1 3 "Enter demo_house" demo_bound]
      demo_run_request s by (simp add: run1_def)
qed

lemma demo_simps [simp]:
  "hc_id demo_house = 1" "codex_thread_id demo_house = None"
  "si_application_id (hi_identity demo_input) = asc ''a1''" "hi_new_session demo_input = False"
  "jb_phase (demo_job ph) = ph" "jb_house (demo_job ph) = demo_house" "jb_input (demo_job ph) = demo_input"
  "(demo_job ph)\<lparr>jb_phase := q\<rparr> = demo_job q" "jb_aborting (demo_job ph) = False"
  "\<lparr>jb_input = demo_input, jb_house = demo_house, jb_phase = ph, jb_aborting = False\<rparr> = demo_job ph"
  by (simp_all add: demo_house_def demo_input_def demo_job_def)

lemma run1_facts:
  "en_jobs run1 = Map.empty" "en_locks run1 = Map.empty" "en_store run1 = demo_bound"
  "en_requests run1 0 = Some (demo_input, Enter demo_house)"
  "en_requests run1 2 = Some (demo_input, Enter demo_house)" "en_calls run1 = []" "en_watchers run1 = Map.empty"
  by (simp_all add: run1_def set_phase_def engine_new_def)

lemma demo_begins:
  assumes "demo_reachable e" "en_jobs e j = Some job" "jb_phase job = JBegin"
  shows "demo_reachable (job_begin False j job e)"
proof -
  have "homey_enabled demo_cfg = False" by (simp add: demo_cfg_def)
  with engine_reachable.step [OF assms(1) begins [OF assms(2,3)]] show ?thesis by metis
qed

text \<open>The first request has the lock and has started a thread.\<close>

lemma run2_facts:
  "en_jobs run2 = [0 \<mapsto> demo_job JStarting]" "en_locks run2 = [1 \<mapsto> 0]" "en_store run2 = demo_bound"
  "en_requests run2 0 = Some (demo_input, Wait demo_house 0)"
  "en_requests run2 2 = Some (demo_input, Enter demo_house)" "en_watchers run2 = Map.empty"
  "set (en_calls run2) = {StartThread demo_house (build_house_instructions demo_house False)}"
  by (simp_all add: run2_def engine_defs run1_facts)

lemma run2_reachable: "demo_reachable run2"
proof -
  let ?e = "enter_step 0 0 demo_input demo_house run1"
  have "demo_reachable ?e"
    by (rule engine_reachable.step [OF run1_reachable enter]) (simp_all add: run1_facts)
  moreover have "en_jobs ?e 0 = Some (demo_job JBegin)"
    by (simp add: enter_step_def set_phase_def run1_facts)
  ultimately show ?thesis unfolding run2_def by (rule demo_begins) simp
qed

text \<open>The thread is stored and the turn runs in it.\<close>

definition demo_bound_t1 :: pg_state where
  "demo_bound_t1 = demo_bound\<lparr>pg_houses := (pg_houses demo_bound)(1 \<mapsto>
     \<lparr>hr_name = asc ''home'', hr_thread = Some (asc ''t1''), hr_connector = asc ''homey-1'', hr_enabled = True\<rparr>)\<rparr>"

lemma demo_save: "pg_save_thread_id 1 (asc ''t1'') demo_bound = (Ok (), demo_bound_t1)"
  by (simp add: pg_save_thread_id_def with_db_def demo_bound_fields demo_bound_t1_def)

lemma run3_facts:
  "en_jobs run3 = [0 \<mapsto> demo_job (JTurn (asc ''t1''))]" "en_locks run3 = [1 \<mapsto> 0]"
  "en_store run3 = demo_bound_t1" "en_requests run3 0 = Some (demo_input, Wait demo_house 0)"
  "en_requests run3 2 = Some (demo_input, Enter demo_house)" "en_watchers run3 = Map.empty"
  "RunTurn demo_house (asc ''t1'') (hi_utterance demo_input) \<in> set (en_calls run3)"
  by (simp_all add: run3_def engine_defs run2_facts demo_save)

lemma run3_reachable: "demo_reachable run3"
proof -
  let ?e = "set_job 0 (demo_job JStarting) (JSaving (asc ''t1'')) run2"
  have "demo_reachable ?e"
    by (rule engine_reachable.step [OF run2_reachable started])
       (simp_all add: run2_facts asc_def wf_str_def is_scalar_def)
  moreover have "en_jobs ?e 0 = Some (demo_job (JSaving (asc ''t1'')))"
    by (simp add: set_job_def)
  ultimately show ?thesis unfolding run3_def
    by (rule engine_reachable.step [OF _ saved]) simp
qed

text \<open>The budget of the first request runs out; the answer comes late and is stored.\<close>

definition demo_thinking :: pg_state where
  "demo_thinking = demo_bound_t1\<lparr>pg_pending := [(1, asc ''a1'') \<mapsto> \<lparr>pe_payload = None, pe_expires = 1120\<rparr>]\<rparr>"

lemma demo_mark: "pg_mark_thinking 1 (asc ''a1'') demo_bound_t1 = (Ok (), demo_thinking)"
  by (simp add: pg_mark_thinking_def with_db_def demo_bound_t1_def demo_thinking_def demo_bound_fields
      surface_fk_def PENDING_TTL_SECONDS_def)

lemma run4_facts:
  "en_jobs run4 = [0 \<mapsto> demo_job (JTurn (asc ''t1''))]" "en_locks run4 = [1 \<mapsto> 0]"
  "en_store run4 = demo_thinking" "en_requests run4 0 = Some (demo_input, Done (Say STILL_THINKING))"
  "en_requests run4 2 = Some (demo_input, Enter demo_house)" "en_watchers run4 = [0 \<mapsto> (1, asc ''a1'')]"
  by (simp_all add: run4_def mark_step_def set_phase_def Let_def run3_facts demo_mark)

lemma run4_reachable: "demo_reachable run4"
proof -
  let ?e = "set_phase 0 demo_input (Mark demo_house 0) run3"
  have "demo_reachable ?e"
    by (rule engine_reachable.step [OF run3_reachable deadline]) (simp add: run3_facts)
  moreover have "en_requests ?e 0 = Some (demo_input, Mark demo_house 0)"
    "en_jobs ?e 0 = Some (demo_job (JTurn (asc ''t1'')))" by (simp_all add: set_phase_def run3_facts)
  ultimately show ?thesis unfolding run4_def by (rule engine_reachable.step [OF _ marked])
qed

lemma demo_ready:
  "\<exists>s. pg_save_ready demo_env 1 (asc ''a1'') (asc ''Yes.'') demo_thinking = (Ok (), s) \<and>
     pg_poll_pending demo_env 1 (asc ''a1'') s = (Ok (Ready (asc ''Yes.'')), s) \<and>
     pg_houses s = pg_houses demo_bound_t1"
proof -
  obtain p where p: "seal (env_crypto demo_env) (env_cipher demo_env) (draw_nonce demo_env demo_thinking)
      (as_bytes (asc ''Yes.'')) = Ok p"
    by (simp add: seal_def demo_env_def demo_crypto_def)
  then have o: "open_text demo_env p = Ok (asc ''Yes.'')"
    using demo_pg.open_text_seal [OF p] from_utf8_as_bytes [of "asc ''Yes.''"]
    by (simp add: asc_def wf_str_def is_scalar_def)
  have f: "pg_faults demo_thinking = []" "surface_fk (next_draw demo_thinking) 1 (asc ''a1'')"
    "pg_now demo_thinking = 1000" "pg_houses demo_thinking = pg_houses demo_bound_t1"
    by (simp_all add: demo_thinking_def demo_bound_t1_def demo_bound_fields surface_fk_def next_draw_def)
  show ?thesis
    using p o f
    by (simp add: pg_save_ready_def with_db_def next_draw_def pg_poll_pending_def PENDING_TTL_SECONDS_def)
qed

lemma run5_facts:
  "en_jobs run5 = [0 \<mapsto> demo_job (JFinished (WorkOk (asc ''Yes.'')))]" "en_locks run5 = Map.empty"
  "en_requests run5 2 = Some (demo_input, Enter demo_house)"
  "pg_poll_pending demo_env 1 (asc ''a1'') (en_store run5) = (Ok (Ready (asc ''Yes.'')), en_store run5)"
  "pg_houses (en_store run5) = pg_houses demo_bound_t1"
proof -
  show "en_jobs run5 = [0 \<mapsto> demo_job (JFinished (WorkOk (asc ''Yes.'')))]" "en_locks run5 = Map.empty"
    "en_requests run5 2 = Some (demo_input, Enter demo_house)"
    by (simp_all add: run5_def watcher_step_def finish_job_def set_job_def run4_facts)
  obtain s where "pg_save_ready demo_env 1 (asc ''a1'') (asc ''Yes.'') demo_thinking = (Ok (), s)"
    "pg_poll_pending demo_env 1 (asc ''a1'') s = (Ok (Ready (asc ''Yes.'')), s)"
    "pg_houses s = pg_houses demo_bound_t1" using demo_ready by blast
  then show "pg_poll_pending demo_env 1 (asc ''a1'') (en_store run5) = (Ok (Ready (asc ''Yes.'')), en_store run5)"
    "pg_houses (en_store run5) = pg_houses demo_bound_t1"
    by (simp_all add: run5_def watcher_step_def finish_job_def set_job_def run4_facts)
qed

lemma run5_reachable: "demo_reachable run5"
proof -
  let ?e = "finish_job 0 (demo_job (JTurn (asc ''t1''))) (WorkOk (asc ''Yes.'')) run4"
  have "demo_reachable ?e"
    by (rule engine_reachable.step [OF run4_reachable answered])
       (simp_all add: run4_facts asc_def wf_str_def is_scalar_def)
  moreover have "en_watchers ?e 0 = Some (1, asc ''a1'')"
    "en_jobs ?e 0 = Some (demo_job (JFinished (WorkOk (asc ''Yes.''))))"
    by (simp_all add: finish_job_def set_job_def run4_facts)
  ultimately show ?thesis unfolding run5_def
    by (rule engine_reachable.step [OF _ late]) simp
qed

text \<open>The second request gets the lock, with its old copy of the house.\<close>

lemma run6_facts:
  "en_jobs run6 2 = Some (demo_job (JSaving (asc ''t2'')))" "en_store run6 = en_store run5"
  by (simp_all add: run6_def engine_defs run5_facts)

lemma run6_reachable: "demo_reachable run6"
proof -
  let ?e = "enter_step 2 2 demo_input demo_house run5"
  have "demo_reachable ?e"
    by (rule engine_reachable.step [OF run5_reachable enter]) (simp_all add: run5_facts)
  moreover have "en_jobs ?e 2 = Some (demo_job JBegin)"
    by (simp add: enter_step_def set_phase_def run5_facts)
  ultimately have "demo_reachable (job_begin False 2 (demo_job JBegin) ?e)" by (rule demo_begins) simp
  moreover have "en_jobs (job_begin False 2 (demo_job JBegin) ?e) 2 = Some (demo_job JStarting)"
    by (simp add: engine_defs run5_facts)
  ultimately show ?thesis unfolding run6_def
    by (rule engine_reachable.step [OF _ started]) (simp_all add: asc_def wf_str_def is_scalar_def)
qed

lemma demo_shaper: "reply_shaper_new (chunk_limit demo_cfg) = Some 20"
  by (simp add: demo_cfg_def)

lemmas demo_laws = demo_pg.pg_env_laws_axioms demo_quiet demo_shaper

theorem one_task_per_house_witness:
  "en_jobs run3 0 = Some (demo_job (JTurn (asc ''t1''))) \<and> en_locks run3 1 = Some 0"
proof -
  have j: "en_jobs run3 0 = Some (demo_job (JTurn (asc ''t1'')))" by (simp add: run3_facts)
  have u: "unfinished (demo_job (JTurn (asc ''t1'')))" by (rule unfinished_phase(4)) simp
  from one_task_per_house [OF run3_reachable j u j u] j show ?thesis by simp
qed

theorem one_thread_per_house_witness:
  "\<exists>hr. pg_houses (en_store run3) 1 = Some hr \<and> hr_thread hr = Some (asc ''t1'')"
  using one_thread_per_house [OF demo_laws run3_reachable run3_facts(7)] by simp

theorem deferred_reply_origin_witness:
  "\<exists>j job. en_jobs run5 j = Some job \<and> hc_id (jb_house job) = 1 \<and>
     jb_phase job = JFinished (WorkOk (asc ''Yes.''))"
  using deferred_reply_origin [OF demo_laws run5_reachable run5_facts(4)] by blast

theorem runtime_only_for_admitted_witness:
  "\<exists>es e0 sr r. bridge_run demo_env basic_unicode demo_cfg demo_bound (run3 # es) \<and> e0 \<in> set (run3 # es) \<and>
     en_requests e0 r = Some (demo_input, At (Resolve FindBinding)) \<and>
     pg_surfaces (en_store e0) (asc ''a1'') = Some sr \<and> sr_house sr = 1"
proof -
  obtain es where es: "bridge_run demo_env basic_unicode demo_cfg demo_bound (run3 # es)"
    using reachable_has_run [OF run3_reachable] by blast
  obtain j job r e0 sr where "en_jobs run3 j = Some job" "e0 \<in> set (run3 # es)"
    "en_requests e0 r = Some (jb_input job, At (Resolve FindBinding))"
    "pg_surfaces (en_store e0) (si_application_id (hi_identity (jb_input job))) = Some sr" "sr_house sr = hc_id (jb_house job)"
    using runtime_only_for_admitted [OF es run3_facts(7)] by metis
  moreover from this(1) have "job = demo_job (JTurn (asc ''t1''))" by (simp add: run3_facts split: if_splits)
  ultimately show ?thesis using es by auto
qed

theorem every_request_answered_witness:
  "en_requests run3 0 = Some (demo_input, Wait demo_house 0) \<and>
   (\<exists>e' ph'. bridge_step demo_env basic_unicode demo_cfg run3 e' \<and>
      en_requests e' 0 = Some (demo_input, ph') \<and> rank ph' < 3)"
  using every_request_answered [OF demo_laws run3_reachable run3_facts(4)] run3_facts(4) by auto

theorem stale_house_copy_fails_witness:
  "\<exists>s'. bridge_step demo_env basic_unicode demo_cfg run6
          (finish_job 2 (demo_job (JSaving (asc ''t2''))) WorkErr (run6\<lparr>en_store := s'\<rparr>))"
proof -
  have h: "pg_houses (en_store run6) (hc_id (jb_house (demo_job (JSaving (asc ''t2''))))) =
      Some \<lparr>hr_name = asc ''home'', hr_thread = Some (asc ''t1''), hr_connector = asc ''homey-1'', hr_enabled = True\<rparr>"
    by (simp add: run6_facts run5_facts demo_bound_t1_def)
  have "asc ''t2'' \<noteq> asc ''t1''" by (simp add: asc_def)
  with stale_house_copy_fails [OF demo_laws run6_reachable run6_facts(1) _ h, of "asc ''t2''" "asc ''t1''"]
  show ?thesis by auto
qed

text \<open>The administrator disables the device of the run.\<close>

definition run7 :: "pg_state engine" where
  "run7 = run3\<lparr>en_store := snd (execute_command demo_env None (DisableSurface (asc ''a1'')) (en_store run3))\<rparr>"

lemma run7_reachable: "demo_reachable run7"
  unfolding run7_def by (rule engine_reachable.step [OF run3_reachable environment]) (rule pg_other.admin)

lemma run7_surface:
  "pg_surfaces (en_store run7) (asc ''a1'') = Some \<lparr>sr_house = 1, sr_user = asc ''u1'', sr_enabled = False\<rparr>"
  by (simp add: run7_def run3_facts as_database_def disable_surface_def with_db_def demo_bound_t1_def
      demo_bound_fields)

end
