(* ===== verification/Revocation.thy ===== *)
theory Revocation
  imports Household_System
begin

section \<open>Disabled devices\<close>

text \<open>
  What the administrator's command \<open>surface disable\<close> achieves while the statements of a
  pairing that is under way interleave with it: the device stays out when no code is
  open for it and none is about to be offered, and can come back otherwise.
\<close>

definition open_request :: "pg_state \<Rightarrow> rstr \<Rightarrow> bool" where
  "open_request s a \<longleftrightarrow> (\<exists>q \<in> set (pg_pairings s). pr_app q = a \<and> pr_approved q = None \<and> pg_now s < pr_expires q)"

text \<open>A request of the device has found no binding and will offer a code.\<close>

fun offers :: "phase \<Rightarrow> bool" where
  "offers (At (Resolve FindMemberships)) = True"
| "offers (At (Resolve (InsertRequest h))) = True"
| "offers _ = False"

text \<open>Where a request of a device that stays out can be.\<close>

fun outside :: "phase \<Rightarrow> bool" where
  "outside (At (Resolve FindBinding)) = True"
| "outside (At (Resolve FindApplication)) = True"
| "outside (Done Refuse) = True"
| "outside (Done InternalError) = True"
| "outside _ = False"

lemma outside_offers: "outside ph \<Longrightarrow> \<not> offers ph"
  by (cases ph rule: outside.cases) simp_all

text \<open>\<open>barred a old e\<close>: the device is out, and the requests that are not among the old ones stay outside.\<close>

definition device_out :: "pg_state \<Rightarrow> rstr \<Rightarrow> bool" where
  "device_out s a \<longleftrightarrow> (\<exists>sr. pg_surfaces s a = Some sr \<and> \<not> sr_enabled sr) \<and> \<not> open_request s a"

definition barred :: "rstr \<Rightarrow> nat set \<Rightarrow> pg_state engine \<Rightarrow> bool" where
  "barred a old e \<longleftrightarrow> device_out (en_store e) a \<and>
     (\<forall>r i ph. en_requests e r = Some (i, ph) \<longrightarrow> si_application_id (hi_identity i) = a \<longrightarrow>
        \<not> offers ph \<and> (r \<notin> old \<longrightarrow> outside ph))"

subsection \<open>Operations that leave the pairing requests alone\<close>

lemma pg_ops_pairings:
  "pg_save_thread_id h t s = (ru, s') \<Longrightarrow> pg_pairings s' = pg_pairings s \<and> pg_now s' = pg_now s"
  "pg_poll_pending env h a s = (rp, s') \<Longrightarrow> pg_pairings s' = pg_pairings s \<and> pg_now s' = pg_now s"
  "pg_mark_thinking h a s = (ru, s') \<Longrightarrow> pg_pairings s' = pg_pairings s \<and> pg_now s' = pg_now s"
  "pg_save_ready env h a t s = (ru, s') \<Longrightarrow> pg_pairings s' = pg_pairings s \<and> pg_now s' = pg_now s"
  "pg_clear_pending h a s = (ru, s') \<Longrightarrow> pg_pairings s' = pg_pairings s \<and> pg_now s' = pg_now s"
  "pg_take_continuation env h a s = (rc, s') \<Longrightarrow> pg_pairings s' = pg_pairings s \<and> pg_now s' = pg_now s"
  "pg_save_continuation env h a cs s = (ru, s') \<Longrightarrow> pg_pairings s' = pg_pairings s \<and> pg_now s' = pg_now s"
  by (auto simp: pg_save_thread_id_def pg_poll_pending_def pg_mark_thinking_def
      pg_save_ready_def pg_clear_pending_def pg_take_continuation_def pg_save_continuation_def
      pg_clear_continuation_def next_draw_def Let_def elim!: with_db_cases
      split: option.splits sum.splits if_splits prod.splits)

lemma pg_resolve_requests:
  assumes "pg_resolve_step env i pt s = (r, s')" and "open_request s' a"
  shows "open_request s a \<or> (si_application_id i = a \<and> (\<exists>h. pt = InsertRequest h))"
proof (cases "\<exists>h. pt = InsertRequest h")
  case True
  with assms show ?thesis
    by (fastforce simp: open_request_def create_pairing_request_def next_draw_def Let_def elim!: with_db_cases
        split: if_splits)
next
  case False
  then have "pg_pairings s' = pg_pairings s \<and> pg_now s' = pg_now s"
    using assms(1) by (cases pt) (auto simp: Let_def elim!: with_db_cases split: option.splits if_splits)
  with assms(2) show ?thesis by (simp add: open_request_def)
qed

lemma respond_step_requests:
  assumes "respond_step uc limit (pg_household_store env) input p s = (ph, s')" and "open_request s' a"
  shows "open_request s a \<or> (si_application_id (hi_identity input) = a \<and> offers (At p))"
proof (cases "\<exists>pt. p = Resolve pt")
  case True
  then obtain pt r where pt: "p = Resolve pt" and r: "pg_resolve_step env (hi_identity input) pt s = (r, s')"
    using assms(1) by (auto split: prod.splits sum.splits resolve_progress.splits surface_resolution.splits)
  from pg_resolve_requests [OF r assms(2)] pt show ?thesis by auto
next
  case False
  then have "pg_pairings s' = pg_pairings s \<and> pg_now s' = pg_now s"
    using assms(1)
    by (cases p)
       (auto simp: or_panic_def answer_continuation_def shape_and_save_def dest: pg_ops_pairings
         split: prod.splits sum.splits option.splits pending_reply.splits continuation_decision.splits)
  with assms(2) show ?thesis by (simp add: open_request_def)
qed

text \<open>A request of a device whose binding is disabled, at its first two statements.\<close>

lemma respond_step_outside:
  assumes "respond_step uc limit (pg_household_store env) input p s = (ph, s')"
    and "pg_surfaces s (si_application_id (hi_identity input)) = Some sr" and "\<not> sr_enabled sr" and "outside (At p)"
  shows "outside ph"
proof -
  have f: "pg_bound (hi_identity input) (s\<lparr>pg_faults := fs\<rparr>) = None" for fs
    using assms(2,3) by (simp add: pg_bound_def split: option.split)
  from assms(4) consider "p = Resolve FindBinding" | "p = Resolve FindApplication"
    by (cases "At p" rule: outside.cases) simp_all
  then show ?thesis
    using assms(1,2) f by cases (auto elim!: with_db_cases split: prod.splits)
qed

text \<open>No step of a request but these two leads to an offer.\<close>

lemma respond_step_offers:
  assumes "respond_step uc limit S input p s = (ph, s')" and "offers ph"
  shows "offers (At p) \<or> outside (At p)"
proof (cases p)
  case (Resolve pt)
  then show ?thesis by (cases pt) simp_all
qed (use assms in \<open>auto simp: or_panic_def
      split: prod.splits sum.splits option.splits pending_reply.splits if_splits\<close>)

subsection \<open>The administrator\<close>

lemma device_out_frame:
  "pg_surfaces s' = pg_surfaces s \<Longrightarrow> pg_pairings s' = pg_pairings s \<Longrightarrow> pg_now s \<le> pg_now s' \<Longrightarrow>
   device_out s a \<Longrightarrow> device_out s' a"
  by (fastforce simp: device_out_def open_request_def)

lemma approve_device_out:
  assumes "device_out s a" and "approve_pairing env h code s = (r, s')"
  shows "device_out s' a"
proof (cases "r = Ok True")
  case False
  with approve_pairing_other [OF assms(2)] obtain fs where "s' = s\<lparr>pg_faults := fs\<rparr>" by blast
  with assms(1) show ?thesis by (simp add: device_out_def open_request_def)
next
  case True
  with assms(2) have ok: "approve_pairing env h code s = (Ok True, s')" by simp
  from ok obtain q fs where q: "q \<in> set (pg_pairings s)" "pr_approved q = None" "pg_now s < pr_expires q"
    and sf: "pg_surfaces s' = (pg_surfaces s)(pr_app q \<mapsto> \<lparr>sr_house = h, sr_user = pr_user q, sr_enabled = True\<rparr>)"
    and s': "s' = s\<lparr>pg_faults := fs, pg_surfaces := pg_surfaces s',
      pg_pairings := map (set_approved (pr_id q) h (pg_now s)) (pg_pairings s)\<rparr>"
    by (rule approve_pairing_True) blast
  have "pg_pairings s' = map (set_approved (pr_id q) h (pg_now s)) (pg_pairings s)" "pg_now s' = pg_now s"
    by (subst s', simp)+
  moreover have "pr_app q \<noteq> a" using q assms(1) by (auto simp: device_out_def open_request_def)
  moreover have "pr_expires (set_approved i h t p) = pr_expires p" for i t p by (simp add: set_approved_def)
  ultimately show ?thesis
    using assms(1) sf by (auto simp: device_out_def open_request_def split: if_splits)
qed

lemma admin_device_out:
  assumes "device_out s a"
  shows "device_out (snd (execute_command env key command s)) a"
proof (cases command)
  case (ApprovePairing h code)
  show ?thesis
  proof (cases key)
    case None
    with ApprovePairing assms show ?thesis by simp
  next
    case (Some k)
    show ?thesis
    proof (cases "from_hex (env_crypto env) k")
      case (Inl x)
      with ApprovePairing Some assms show ?thesis by simp
    next
      case (Inr c)
      obtain r s' where r: "approve_pairing (env\<lparr>env_cipher := c\<rparr>) h code s = (r, s')" by fastforce
      from approve_device_out [OF assms r] r ApprovePairing Some Inr show ?thesis
        by (cases r) (simp_all add: as_database_def)
    qed
  qed
next
  case (DisableSurface b)
  show ?thesis
    unfolding DisableSurface execute_command.simps as_database_snd disable_surface_def
    by (rule with_db_rule)
       (use assms in \<open>auto simp: device_out_def open_request_def split: option.splits\<close>)
next
  case (CreateHouse name connector)
  show ?thesis
    unfolding CreateHouse execute_command.simps as_database_snd create_house_def
    by (rule with_db_rule) (use assms in \<open>auto intro: device_out_frame [OF _ _ _ assms]\<close>)
next
  case (AddMember h u role)
  show ?thesis
    unfolding AddMember execute_command.simps as_database_snd add_member_def
    by (rule with_db_rule) (use assms in \<open>auto intro: device_out_frame [OF _ _ _ assms]\<close>)
next
  case (DisableMember h u)
  show ?thesis
    unfolding DisableMember execute_command.simps as_database_snd disable_member_def
    by (rule with_db_rule) (use assms in \<open>auto intro: device_out_frame [OF _ _ _ assms]\<close>)
qed

lemma other_device_out:
  assumes "pg_other env s s'" and "device_out s a"
  shows "device_out s' a"
  using assms(1)
proof cases
  case (admin key command)
  with admin_device_out [OF assms(2)] show ?thesis by simp
qed (use assms(2) in \<open>auto intro: device_out_frame\<close>)

subsection \<open>Every interleaving\<close>

lemma barred_upd:
  assumes "barred a old e" and "device_out s a"
    and "si_application_id (hi_identity i) = a \<Longrightarrow> \<not> offers ph \<and> (r \<notin> old \<longrightarrow> outside ph)"
  shows "barred a old (set_phase r i ph (e\<lparr>en_store := s\<rparr>))"
  using assms by (auto simp: barred_def set_phase_def)

lemma barred_request:
  "barred a old e \<Longrightarrow> en_requests e r = Some (i, ph) \<Longrightarrow> si_application_id (hi_identity i) = a \<Longrightarrow>
   \<not> offers ph \<and> (r \<notin> old \<longrightarrow> outside ph)"
  by (auto simp: barred_def)

lemma barred_frame:
  "en_requests e' = en_requests e \<Longrightarrow> device_out (en_store e') a \<Longrightarrow> barred a old e \<Longrightarrow> barred a old e'"
  by (simp add: barred_def)

lemma pg_ops_device_out:
  assumes "device_out s a"
  shows "device_out (snd (pg_save_thread_id h t s)) a" "device_out (snd (pg_mark_thinking h b s)) a"
    "device_out (snd (pg_save_ready env h b t s)) a" "device_out (snd (pg_clear_pending h b s)) a"
proof -
  have out: "device_out s' a" if "pg_pairings s' = pg_pairings s \<and> pg_now s' = pg_now s" "pg_surfaces s' = pg_surfaces s" for s'
    using that device_out_frame [OF _ _ _ assms, of s'] by simp
  show "device_out (snd (pg_save_thread_id h t s)) a"
    by (rule out) (rule pg_ops_pairings(1) pg_ops_surfaces(2), rule surjective_pairing)+
  show "device_out (snd (pg_mark_thinking h b s)) a"
    by (rule out) (rule pg_ops_pairings(3) pg_ops_surfaces(4), rule surjective_pairing)+
  show "device_out (snd (pg_save_ready env h b t s)) a"
    by (rule out) (rule pg_ops_pairings(4) pg_ops_surfaces(5), rule surjective_pairing)+
  show "device_out (snd (pg_clear_pending h b s)) a"
    by (rule out) (rule pg_ops_pairings(5) pg_ops_surfaces(6), rule surjective_pairing)+
qed

lemma barred_step:
  assumes "bridge_step env uc cfg e e'" and b: "barred a old e"
  shows "barred a old e'"
  using assms(1)
proof (cases rule: engine_step.cases)
  case (store_call r i p ph s')
  have out: "device_out (en_store e) a" using b by (simp add: barred_def)
  have "device_out s' a" and "si_application_id (hi_identity i) = a \<Longrightarrow> \<not> offers ph \<and> (r \<notin> old \<longrightarrow> outside ph)"
  proof -
    have mine: "\<not> offers (At p) \<and> (r \<notin> old \<longrightarrow> outside (At p))" if "si_application_id (hi_identity i) = a"
      using barred_request [OF b store_call(2) that] .
    have "\<not> open_request s' a"
      using respond_step_requests [OF store_call(3), of a] mine out by (auto simp: device_out_def)
    with respond_step_surfaces [OF store_call(3)] out show "device_out s' a" by (simp add: device_out_def)
    assume a: "si_application_id (hi_identity i) = a"
    from out obtain sr where sr: "pg_surfaces (en_store e) (si_application_id (hi_identity i)) = Some sr" "\<not> sr_enabled sr"
      unfolding device_out_def a by blast
    have stay: "outside (At p) \<Longrightarrow> outside ph" by (rule respond_step_outside [OF store_call(3) sr])
    with mine [OF a] respond_step_offers [OF store_call(3)] outside_offers
    show "\<not> offers ph \<and> (r \<notin> old \<longrightarrow> outside ph)" by blast
  qed
  with b store_call show ?thesis by (simp add: barred_upd)
next
  case (environment s')
  with b other_device_out show ?thesis by (auto simp: barred_def)
next
  case (saved j job t)
  have "device_out (snd (pg_save_thread_id (hc_id (jb_house job)) t (en_store e))) a"
    using b pg_ops_device_out(1) by (simp add: barred_def)
  with saved b show ?thesis
    by (auto simp: job_save_def job_turn_def finish_job_def set_job_def call_runtime_def barred_def split: prod.splits sum.splits)
next
  case (late j h c job res)
  have "device_out (snd (pg_save_ready env h c t (en_store e))) a" "device_out (snd (pg_clear_pending h c (en_store e))) a" for t
    using b pg_ops_device_out(3,4) by (simp_all add: barred_def)
  with late b show ?thesis by (cases res) (simp_all add: watcher_step_def barred_def)
next
  case (marked r i house j job)
  have "device_out (snd (pg_mark_thinking (hc_id house) (si_application_id (hi_identity i)) (en_store e))) a"
    using b pg_ops_device_out(2) by (simp add: barred_def)
  moreover have "si_application_id (hi_identity i) = a \<Longrightarrow> r \<in> old"
    using barred_request [OF b marked(2)] by auto
  ultimately show ?thesis using marked b
    by (auto simp: mark_step_def Let_def set_phase_def barred_def split: prod.splits sum.splits)
next
  case (enter r i house j)
  have "si_application_id (hi_identity i) = a \<Longrightarrow> r \<in> old"
    using barred_request [OF b enter(2)] by auto
  with enter b show ?thesis by (auto simp: enter_step_def set_phase_def barred_def)
next
  case (finished_in_time r i house j job res)
  have "si_application_id (hi_identity i) = a \<Longrightarrow> r \<in> old"
    using barred_request [OF b finished_in_time(2)] by auto
  with finished_in_time b show ?thesis by (cases res) (auto simp: set_phase_def barred_def)
next
  case (deadline r i house j)
  have "si_application_id (hi_identity i) = a \<Longrightarrow> r \<in> old"
    using barred_request [OF b deadline(2)] by auto
  with deadline b show ?thesis by (auto simp: set_phase_def barred_def)
qed (use b in \<open>auto simp: barred_def step_defs split: option.splits\<close>)

lemma barred_steps: "(bridge_step env uc cfg)\<^sup>*\<^sup>* e e' \<Longrightarrow> barred a old e \<Longrightarrow> barred a old e'"
  by (induction rule: rtranclp_induct) (auto intro: barred_step)

text \<open>
  C6. Revocation holds. Once the administrator has disabled the binding of a device, while no pairing
  code is open for it and none of its requests is on the way to a new one, the binding stays disabled, whatever
  is approved, added or asked afterwards, and every later request of the device, for any account, is refused (or
  fails with the database): it is never in a house and is never told a code.
\<close>

theorem disabled_device_stays_out:
  assumes "pg_surfaces (en_store e) a = Some sr" and "\<not> sr_enabled sr" and "\<not> open_request (en_store e) a"
    and "\<And>r i ph. en_requests e r = Some (i, ph) \<Longrightarrow> si_application_id (hi_identity i) = a \<Longrightarrow> \<not> offers ph"
    and "(bridge_step env uc cfg)\<^sup>*\<^sup>* e e'"
  shows "(\<exists>sr'. pg_surfaces (en_store e') a = Some sr' \<and> \<not> sr_enabled sr') \<and>
         (\<forall>r i ph. en_requests e r = None \<and> en_requests e' r = Some (i, ph) \<and> si_application_id (hi_identity i) = a \<longrightarrow>
            ph \<in> {At (Resolve FindBinding), At (Resolve FindApplication), Done Refuse, Done InternalError})"
proof -
  have "barred a (dom (en_requests e)) e"
    unfolding barred_def
  proof (intro conjI allI impI)
    show "device_out (en_store e) a" using assms(1-3) by (simp add: device_out_def)
    fix r i ph
    assume r: "en_requests e r = Some (i, ph)" and "si_application_id (hi_identity i) = a"
    then show "\<not> offers ph" by (rule assms(4))
    assume "r \<notin> dom (en_requests e)"
    with r show "outside ph" by (simp add: domIff)
  qed
  from barred_steps [OF assms(5) this] have b: "barred a (dom (en_requests e)) e'" .
  have "outside ph \<Longrightarrow> ph \<in> {At (Resolve FindBinding), At (Resolve FindApplication), Done Refuse, Done InternalError}" for ph
    by (cases ph rule: outside.cases) simp_all
  moreover from b have "\<exists>sr'. pg_surfaces (en_store e') a = Some sr' \<and> \<not> sr_enabled sr'"
    by (simp add: barred_def device_out_def)
  moreover have "outside ph" if "en_requests e r = None" "en_requests e' r = Some (i, ph)" "si_application_id (hi_identity i) = a" for r i ph
    using barred_request [OF b that(2,3)] that(1) by (simp add: domIff)
  ultimately show ?thesis by blast
qed

theorem disabled_device_stays_out_witness:
  "bridge_step demo_env basic_unicode demo_cfg run7 (set_phase 5 demo_input (At (Resolve FindBinding)) run7) \<and>
   (\<exists>sr. pg_surfaces (en_store (set_phase 5 demo_input (At (Resolve FindBinding)) run7)) (asc ''a1'') = Some sr \<and> \<not> sr_enabled sr)"
proof -
  let ?e = "set_phase 5 demo_input (At (Resolve FindBinding)) run7"
  have step: "bridge_step demo_env basic_unicode demo_cfg run7 ?e"
    by (rule arrive) (simp add: run7_def run3_def engine_defs run2_def run1_def demo_save)
  have "\<not> open_request (en_store run7) (asc ''a1'')"
    by (simp add: open_request_def run7_def run3_facts as_database_def disable_surface_def with_db_def
        demo_bound_t1_def demo_bound_def demo_state_def)
  moreover have "en_requests run7 r = Some (i, ph) \<Longrightarrow> \<not> offers ph" for r i ph
    by (auto simp: run7_def run3_def engine_defs run2_def run1_def demo_save split: if_splits)
  ultimately show ?thesis
    using disabled_device_stays_out [OF run7_surface _ _ _ r_into_rtranclp [where r = "bridge_step demo_env basic_unicode demo_cfg", OF step]] step by simp
qed

subsection \<open>A race with the administrator\<close>

text \<open>
  C39. The condition of the last property is needed. A request that has found its device unbound and is about to read
  the memberships of the account, while the device is approved and then disabled again, still offers a
  code; when the administrator approves that code, the device is enabled again.
\<close>

theorem disabled_device_can_return:
  assumes inv: "pg_inv (en_store e)" and f: "pg_faults (en_store e) = []"
    and r: "en_requests e r = Some (i, At (Resolve FindMemberships))"
    and u: "u = si_user_id (hi_identity i)" and a: "a = si_application_id (hi_identity i)"
    and b: "pg_surfaces (en_store e) a = Some \<lparr>sr_house = h, sr_user = u, sr_enabled = False\<rparr>"
    and m: "membership_exists (en_store e) h u"
    and k: "from_hex (env_crypto env) key = Ok (env_cipher env)"
    and code: "code = pad6 (env_code env (pg_draws (en_store e)) mod 1000000)"
    and others: "\<And>p. p \<in> set (pg_pairings (en_store e)) \<Longrightarrow> pr_app p \<noteq> a \<Longrightarrow> pr_approved p = None \<Longrightarrow>
        pg_now (en_store e) < pr_expires p \<Longrightarrow>
        \<not> pairing_code_matches (env_crypto env) (env_cipher env) (pr_hash p) (pr_user p) (pr_app p) code"
  shows "\<exists>e'. (bridge_step env uc cfg)\<^sup>*\<^sup>* e e' \<and> en_requests e' r = Some (i, Done (Pairing code)) \<and>
           pg_surfaces (en_store e') a = Some \<lparr>sr_house = h, sr_user = u, sr_enabled = True\<rparr>"
proof -
  let ?s = "en_store e"
  define hid where "hid = (if length (pg_memberships u ?s) = 1 then Some (hd (pg_memberships u ?s)) else None)"
  let ?e1 = "set_phase r i (At (Resolve (InsertRequest hid))) e"
  have hid: "hid \<in> {Some h, None}" and ms: "pg_memberships u ?s \<noteq> []"
    using membership_single [OF m] by (simp_all add: hid_def)
  have s: "e\<lparr>en_store := ?s\<rparr> = e" by simp
  have step1: "bridge_step env uc cfg e ?e1"
    using store_call [OF r, of uc cfg "pg_household_store env" "At (Resolve (InsertRequest hid))" ?s "pg_other env"] ms
    by (simp add: with_db_def f Let_def hid_def u s)
  obtain s1 where create: "create_pairing_request env hid u a ?s = (Ok code, s1)"
    by (simp add: create_pairing_request_def code Let_def)
  have now: "pg_now s1 = pg_now ?s" using create by (auto simp: create_pairing_request_def Let_def next_draw_def)
  let ?e2 = "set_phase r i (Done (Pairing code)) (?e1\<lparr>en_store := s1\<rparr>)"
  have r1: "en_requests ?e1 r = Some (i, At (Resolve (InsertRequest hid)))" "en_store ?e1 = ?s"
    by (simp_all add: set_phase_def)
  have step2: "bridge_step env uc cfg ?e1 ?e2"
    by (rule store_call [OF r1(1)]) (use create in \<open>simp add: r1(2) with_db_def f u a\<close>)
  have bound: "pg_surfaces ?s a = None \<or> (\<exists>b. pg_surfaces ?s a = Some \<lparr>sr_house = h, sr_user = u, sr_enabled = b\<rparr>)"
    using b by blast
  have soon: "pg_now ?s < pg_now ?s + PAIRING_TTL_SECONDS" by (simp add: PAIRING_TTL_SECONDS_def)
  obtain s2 where s2: "approve_pairing env h code (s1\<lparr>pg_now := pg_now ?s\<rparr>) = (Ok True, s2)"
    "pg_surfaces s2 = (pg_surfaces ?s)(a \<mapsto> \<lparr>sr_house = h, sr_user = u, sr_enabled = True\<rparr>)"
    by (rule approve_created [OF inv f create hid soon m bound others]) blast
  have "s1\<lparr>pg_now := pg_now ?s\<rparr> = s1" by (simp add: now [symmetric])
  then have "pg_other env s1 s2"
    using pg_other.admin [of env s1 "Some key" "ApprovePairing h code"] s2(1) k by (simp add: as_database_def)
  then have step3: "bridge_step env uc cfg ?e2 (?e2\<lparr>en_store := s2\<rparr>)"
    by (intro environment) (simp add: set_phase_def)
  have "(bridge_step env uc cfg)\<^sup>*\<^sup>* e (?e2\<lparr>en_store := s2\<rparr>)"
    using step1 step2 step3 by (meson converse_rtranclp_into_rtranclp rtranclp.rtrancl_refl)
  moreover have "en_requests (?e2\<lparr>en_store := s2\<rparr>) r = Some (i, Done (Pairing code))" by (simp add: set_phase_def)
  ultimately show ?thesis using s2(2) by (intro exI [of _ "?e2\<lparr>en_store := s2\<rparr>"]) simp
qed

text \<open>The race on a concrete database with one member, whose device has the open code 42.\<close>

definition race_env :: pg_env where
  "race_env = demo_env\<lparr>env_cipher := \<lparr>sc_key = replicate 64 97, sc_key_version = 1\<rparr>\<rparr>"

definition race_start :: pg_state where
  "race_start = demo_state\<lparr>pg_pairings := [demo_request\<lparr>pr_hash :=
     pairing_code_hash (env_crypto race_env) (env_cipher race_env) (asc ''u1'') (asc ''a1'') (asc ''000042'')\<rparr>]\<rparr>"

definition race_approved :: pg_state where
  "race_approved = snd (execute_command race_env (Some (replicate 64 97)) (ApprovePairing 1 (asc ''000042'')) race_start)"

definition race_disabled :: pg_state where
  "race_disabled = snd (execute_command race_env None (DisableSurface (asc ''a1'')) race_approved)"

lemma race_key: "from_hex (env_crypto race_env) (replicate 64 97) = Ok (env_cipher race_env)"
proof -
  have "str_len (replicate 64 97) = 64" by code_simp
  then show ?thesis
    by (simp add: race_env_def demo_env_def from_hex_def demo_crypto_def KEY_BYTES_def CURRENT_KEY_VERSION_def)
qed

lemma race_approval:
  "race_approved = race_start\<lparr>pg_surfaces := [asc ''a1'' \<mapsto> \<lparr>sr_house = 1, sr_user = asc ''u1'', sr_enabled = True\<rparr>],
     pg_pairings := map (set_approved 0 1 1000) (pg_pairings race_start)\<rparr>"
proof -
  have "list_all is_ascii_digit (asc ''000042'')" "str_len (asc ''000042'') = 6"
    by (simp_all add: asc_def is_ascii_digit_def len_utf8_def)
  moreover have "race_env\<lparr>env_cipher := env_cipher race_env\<rparr> = race_env" by simp
  moreover have "membership_exists race_start 1 (asc ''u1'')"
    by (simp add: membership_exists_def house_enabled_def race_start_def demo_state_def)
  ultimately have "approve_pairing race_env 1 (asc ''000042'') race_start = (Ok True, race_start\<lparr>
      pg_surfaces := [asc ''a1'' \<mapsto> \<lparr>sr_house = 1, sr_user = asc ''u1'', sr_enabled = True\<rparr>],
      pg_pairings := map (set_approved 0 1 1000) (pg_pairings race_start)\<rparr>)"
    by (simp add: approve_pairing_def with_db_def race_start_def demo_state_def Let_def demo_request_def
        pairing_code_matches_def pairing_code_hash_def)
  then show ?thesis by (simp add: race_approved_def race_key as_database_def)
qed

lemma race_disabled_eq:
  "race_disabled = race_approved\<lparr>pg_surfaces := [asc ''a1'' \<mapsto> \<lparr>sr_house = 1, sr_user = asc ''u1'', sr_enabled = False\<rparr>]\<rparr>"
  by (simp add: race_disabled_def as_database_def disable_surface_def with_db_def race_approval race_start_def demo_state_def)

definition race_engine :: "pg_state engine" where
  "race_engine = set_phase 0 demo_input (At (Resolve FindMemberships)) (engine_new race_disabled)"

abbreviation race_reachable :: "pg_state engine \<Rightarrow> bool" where
  "race_reachable \<equiv> bridge_reachable race_env basic_unicode demo_cfg race_start"

lemma race_engine_reachable: "race_reachable race_engine"
proof -
  let ?e = "\<lambda>p. set_phase 0 demo_input (At (Resolve p)) (engine_new race_start)"
  let ?m = "?e FindMemberships"
  have s: "en_store (?e p) = race_start" "?e p\<lparr>en_store := race_start\<rparr> = ?e p" "en_requests (?e p) 0 = Some (demo_input, At (Resolve p))"
    "set_phase 0 demo_input ph (?e p) = set_phase 0 demo_input ph (engine_new race_start)" for p ph
    by (simp_all add: set_phase_def engine_new_def)
  have "race_reachable (?e FindBinding)"
    by (rule engine_reachable.step [OF engine_reachable.start arrive]) (simp add: engine_new_def)
  moreover have call: "pg_resolve_step race_env (hi_identity demo_input) FindBinding race_start = (Ok (Next FindApplication), race_start)"
    "pg_resolve_step race_env (hi_identity demo_input) FindApplication race_start = (Ok (Next FindMemberships), race_start)"
    by (simp_all add: with_db_def race_start_def demo_state_def pg_bound_def)
  ultimately have "race_reachable (?e FindApplication)"
    using engine_reachable.step [OF _ store_call, of basic_unicode demo_cfg "pg_household_store race_env" "pg_other race_env" race_start
        "?e FindBinding" 0 demo_input "Resolve FindBinding" "At (Resolve FindApplication)" race_start] by (simp add: s)
  then have "race_reachable ?m"
    using engine_reachable.step [OF _ store_call, of basic_unicode demo_cfg "pg_household_store race_env" "pg_other race_env" race_start
        "?e FindApplication" 0 demo_input "Resolve FindApplication" "At (Resolve FindMemberships)" race_start] call by (simp add: s)
  then have approved: "race_reachable (?m\<lparr>en_store := race_approved\<rparr>)"
    by (rule engine_reachable.step [OF _ environment]) (simp only: s(1) race_approved_def, rule pg_other.admin)
  have "pg_other race_env race_approved race_disabled" unfolding race_disabled_def by (rule pg_other.admin)
  then have "race_reachable (?m\<lparr>en_store := race_approved, en_store := race_disabled\<rparr>)"
    by (intro engine_reachable.step [OF approved environment]) (simp add: set_phase_def engine_new_def)
  moreover have "?m\<lparr>en_store := race_approved, en_store := race_disabled\<rparr> = race_engine"
    by (simp add: race_engine_def set_phase_def engine_new_def)
  ultimately show ?thesis by simp
qed

theorem disabled_device_can_return_witness:
  "race_reachable race_engine \<and> \<not> open_request (en_store race_engine) (asc ''a1'') \<and>
   (\<exists>e'. (bridge_step race_env basic_unicode demo_cfg)\<^sup>*\<^sup>* race_engine e' \<and>
      en_requests e' 0 = Some (demo_input, Done (Pairing (pad6 42))) \<and>
      pg_surfaces (en_store e') (asc ''a1'') = Some \<lparr>sr_house = 1, sr_user = asc ''u1'', sr_enabled = True\<rparr>)"
proof -
  have store: "en_store race_engine = race_disabled" by (simp add: race_engine_def set_phase_def engine_new_def)
  have f: "pg_pairings race_disabled = map (set_approved 0 1 1000) (pg_pairings race_start)" "pg_faults race_disabled = []"
    "pg_draws race_disabled = 0" "pg_houses race_disabled = pg_houses demo_state" "pg_members race_disabled = pg_members demo_state"
    by (simp_all add: race_disabled_eq race_approval race_start_def demo_state_def)
  have inv: "pg_inv race_disabled"
    by (simp add: pg_inv_def race_disabled_eq race_approval race_start_def demo_state_def demo_request_def set_approved_def)
  have "\<not> open_request race_disabled (asc ''a1'')"
    by (simp add: open_request_def f race_start_def demo_request_def set_approved_def)
  moreover have "\<exists>e'. (bridge_step race_env basic_unicode demo_cfg)\<^sup>*\<^sup>* race_engine e' \<and>
      en_requests e' 0 = Some (demo_input, Done (Pairing (pad6 42))) \<and>
      pg_surfaces (en_store e') (asc ''a1'') = Some \<lparr>sr_house = 1, sr_user = asc ''u1'', sr_enabled = True\<rparr>"
  proof (rule disabled_device_can_return)
    show "en_requests race_engine 0 = Some (demo_input, At (Resolve FindMemberships))" by (simp add: race_engine_def set_phase_def)
    show "asc ''u1'' = si_user_id (hi_identity demo_input)" "asc ''a1'' = si_application_id (hi_identity demo_input)"
      by (simp_all add: demo_input_def)
    show "from_hex (env_crypto race_env) (replicate 64 97) = Ok (env_cipher race_env)" by (rule race_key)
    show "membership_exists (en_store race_engine) 1 (asc ''u1'')"
      using demo_membership by (simp add: store membership_exists_def house_enabled_def f)
    show "pad6 42 = pad6 (env_code race_env (pg_draws (en_store race_engine)) mod 1000000)"
      by (simp add: store f race_env_def demo_env_def)
    show "pg_surfaces (en_store race_engine) (asc ''a1'') = Some \<lparr>sr_house = 1, sr_user = asc ''u1'', sr_enabled = False\<rparr>"
      by (simp add: store race_disabled_eq)
  qed (use inv f in \<open>auto simp: store race_start_def demo_request_def set_approved_def\<close>)
  ultimately show ?thesis using race_engine_reachable by (simp add: store)
qed

end
