(* ===== verification/Own_Words.thy ===== *)
theory Own_Words
  imports Household_System
begin

section \<open>Whose words a device hears\<close>

text \<open>
  Everything the household engine says beyond its own fixed phrases is a stretch of an answer that the runtime gave
  to a task of the same device, for a house to which the account that asks was admitted on it: nothing crosses from
  one house, or one device, to another, through the stored answers and their rests or otherwise.
\<close>

definition fixed_words :: "rstr list" where
  "fixed_words = [STILL_THINKING, cyr ''Zdrawstwujte. ^em pomo~x?'', cyr ''Horo{o.'', cyr ''Skavite, prodolvatx?'']"

text \<open>\<open>w\<close> ends an answer that a task of the device and house \<open>k\<close> got.\<close>

definition rest_of :: "(nat \<rightharpoonup> job) \<Rightarrow> i64 \<times> rstr \<Rightarrow> rstr \<Rightarrow> bool" where
  "rest_of jobs k w \<longleftrightarrow> (\<exists>j job u. jobs j = Some job \<and> (hc_id (jb_house job), jb_app job) = k \<and>
     jb_phase job = JFinished (WorkOk (u @ w)))"

definition key_of :: "household_input \<Rightarrow> house_context \<Rightarrow> i64 \<times> rstr" where
  "key_of i h = (hc_id h, si_application_id (hi_identity i))"

text \<open>A reply to \<open>i\<close>: a fixed phrase, or the beginning of such a rest, perhaps with the question to go on.\<close>

definition own_reply :: "(house_context \<Rightarrow> bool) \<Rightarrow> (nat \<rightharpoonup> job) \<Rightarrow> household_input \<Rightarrow> household_reply \<Rightarrow> bool" where
  "own_reply P jobs i reply \<longleftrightarrow> (\<forall>p. reply = Say p \<longrightarrow> p \<in> set fixed_words \<or>
     (\<exists>h d r. P h \<and> rest_of jobs (key_of i h) (d @ r) \<and> (p = d \<or> p = d @ CONTINUATION_SUFFIX)))"

fun own_phase :: "(house_context \<Rightarrow> bool) \<Rightarrow> (nat \<rightharpoonup> job) \<Rightarrow> household_input \<Rightarrow> phase \<Rightarrow> bool" where
  "own_phase P J i (At (Answer h cs)) = rest_of J (key_of i h) (concat cs)"
| "own_phase P J i (At (Deliver h t)) = rest_of J (key_of i h) t"
| "own_phase P J i (At (Shape h t)) = rest_of J (key_of i h) t"
| "own_phase P J i (At (Clear h reply)) = own_reply P J i reply"
| "own_phase P J i (Done reply) = own_reply P J i reply"
| "own_phase P J i ph = True"

definition own_chunks :: "house_view \<Rightarrow> (nat \<rightharpoonup> job) \<Rightarrow> bool" where
  "own_chunks v J \<longleftrightarrow> (\<forall>k cs. v_chunks v k = Some cs \<longrightarrow> rest_of J k (concat cs))"

definition own_words :: "(nat \<Rightarrow> household_input \<Rightarrow> house_context \<Rightarrow> bool) \<Rightarrow> house_view \<Rightarrow> 's engine \<Rightarrow> bool" where
  "own_words P v e \<longleftrightarrow> own_chunks v (en_jobs e) \<and>
     (\<forall>r i ph. en_requests e r = Some (i, ph) \<longrightarrow> own_phase (P r i) (en_jobs e) i ph)"

subsection \<open>Along a run\<close>

lemma rest_of_mono: "jobs_le J J' \<Longrightarrow> rest_of J k w \<Longrightarrow> rest_of J' k w"
  unfolding rest_of_def jobs_le_def jb_app_def using not_unfinished by metis

lemma rest_of_suffix: "rest_of J k (u @ w) \<Longrightarrow> rest_of J k w"
  unfolding rest_of_def by (metis append_assoc)

lemma own_reply_mono: "jobs_le J J' \<Longrightarrow> own_reply P J i reply \<Longrightarrow> own_reply P J' i reply"
  unfolding own_reply_def using rest_of_mono by metis

lemma own_phase_mono: "jobs_le J J' \<Longrightarrow> own_phase P J i ph \<Longrightarrow> own_phase P J' i ph"
  by (induction P J i ph rule: own_phase.induct) (auto intro: rest_of_mono own_reply_mono)

lemma own_reply_weaken: "own_reply P J i reply \<Longrightarrow> (\<And>h. P h \<Longrightarrow> Q h) \<Longrightarrow> own_reply Q J i reply"
  unfolding own_reply_def by metis

lemma own_phase_weaken:
  assumes "own_phase P J i ph" and le: "\<And>h. P h \<Longrightarrow> Q h"
  shows "own_phase Q J i ph"
proof -
  have "own_reply P J i reply \<Longrightarrow> own_reply Q J i reply" for reply by (erule own_reply_weaken) (rule le)
  with assms(1) show ?thesis by (cases "(P, J, i, ph)" rule: own_phase.cases) simp_all
qed

lemma own_words_weaken: "own_words P v e \<Longrightarrow> (\<And>r i h. P r i h \<Longrightarrow> Q r i h) \<Longrightarrow> own_words Q v e"
  unfolding own_words_def using own_phase_weaken by metis

lemma own_chunks_mono: "jobs_le J J' \<Longrightarrow> own_chunks v J \<Longrightarrow> own_chunks v J'"
  unfolding own_chunks_def using rest_of_mono by blast

lemma own_chunks_frame:
  "own_chunks v J \<Longrightarrow> (\<And>k. v_chunks v' k = v_chunks v k \<or> v_chunks v' k = None) \<Longrightarrow> own_chunks v' J"
  unfolding own_chunks_def by (metis option.distinct(1))

lemma own_chunks_set: "own_chunks v J \<Longrightarrow> ds \<noteq> [] \<longrightarrow> rest_of J k (concat ds) \<Longrightarrow> own_chunks (view_set_chunks k ds v) J"
  by (auto simp: own_chunks_def split: if_splits)

lemma own_fixed: "p \<in> set fixed_words \<Longrightarrow> own_reply P J i (Say p)"
  by (simp add: own_reply_def)

lemma own_other: "(\<forall>p. reply \<noteq> Say p) \<Longrightarrow> own_reply P J i reply"
  by (simp add: own_reply_def)

lemma own_fixed_words [simp]:
  "own_reply P J i (Say STILL_THINKING)" "own_reply P J i (Say (cyr ''Zdrawstwujte. ^em pomo~x?''))"
  "own_reply P J i (Say (cyr ''Horo{o.''))" "own_reply P J i (Say (cyr ''Skavite, prodolvatx?''))"
  "own_reply P J i InternalError" "own_reply P J i Refuse" "own_reply P J i Busy" "own_reply P J i (Pairing c)"
  by (simp_all add: own_fixed own_other fixed_words_def)

context engine_laws
begin

lemma shape_own:
  assumes "invar s" "wf_str str" "limit > 12" "own_chunks (view s) J"
    and "rest_of J (key_of i h) str" "P h"
    and "or_panic (shape_and_save limit S (hc_id h) (si_application_id (hi_identity i)) str s) k s = (ph, s')"
  shows "\<exists>reply. ph = k reply \<and> own_reply P J i reply \<and> own_chunks (view s') J"
proof -
  let ?k = "(hc_id h, si_application_id (hi_identity i))"
  obtain d ds reply s2 where x: "shape_and_save limit S (hc_id h) (si_application_id (hi_identity i)) str s = Some (reply, s2)"
    and d: "d @ concat ds = str"
    and c: "reply = InternalError \<and> view s2 = view s \<or>
         reply = Say (d @ (if ds = [] then [] else CONTINUATION_SUFFIX)) \<and> view s2 = view_set_chunks ?k ds (view s)"
    using shape_and_save_cases [OF assms(1-3)] by metis
  have r: "rest_of J (key_of i h) (d @ concat ds)" using assms(5) d by simp
  then have "own_reply P J i (Say (d @ (if ds = [] then [] else CONTINUATION_SUFFIX)))"
    using assms(6) unfolding own_reply_def by auto
  moreover have "own_chunks (view_set_chunks ?k ds (view s)) J"
    using own_chunks_set [OF assms(4), of ds ?k] rest_of_suffix [OF r] by (simp add: key_of_def)
  ultimately have "own_reply P J i reply \<and> own_chunks (view s2) J" using c assms(4) by auto
  with x assms(7) show ?thesis by (auto simp: or_panic_def)
qed

lemma respond_own:
  assumes inv: "invar s" and p: "point_ok (view s) p" and limit: "limit > 12" and store: "store_ok (view s) J"
    and own: "own_chunks (view s) J" "own_phase P J i (At p)"
    and adm: "\<And>h. phase_house (At p) = Some h \<Longrightarrow> P h"
    and run: "respond_step uc limit S i p s = (ph, s')"
  shows "own_phase P J i ph \<and> own_chunks (view s') J"
proof (cases p)
  case (Resolve pt)
  obtain r s2 where r: "resolve_step S (hi_identity i) pt s = (r, s2)" by fastforce
  have "view s2 = view s" using resolve_effect [OF inv r] by (simp add: effect_def split: sum.splits)
  with run Resolve r own(1) show ?thesis
    by (auto split: sum.splits resolve_progress.splits surface_resolution.splits)
next
  case (Take house)
  obtain r s2 where r: "take_continuation S (hc_id house) (si_application_id (hi_identity i)) s = (r, s2)" by fastforce
  note eff = take_effect [OF inv r]
  have "own_chunks (view s2) J"
    by (rule own_chunks_frame [OF own(1)]) (use eff in \<open>auto split: sum.splits if_splits\<close>)
  moreover have "rest_of J (key_of i house) (concat cs)" if "r = Ok (Some cs)" for cs
    using eff own(1) that by (auto simp: own_chunks_def key_of_def)
  ultimately show ?thesis using run Take r by (auto split: sum.splits option.splits)
next
  case (Answer house chunks)
  let ?a = "si_application_id (hi_identity i)"
  have wf: "wf_str (concat chunks)" "list_all wf_str chunks" using p Answer by (simp_all add: wf_str_concat)
  have rest: "rest_of J (key_of i house) (concat chunks)" using own(2) Answer by simp
  have house: "P house" using adm Answer by simp
  show ?thesis
  proof (cases "from_utterance uc (hi_utterance i)")
    case Continue
    then have "or_panic (shape_and_save limit S (hc_id house) ?a (concat chunks) s) Done s = (ph, s')"
      using run Answer by (simp add: answer_continuation_def)
    from shape_own [where P = P, OF inv wf(1) limit own(1) rest house this] show ?thesis by auto
  next
    case Stop
    with run Answer own(1) show ?thesis by (auto simp: answer_continuation_def or_panic_def)
  next
    case Empty
    obtain r s2 where r: "save_continuation S (hc_id house) ?a chunks s = (r, s2)" by fastforce
    have "effect invar view (view_set_chunks (hc_id house, ?a) chunks) r s s2"
      by (rule save_continuation_effect [OF inv storable_chunks [OF wf(2)] r])
    moreover have "own_chunks (view_set_chunks (hc_id house, ?a) chunks (view s)) J"
      by (rule own_chunks_set [OF own(1)]) (use rest in \<open>simp add: key_of_def\<close>)
    ultimately show ?thesis using run Answer Empty r own(1)
      by (auto simp: answer_continuation_def or_panic_def effect_def split: sum.splits)
  qed
next
  case (Poll house)
  obtain r s2 where r: "poll_pending S (hc_id house) (si_application_id (hi_identity i)) s = (r, s2)" by fastforce
  have "view s2 = view s" using poll_effect [OF inv r] by (simp add: effect_def split: sum.splits)
  moreover have "rest_of J (key_of i house) str" if "r = Ok (Ready str)" for str
  proof -
    have "v_pending (view s) (key_of i house) = Ready str" using poll_result [OF inv] r that by (simp add: key_of_def)
    then have "answered_by J (key_of i house) str" using store unfolding store_ok_def by blast
    then show ?thesis unfolding answered_by_def rest_of_def by (metis append_Nil)
  qed
  ultimately show ?thesis using run Poll r own(1) by (auto split: sum.splits pending_reply.splits)
next
  case (Deliver house str)
  then have "wf_str str" "rest_of J (key_of i house) str" "P house" using p own(2) adm by simp_all
  from shape_own [where P = P, OF inv this(1) limit own(1) this(2,3)] run Deliver show ?thesis by fastforce
next
  case (Clear house reply)
  obtain r s2 where r: "clear_pending S (hc_id house) (si_application_id (hi_identity i)) s = (r, s2)" by fastforce
  have "own_chunks (view s2) J"
    by (rule own_chunks_frame [OF own(1)]) (use clear_pending_effect [OF inv r] in \<open>auto simp: effect_def split: sum.splits\<close>)
  with run Clear r own(2) show ?thesis by (auto split: sum.splits)
next
  case (Shape house str)
  then have "wf_str str" "rest_of J (key_of i house) str" "P house" using p own(2) adm by simp_all
  from shape_own [where P = P, OF inv this(1) limit own(1) this(2,3)] run Shape show ?thesis by fastforce
qed

lemma own_words_step:
  assumes step: "engine_step uc cfg S E e e'" and inv: "invar (en_store e)" and ok: "engine_ok (view (en_store e)) e"
    and limit: "chunk_limit cfg > 12" and adm: "admitted P e" and own: "own_words P (view (en_store e)) e"
  shows "own_words P (view (en_store e')) e'"
proof -
  let ?v = "view (en_store e)" and ?v' = "view (en_store e')"
  have le: "jobs_le (en_jobs e) (en_jobs e')" by (rule jobs_le_step [OF step])
  have old: "own_phase (P r i) (en_jobs e') i ph" if "en_requests e r = Some (i, ph)" for r i ph
    using own_phase_mono [OF le] own that by (auto simp: own_words_def)
  have chunks: "own_chunks ?v (en_jobs e')" using own_chunks_mono [OF le] own by (simp add: own_words_def)
  have st: "store_ok ?v (en_jobs e)" using ok by (simp add: engine_ok_def)
  from step show ?thesis
  proof (cases rule: engine_step.cases)
    case (store_call r i p ph s')
    have "point_ok ?v p" using ok store_call(2) by (fastforce simp: engine_ok_def)
    moreover have "own_chunks ?v (en_jobs e)" "own_phase (P r i) (en_jobs e) i (At p)"
      using own store_call(2) by (auto simp: own_words_def)
    moreover have "P r i h" if "phase_house (At p) = Some h" for h
      using adm store_call(2) that by (auto simp: admitted_def)
    ultimately have "own_phase (P r i) (en_jobs e) i ph \<and> own_chunks (view s') (en_jobs e)"
      using respond_own [OF inv _ limit st _ _ _ store_call(3)] by blast
    with store_call(1) own show ?thesis by (auto simp: own_words_def set_phase_def)
  next
    case (finished_in_time r i house j job res)
    have w: "jb_input job = i \<and> jb_house job = house"
      using ok finished_in_time(2,3) by (fastforce simp: engine_ok_def waits_ok_def)
    have "rest_of (en_jobs e) (key_of i house) str" if "res = WorkOk str" for str
      using finished_in_time(3,4) w that unfolding rest_of_def key_of_def jb_app_def by (metis append_Nil)
    then have "own_phase (P r i) (en_jobs e) i (in_time house res)" by (cases res) simp_all
    with finished_in_time(1) own show ?thesis by (auto simp: own_words_def set_phase_def)
  next
    case (enter r i house j)
    with old chunks show ?thesis by (auto simp: own_words_def enter_step_def set_phase_def split: if_splits)
  next
    case (saved j job t)
    obtain res s' where r: "save_thread_id S (hc_id (jb_house job)) t (en_store e) = (res, s')" by fastforce
    have "v_chunks (view s') k = v_chunks ?v k" for k
      using save_thread_effect [OF inv r] by (auto simp: effect_def split: sum.splits)
    then have "own_chunks (view s') (en_jobs e')" by (intro own_chunks_frame [OF chunks]) simp
    with saved(1) r old show ?thesis
      by (cases res) (auto simp: own_words_def job_save_def job_turn_def set_job_def call_runtime_def finish_job_def)
  next
    case (marked r i house j job)
    let ?a = "si_application_id (hi_identity i)"
    obtain res s' where r: "mark_thinking S (hc_id house) ?a (en_store e) = (res, s')" by fastforce
    have "v_chunks (view s') k = v_chunks ?v k" for k
      using mark_thinking_effect [OF inv r] by (auto simp: effect_def split: sum.splits)
    then have "own_chunks (view s') (en_jobs e')" by (intro own_chunks_frame [OF chunks]) simp
    with marked(1) r old show ?thesis
      by (cases res) (auto simp: own_words_def mark_step_def set_phase_def Let_def)
  next
    case (late j h a job res)
    have "v_chunks ?v' k = v_chunks ?v k" for k
    proof (cases "\<exists>t. res = WorkOk t")
      case True
      then obtain t where t: "res = WorkOk t" by blast
      have wf: "wf_str t" using ok late(3,4) t by (fastforce simp: engine_ok_def job_ok_def)
      obtain rr s' where r: "save_ready S h a t (en_store e) = (rr, s')" by fastforce
      with late(1) t save_ready_effect [OF inv wf_storable [OF wf] r] show ?thesis
        by (auto simp: watcher_step_def effect_def split: sum.splits)
    next
      case False
      obtain rr s' where r: "clear_pending S h a (en_store e) = (rr, s')" by fastforce
      with late(1) False clear_pending_effect [OF inv r] show ?thesis
        by (cases res) (auto simp: watcher_step_def effect_def split: sum.splits)
    qed
    then have "own_chunks ?v' (en_jobs e')" by (intro own_chunks_frame [OF chunks]) simp
    with late(1) old show ?thesis by (auto simp: own_words_def watcher_step_def)
  next
    case (environment s')
    have "view_le ?v (view s')" using environment_ok [OF inv environment(2)] by simp
    then have "\<forall>k. v_chunks (view s') k = v_chunks ?v k \<or> v_chunks (view s') k = None"
      unfolding view_le_def by (elim conjE)
    then have "v_chunks (view s') k = v_chunks ?v k \<or> v_chunks (view s') k = None" for k by (rule spec)
    then have "own_chunks (view s') (en_jobs e')" by (rule own_chunks_frame [OF chunks])
    with environment(1) old show ?thesis by (auto simp: own_words_def)
  qed (use old chunks in \<open>auto simp: own_words_def set_phase_def set_job_def finish_job_def job_begin_def job_turn_def
         call_runtime_def split: option.splits\<close>)
qed

lemma run_own_words:
  assumes "engine_run uc cfg S E s0 (e # es)" and "invar s0" and "store_ok (view s0) Map.empty"
    and "own_chunks (view s0) Map.empty" and "chunk_limit cfg > 12"
  shows "own_words (admitted_in S (e # es)) (view (en_store e)) e"
  using assms(1)
proof (induction "e # es" arbitrary: e es rule: engine_run.induct)
  case run_start
  show ?case using assms(4) by (simp add: own_words_def engine_new_def)
next
  case (run_step e es e')
  have "engine_reachable uc cfg S E s0 e" using run_reachable [OF run_step(1)] by simp
  then have ok: "invar (en_store e)" "engine_ok (view (en_store e)) e"
    using reachable_ok assms(2,3,5) by blast+
  have le: "admitted_in S (e # es) r i h \<Longrightarrow> admitted_in S (e' # e # es) r i h" for r i h
    by (auto simp: admitted_in_def)
  have "admitted (admitted_in S (e' # e # es)) e" "own_words (admitted_in S (e' # e # es)) (view (en_store e)) e"
    using admitted_mono [OF run_admitted [OF run_step(1)]] own_words_weaken [OF run_step(2)] le by blast+
  then show ?case by (rule own_words_step [OF run_step(3) ok assms(5)])
qed

end

subsection \<open>The bridge\<close>

text \<open>
  C3. What a device hears is its own: whenever a request is answered with words that are none of the fixed phrases,
  they are a stretch of an answer that the runtime gave to a task which a request of the very same device had
  started, perhaps with the question to go on; and in a state of this very run, when the request that hears them was
  looking for its binding, its device was bound to the house of that task for its account, the binding enabled and the
  account an enabled member of the enabled house. No interleaving, late answer, stored rest, failing database or act of the
  administrator lets a device hear another device or another house.
\<close>

theorem device_hears_its_own:
  assumes "pg_env_laws env" and "quiet s0" and "reply_shaper_new (chunk_limit cfg) = Some shaper"
    and "bridge_run env uc cfg s0 (e # es)"
    and "en_requests e r = Some (input, Done (Say p))" and "p \<notin> set fixed_words"
  shows "\<exists>j job u d v e0 sr. en_jobs e j = Some job \<and> jb_phase job = JFinished (WorkOk (u @ d @ v)) \<and>
           (p = d \<or> p = d @ CONTINUATION_SUFFIX) \<and>
           si_application_id (hi_identity (jb_input job)) = si_application_id (hi_identity input) \<and>
           e0 \<in> set (e # es) \<and> en_requests e0 r = Some (input, At (Resolve FindBinding)) \<and>
           pg_surfaces (en_store e0) (si_application_id (hi_identity input)) = Some sr \<and> sr_enabled sr \<and>
           sr_user sr = si_user_id (hi_identity input) \<and> sr_house sr = hc_id (jb_house job) \<and>
           membership_exists (en_store e0) (sr_house sr) (sr_user sr)"
proof -
  let ?S = "pg_household_store env"
  from assms(3) have limit: "chunk_limit cfg > 12" by simp
  have "engine_laws ?S pg_inv (pg_view env) wf_str (pg_other env)"
    by (rule pg_env_laws.bridge_contract [OF assms(1)])
  moreover have "own_chunks (pg_view env s0) Map.empty"
    using assms(2) by (simp add: own_chunks_def quiet_def pg_view_def)
  ultimately have "own_words (admitted_in ?S (e # es)) (pg_view env (en_store e)) e"
    using engine_laws.run_own_words [OF _ assms(4)] quiet_start [OF assms(2)] limit by blast
  then have "own_phase (admitted_in ?S (e # es) r input) (en_jobs e) input (Done (Say p))"
    using assms(5) unfolding own_words_def by blast
  then have "p \<in> set fixed_words \<or> (\<exists>h d v. admitted_in ?S (e # es) r input h \<and>
      rest_of (en_jobs e) (key_of input h) (d @ v) \<and> (p = d \<or> p = d @ CONTINUATION_SUFFIX))"
    unfolding own_phase.simps own_reply_def by (elim allE) (erule mp, rule refl)
  with assms(6) obtain h d v where w: "admitted_in ?S (e # es) r input h"
      "rest_of (en_jobs e) (key_of input h) (d @ v)" "p = d \<or> p = d @ CONTINUATION_SUFFIX"
    by blast
  from w(2) obtain j job u where "en_jobs e j = Some job" "jb_phase job = JFinished (WorkOk (u @ d @ v))"
    "hc_id (jb_house job) = hc_id h" "si_application_id (hi_identity (jb_input job)) = si_application_id (hi_identity input)"
    unfolding rest_of_def key_of_def jb_app_def by blast
  with admitted_in_bridge [OF w(1)] w(3) show ?thesis by metis
qed

text \<open>A run in which the task of the demonstration ends in time.\<close>

definition told :: "pg_state engine" where
  "told = finish_job 0 (demo_job (JTurn (asc ''t1''))) (WorkOk (asc ''Yes.'')) run3"

lemma told_reachable: "demo_reachable told"
  unfolding told_def
  by (rule engine_reachable.step [OF run3_reachable answered]) (simp_all add: run3_facts asc_def wf_str_def is_scalar_def)

lemma told_shaped:
  "\<exists>s. shape_and_save 20 (pg_household_store demo_env) 1 (asc ''a1'') (asc ''Yes.'') demo_bound_t1 = Some (Say (asc ''Yes.''), s)"
proof -
  have "length (asc ''Yes.'') = 4" by (simp add: asc_def)
  then have "shaper_split 20 (asc ''Yes.'') = Some \<lparr>spoken = asc ''Yes.'', remaining = []\<rparr>"
    using shaper_split_shape [of 20 "asc ''Yes.''"] by auto
  then show ?thesis
    by (simp add: shape_and_save_def pg_household_store_def pg_save_continuation_def pg_clear_continuation_def with_db_def
        demo_bound_t1_def demo_bound_fields)
qed

lemma told_answered:
  "\<exists>e. demo_reachable e \<and> en_requests e 0 = Some (demo_input, Done (Say (asc ''Yes.'')))"
proof -
  let ?e = "set_phase 0 demo_input (At (Shape demo_house (asc ''Yes.''))) told"
  have t: "en_requests told 0 = Some (demo_input, Wait demo_house 0)"
    "en_jobs told 0 = Some (demo_job (JFinished (WorkOk (asc ''Yes.''))))" "en_store told = demo_bound_t1"
    by (simp_all add: told_def finish_job_def set_job_def run3_facts)
  have e: "demo_reachable ?e"
    using engine_reachable.step [OF told_reachable finished_in_time [OF t(1,2)]] by simp
  obtain s where "shape_and_save 20 (pg_household_store demo_env) 1 (asc ''a1'') (asc ''Yes.'') demo_bound_t1 = Some (Say (asc ''Yes.''), s)"
    using told_shaped by blast
  then have "respond_step basic_unicode (chunk_limit demo_cfg) (pg_household_store demo_env) demo_input
      (Shape demo_house (asc ''Yes.'')) (en_store ?e) = (Done (Say (asc ''Yes.'')), s)"
    by (simp add: or_panic_def set_phase_def t(3) demo_cfg_def demo_house_def demo_input_def)
  from engine_reachable.step [OF e store_call [where r = 0, OF _ this]] show ?thesis
    by (intro exI [of _ "set_phase 0 demo_input (Done (Say (asc ''Yes.''))) (?e\<lparr>en_store := s\<rparr>)"]) (simp add: set_phase_def)
qed

theorem device_hears_its_own_witness:
  "\<exists>e es e0 sr. bridge_run demo_env basic_unicode demo_cfg demo_bound (e # es) \<and>
     en_requests e 0 = Some (demo_input, Done (Say (asc ''Yes.''))) \<and> e0 \<in> set (e # es) \<and>
     en_requests e0 0 = Some (demo_input, At (Resolve FindBinding)) \<and> pg_surfaces (en_store e0) (asc ''a1'') = Some sr \<and>
     membership_exists (en_store e0) (sr_house sr) (asc ''u1'')"
proof -
  obtain e where e: "demo_reachable e" "en_requests e 0 = Some (demo_input, Done (Say (asc ''Yes.'')))"
    using told_answered by blast
  obtain es where es: "bridge_run demo_env basic_unicode demo_cfg demo_bound (e # es)"
    using reachable_has_run [OF e(1)] by blast
  have "asc ''Yes.'' \<notin> set fixed_words" unfolding fixed_words_def STILL_THINKING_def by code_simp
  from device_hears_its_own [OF demo_laws es e(2) this] obtain e0 sr where "e0 \<in> set (e # es)"
    "en_requests e0 0 = Some (demo_input, At (Resolve FindBinding))"
    "pg_surfaces (en_store e0) (si_application_id (hi_identity demo_input)) = Some sr"
    "sr_user sr = si_user_id (hi_identity demo_input)" "membership_exists (en_store e0) (sr_house sr) (sr_user sr)"
    by blast
  with es e(2) show ?thesis by (intro exI [of _ e] exI [of _ es] exI [of _ e0] exI [of _ sr]) (simp add: demo_input_def)
qed

end
