(* ===== verification/Household_Talk.thy ===== *)
theory Household_Talk
  imports Household_System
begin

section \<open>Talking with the household bridge over time\<close>

text \<open>
  The requests of one device, one after the other, on the Postgres store while the clock
  moves between them: how a long answer is read to its end, and how an answer that came after
  the deadline reaches the device. The database answers every call here; what a failed
  call does is shown with the engine.
\<close>

fun talk :: "unicode \<Rightarrow> usize \<Rightarrow> pg_env \<Rightarrow> (household_input \<times> int) list \<Rightarrow> pg_state \<Rightarrow> phase list \<times> pg_state" where
  "talk uc limit env [] s = ([], s)"
| "talk uc limit env ((input, t) # qs) s =
     (case run_request 8 uc limit (pg_household_store env) input (At (Resolve FindBinding)) s of
        (ph, s') \<Rightarrow> (case talk uc limit env qs (s'\<lparr>pg_now := pg_now s' + t\<rparr>) of (phs, s2) \<Rightarrow> (ph # phs, s2)))"

text \<open>The listener asks to go on, each time before the rest expires.\<close>

definition keeps_asking :: "unicode \<Rightarrow> surface_identity \<Rightarrow> (household_input \<times> int) list \<Rightarrow> bool" where
  "keeps_asking uc i qs \<longleftrightarrow>
     list_all (\<lambda>(input, t). hi_identity input = i \<and> from_utterance uc (hi_utterance input) = Continue \<and>
                            0 \<le> t \<and> t < CONTINUATION_TTL_SECONDS) qs"

text \<open>What is said of an answer in pieces: each but the last ends with the question.\<close>

definition say_pieces :: "rstr list \<Rightarrow> phase list" where
  "say_pieces ds = map (\<lambda>d. Done (Say (d @ CONTINUATION_SUFFIX))) (butlast ds) @ [Done (Say (last ds))]"

text \<open>
  Serialising and sealing succeed for every division of the text. \<open>serde_json\<close> writes any
  list of strings, AES-GCM refuses only messages of many gigabytes.
\<close>

definition storable :: "pg_env \<Rightarrow> rstr \<Rightarrow> bool" where
  "storable env str \<longleftrightarrow> (\<forall>ds. (\<forall>d \<in> set ds. d \<noteq> []) \<and> length (concat ds) \<le> length str \<longrightarrow>
     (\<exists>b. env_to_vec env ds = Some b \<and>
          (\<forall>n. aead_encrypt (env_crypto env) (sc_key (env_cipher env)) n b \<noteq> None)))"

lemma storable_le: "storable env str \<Longrightarrow> length str2 \<le> length str \<Longrightarrow> storable env str2"
  unfolding storable_def by (meson le_trans)

text \<open>The tables that decide who is in which house, and the clock.\<close>

definition same_tables :: "pg_state \<Rightarrow> pg_state \<Rightarrow> bool" where
  "same_tables s s' \<longleftrightarrow> pg_faults s' = pg_faults s \<and> pg_houses s' = pg_houses s \<and> pg_members s' = pg_members s \<and>
     pg_surfaces s' = pg_surfaces s \<and> pg_now s' = pg_now s"

lemma pg_bound_frame:
  "pg_houses s' = pg_houses s \<Longrightarrow> pg_members s' = pg_members s \<Longrightarrow> pg_surfaces s' = pg_surfaces s \<Longrightarrow>
   pg_bound i s' = pg_bound i s"
  unfolding pg_bound_def by (simp split: option.split)

lemma pg_bound_fk: "pg_bound i s = Some house \<Longrightarrow> surface_fk s (hc_id house) (si_application_id i)"
  by (auto simp: pg_bound_iff surface_fk_def)

subsection \<open>One request\<close>

lemma save_chunks_calm:
  assumes laws: "pg_env_laws env" and f: "pg_faults s = []" and fk: "surface_fk s h a"
    and wf: "list_all wf_str ds" and ne: "\<forall>d \<in> set ds. d \<noteq> []"
    and st: "storable env str" "length (concat ds) \<le> length str"
  obtains s' where "pg_save_continuation env h a ds s = (Ok (), s')" and "same_tables s s'"
    and "pg_pending s' = pg_pending s"
    and "\<And>t. t < pg_now s + CONTINUATION_TTL_SECONDS \<Longrightarrow>
          live_chunks env t (pg_conts s' (h, a)) = (if ds = [] then None else Some ds)"
proof (cases "ds = []")
  case True
  let ?s = "s\<lparr>pg_conts := (pg_conts s)((h, a) := None)\<rparr>"
  show thesis
    by (rule that [of ?s])
       (simp_all add: True pg_save_continuation_def pg_clear_continuation_def with_db_def f same_tables_def)
next
  case False
  obtain b where b: "env_to_vec env ds = Some b" "\<And>n. aead_encrypt (env_crypto env) (sc_key (env_cipher env)) n b \<noteq> None"
    using st ne unfolding storable_def by blast
  obtain p where p: "seal (env_crypto env) (env_cipher env) (draw_nonce env s) b = Ok p"
    using b(2) [of "draw_nonce env s"] by (auto simp: seal_def)
  obtain t where t: "from_utf8 b = Some t" "env_from_str env t = Some ds"
    using pg_env_laws.json_roundtrip [OF laws wf b(1)] by blast
  then have o: "open_text env p = Ok t" using pg_env_laws.open_text_seal [OF laws p] by simp
  let ?row = "\<lparr>ct_payload = p, ct_expires = pg_now s + CONTINUATION_TTL_SECONDS\<rparr>"
  let ?s = "(next_draw s)\<lparr>pg_conts := (pg_conts s)((h, a) \<mapsto> ?row)\<rparr>"
  show thesis
  proof (rule that [of ?s])
    show "pg_save_continuation env h a ds s = (Ok (), ?s)"
      using False b(1) p f fk
      by (simp add: pg_save_continuation_def with_db_def next_draw_def surface_fk_def)
    show "live_chunks env u (pg_conts ?s (h, a)) = (if ds = [] then None else Some ds)"
      if "u < pg_now s + CONTINUATION_TTL_SECONDS" for u
      using that False o t(2) by (simp add: live_chunks_def)
  qed (simp_all add: same_tables_def next_draw_def)
qed

lemma shape_calm:
  assumes "pg_env_laws env" and "pg_faults s = []" and "surface_fk s h a" and wf: "wf_str str" and "storable env str"
    and split: "shaper_split limit str = Some \<lparr>spoken = d @ (if ds = [] then [] else CONTINUATION_SUFFIX), remaining = ds\<rparr>"
    and d: "d @ concat ds = str" "\<forall>c \<in> set ds. c \<noteq> []"
  obtains s' where "shape_and_save limit (pg_household_store env) h a str s =
      Some (Say (d @ (if ds = [] then [] else CONTINUATION_SUFFIX)), s')" and "same_tables s s'"
    and "pg_pending s' = pg_pending s"
    and "\<And>t. t < pg_now s + CONTINUATION_TTL_SECONDS \<Longrightarrow>
          live_chunks env t (pg_conts s' (h, a)) = (if ds = [] then None else Some ds)"
proof -
  have ds: "list_all wf_str ds" using wf d(1) by (metis wf_str_append wf_str_concat)
  have le: "length (concat ds) \<le> length str" by (simp flip: d(1))
  obtain s' where s': "pg_save_continuation env h a ds s = (Ok (), s')" "same_tables s s'" "pg_pending s' = pg_pending s"
    "\<And>t. t < pg_now s + CONTINUATION_TTL_SECONDS \<Longrightarrow>
          live_chunks env t (pg_conts s' (h, a)) = (if ds = [] then None else Some ds)"
    using save_chunks_calm [OF assms(1-3) ds d(2) assms(5) le] by blast
  show thesis by (rule that [OF _ s'(2-4)]) (simp add: shape_and_save_def split pg_household_store_def s'(1))
qed

text \<open>The stored rest goes on; a deferred answer is told and forgotten.\<close>

lemma continue_once:
  assumes laws: "pg_env_laws env" and f: "pg_faults s = []" and b: "pg_bound (hi_identity input) s = Some house"
    and go: "from_utterance uc (hi_utterance input) = Continue"
    and cs: "v_chunks (pg_view env s) (hc_id house, si_application_id (hi_identity input)) = Some cs"
    and st: "wf_str (concat cs)" "storable env (concat cs)"
    and split: "shaper_split limit (concat cs) = Some \<lparr>spoken = d @ (if ds = [] then [] else CONTINUATION_SUFFIX), remaining = ds\<rparr>"
    and d: "d @ concat ds = concat cs" "\<forall>c \<in> set ds. c \<noteq> []"
  obtains s' where "run_request 8 uc limit (pg_household_store env) input (At (Resolve FindBinding)) s =
      (Done (Say (d @ (if ds = [] then [] else CONTINUATION_SUFFIX))), s')" and "same_tables s s'"
    and "pg_pending s' = pg_pending s"
    and "\<And>t. t < pg_now s + CONTINUATION_TTL_SECONDS \<Longrightarrow>
          live_chunks env t (pg_conts s' (hc_id house, si_application_id (hi_identity input))) = (if ds = [] then None else Some ds)"
proof -
  let ?k = "(hc_id house, si_application_id (hi_identity input))"
  let ?s = "s\<lparr>pg_conts := (pg_conts s)(?k := None)\<rparr>"
  have take: "pg_take_continuation env (fst ?k) (snd ?k) s = (Ok (Some cs), ?s)"
    using cs f by (auto simp: pg_take_continuation_def with_db_def live_chunks_def Let_def
        split: option.splits if_splits sum.splits)
  have fk: "surface_fk ?s (fst ?k) (snd ?k)" using pg_bound_fk [OF b] by (simp add: surface_fk_def)
  obtain s' where s': "shape_and_save limit (pg_household_store env) (fst ?k) (snd ?k) (concat cs) ?s =
      Some (Say (d @ (if ds = [] then [] else CONTINUATION_SUFFIX)), s')" "same_tables ?s s'" "pg_pending s' = pg_pending ?s"
    "\<And>t. t < pg_now ?s + CONTINUATION_TTL_SECONDS \<Longrightarrow>
       live_chunks env t (pg_conts s' (fst ?k, snd ?k)) = (if ds = [] then None else Some ds)"
    using shape_calm [OF laws _ fk st split d] f by auto
  have "pg_resolve_step env (hi_identity input) FindBinding s = (Ok (Resolved (Bound house)), s)"
    by (simp add: with_db_def f b)
  then have "run_request 8 uc limit (pg_household_store env) input (At (Resolve FindBinding)) s =
      (Done (Say (d @ (if ds = [] then [] else CONTINUATION_SUFFIX))), s')"
    using take s'(1) go
    by (simp add: eval_nat_numeral pg_household_store_def answer_continuation_def or_panic_def)
  with s'(2-4) show thesis by (intro that [of s']) (simp_all add: same_tables_def)
qed

lemma deliver_once:
  assumes laws: "pg_env_laws env" and f: "pg_faults s = []" and b: "pg_bound (hi_identity input) s = Some house"
    and cs: "\<And>row. pg_conts s (hc_id house, si_application_id (hi_identity input)) = Some row \<Longrightarrow> \<not> ct_expires row > pg_now s"
    and p: "v_pending (pg_view env s) (hc_id house, si_application_id (hi_identity input)) = Ready str"
    and st: "wf_str str" "storable env str"
    and split: "shaper_split limit str = Some \<lparr>spoken = d @ (if ds = [] then [] else CONTINUATION_SUFFIX), remaining = ds\<rparr>"
    and d: "d @ concat ds = str" "\<forall>c \<in> set ds. c \<noteq> []"
  obtains s' where "run_request 8 uc limit (pg_household_store env) input (At (Resolve FindBinding)) s =
      (Done (Say (d @ (if ds = [] then [] else CONTINUATION_SUFFIX))), s')" and "same_tables s s'"
    and "pg_pending s' (hc_id house, si_application_id (hi_identity input)) = None"
    and "\<And>t. t < pg_now s + CONTINUATION_TTL_SECONDS \<Longrightarrow>
          live_chunks env t (pg_conts s' (hc_id house, si_application_id (hi_identity input))) = (if ds = [] then None else Some ds)"
proof -
  let ?k = "(hc_id house, si_application_id (hi_identity input))"
  have take: "pg_take_continuation env (fst ?k) (snd ?k) s = (Ok None, s)"
    using cs f by (auto simp: pg_take_continuation_def with_db_def split: option.split)
  have poll: "pg_poll_pending env (fst ?k) (snd ?k) s = (Ok (Ready str), s)"
    using p f by (auto simp: pg_poll_pending_def with_db_def live_pending_def split: option.splits if_splits sum.splits)
  have fk: "surface_fk s (fst ?k) (snd ?k)" using pg_bound_fk [OF b] by simp
  obtain s1 where s1: "shape_and_save limit (pg_household_store env) (fst ?k) (snd ?k) str s =
      Some (Say (d @ (if ds = [] then [] else CONTINUATION_SUFFIX)), s1)" "same_tables s s1"
    "\<And>t. t < pg_now s + CONTINUATION_TTL_SECONDS \<Longrightarrow>
       live_chunks env t (pg_conts s1 (fst ?k, snd ?k)) = (if ds = [] then None else Some ds)"
    by (rule shape_calm [OF laws f fk st split d]) blast
  let ?s = "s1\<lparr>pg_pending := (pg_pending s1)(?k := None)\<rparr>"
  have clear: "pg_clear_pending (fst ?k) (snd ?k) s1 = (Ok (), ?s)"
    using s1(2) f by (simp add: pg_clear_pending_def with_db_def same_tables_def)
  have "pg_resolve_step env (hi_identity input) FindBinding s = (Ok (Resolved (Bound house)), s)"
    by (simp add: with_db_def f b)
  then have "run_request 8 uc limit (pg_household_store env) input (At (Resolve FindBinding)) s =
      (Done (Say (d @ (if ds = [] then [] else CONTINUATION_SUFFIX))), ?s)"
    using take poll s1(1) clear
    by (simp add: eval_nat_numeral pg_household_store_def or_panic_def)
  with s1(2,3) show thesis by (intro that [of ?s]) (simp_all add: same_tables_def)
qed

subsection \<open>A conversation\<close>

lemma keeps_asking_Cons:
  "keeps_asking uc i ((input, t) # qs) \<longleftrightarrow> hi_identity input = i \<and>
     from_utterance uc (hi_utterance input) = Continue \<and> 0 \<le> t \<and> t < CONTINUATION_TTL_SECONDS \<and> keeps_asking uc i qs"
  by (simp add: keeps_asking_def)

lemma say_pieces_Cons: "ds \<noteq> [] \<Longrightarrow> say_pieces (d # ds) = Done (Say (d @ CONTINUATION_SUFFIX)) # say_pieces ds"
  by (simp add: say_pieces_def)

lemma length_one: "length qs = 1 \<Longrightarrow> \<exists>input t. qs = [(input, t)]"
  by (cases qs) auto

text \<open>The first piece and the pieces of the requests that follow it.\<close>

lemma talk_first_then_rest:
  assumes first: "run_request 8 uc limit (pg_household_store env) input (At (Resolve FindBinding)) s =
      (Done (Say (d @ CONTINUATION_SUFFIX)), s1)" "same_tables s s1"
    and s: "pg_faults s = []" "pg_bound i s = Some house"
    and left: "\<forall>t < pg_now s + CONTINUATION_TTL_SECONDS. live_chunks env t (pg_conts s1 (hc_id house, si_application_id i)) = Some ds"
    and t: "t < CONTINUATION_TTL_SECONDS" and es: "es \<noteq> []"
    and rest: "\<And>s. pg_faults s = [] \<Longrightarrow> pg_bound i s = Some house \<Longrightarrow>
        v_chunks (pg_view env s) (hc_id house, si_application_id i) = Some ds \<Longrightarrow>
        \<exists>s'. talk uc limit env qs s = (say_pieces es, s') \<and> pg_pending s' = pg_pending s \<and>
          v_chunks (pg_view env s') (hc_id house, si_application_id i) = None"
  shows "\<exists>s'. talk uc limit env ((input, t) # qs) s = (say_pieces (d # es), s') \<and> pg_pending s' = pg_pending s1 \<and>
      v_chunks (pg_view env s') (hc_id house, si_application_id i) = None"
proof -
  let ?s = "s1\<lparr>pg_now := pg_now s1 + t\<rparr>"
  have "pg_faults ?s = []" "pg_bound i ?s = Some house"
    "v_chunks (pg_view env ?s) (hc_id house, si_application_id i) = Some ds"
    using first(2) left s t pg_bound_frame [of ?s s i] by (simp_all add: same_tables_def)
  from rest [OF this] first(1) es show ?thesis by (auto simp: say_pieces_Cons)
qed

lemma talk_continues:
  assumes laws: "pg_env_laws env" and limit: "limit > 12"
  shows "list_all wf_str cs \<Longrightarrow> storable env (concat cs) \<Longrightarrow>
    \<exists>ds. ds \<noteq> [] \<and> concat ds = concat cs \<and>
      (\<forall>s qs. pg_faults s = [] \<and> pg_bound i s = Some house \<and>
         v_chunks (pg_view env s) (hc_id house, si_application_id i) = Some cs \<and>
         keeps_asking uc i qs \<and> length qs = length ds \<longrightarrow>
         (\<exists>s'. talk uc limit env qs s = (say_pieces ds, s') \<and> pg_pending s' = pg_pending s \<and>
            v_chunks (pg_view env s') (hc_id house, si_application_id i) = None))"
proof (induction "length (concat cs)" arbitrary: cs rule: less_induct)
  case less
  let ?k = "(hc_id house, si_application_id i)"
  have wf: "wf_str (concat cs)" using less.prems(1) by (simp add: wf_str_concat)
  obtain d ds where split: "shaper_split limit (concat cs) = Some
        \<lparr>spoken = d @ (if ds = [] then [] else CONTINUATION_SUFFIX), remaining = ds\<rparr>"
    and d: "d @ concat ds = concat cs" "concat cs \<noteq> [] \<longrightarrow> d \<noteq> []" "\<forall>c \<in> set ds. c \<noteq> []"
    using shaper_split_shape [OF limit, of "concat cs"] by blast
  have once: "\<exists>s'. run_request 8 uc limit (pg_household_store env) input (At (Resolve FindBinding)) s =
        (Done (Say (d @ (if ds = [] then [] else CONTINUATION_SUFFIX))), s') \<and> same_tables s s' \<and> pg_pending s' = pg_pending s \<and>
      (\<forall>t < pg_now s + CONTINUATION_TTL_SECONDS. live_chunks env t (pg_conts s' ?k) = (if ds = [] then None else Some ds))"
    if s: "pg_faults s = []" "pg_bound i s = Some house" "v_chunks (pg_view env s) ?k = Some cs"
      "hi_identity input = i" "from_utterance uc (hi_utterance input) = Continue" for s input
    using continue_once [OF laws s(1) _ s(5) _ wf less.prems(2) split d(1,3), of house] s(2-4) by blast
  show ?case
  proof (cases "ds = []")
    case True
    have "\<exists>s'. talk uc limit env qs s = (say_pieces [d], s') \<and> pg_pending s' = pg_pending s \<and> v_chunks (pg_view env s') ?k = None"
      if s: "pg_faults s = []" "pg_bound i s = Some house" "v_chunks (pg_view env s) ?k = Some cs"
        "keeps_asking uc i qs" "length qs = 1" for s qs
    proof -
      obtain input t where q: "qs = [(input, t)]" using length_one [OF s(5)] by blast
      with s(4) have ask: "hi_identity input = i" "from_utterance uc (hi_utterance input) = Continue" "t < CONTINUATION_TTL_SECONDS"
        by (simp_all add: keeps_asking_Cons)
      from once [OF s(1-3) ask(1,2)] True ask(3) q show ?thesis by (auto simp: say_pieces_def same_tables_def)
    qed
    with d(1) True show ?thesis by (intro exI [of _ "[d]"]) simp
  next
    case False
    from False d(3) have "concat ds \<noteq> []" by (cases ds) auto
    then have "concat cs \<noteq> []" using d(1) by (metis append_is_Nil_conv)
    with d have shorter: "length (concat ds) < length (concat cs)"
      by (metis length_append length_greater_0_conv less_add_same_cancel2)
    have "list_all wf_str ds" using wf d(1) by (metis wf_str_append wf_str_concat)
    with less.hyps [OF shorter] storable_le [OF less.prems(2)] shorter
    obtain es where es: "es \<noteq> []" "concat es = concat ds"
      and rest: "\<And>s qs. pg_faults s = [] \<Longrightarrow> pg_bound i s = Some house \<Longrightarrow> v_chunks (pg_view env s) ?k = Some ds \<Longrightarrow>
         keeps_asking uc i qs \<Longrightarrow> length qs = length es \<Longrightarrow>
         \<exists>s'. talk uc limit env qs s = (say_pieces es, s') \<and> pg_pending s' = pg_pending s \<and> v_chunks (pg_view env s') ?k = None"
      by (metis less_imp_le)
    have "\<exists>s'. talk uc limit env qs s = (say_pieces (d # es), s') \<and> pg_pending s' = pg_pending s \<and> v_chunks (pg_view env s') ?k = None"
      if s: "pg_faults s = []" "pg_bound i s = Some house" "v_chunks (pg_view env s) ?k = Some cs"
        "keeps_asking uc i qs" "length qs = Suc (length es)" for s qs
    proof -
      obtain input t rs where q: "qs = (input, t) # rs" "length rs = length es" using s(5) by (cases qs) auto
      with s(4) have ask: "hi_identity input = i" "from_utterance uc (hi_utterance input) = Continue"
        "t < CONTINUATION_TTL_SECONDS" "keeps_asking uc i rs" by (simp_all add: keeps_asking_Cons)
      from once [OF s(1-3) ask(1,2)] False obtain s1 where s1:
        "run_request 8 uc limit (pg_household_store env) input (At (Resolve FindBinding)) s =
           (Done (Say (d @ CONTINUATION_SUFFIX)), s1)" "same_tables s s1" "pg_pending s1 = pg_pending s"
        "\<forall>t < pg_now s + CONTINUATION_TTL_SECONDS. live_chunks env t (pg_conts s1 ?k) = Some ds" by auto
      from talk_first_then_rest [OF s1(1,2) s(1,2) s1(4) ask(3) es(1) rest [OF _ _ _ ask(4) q(2)]]
      show ?thesis using q(1) s1(3) by simp
    qed
    with d(1) es show ?thesis by (intro exI [of _ "d # es"]) simp
  qed
qed

text \<open>
  C17. A listener who keeps asking to go on, each time within ten minutes, hears the stored rest to its
  end: the pieces in their order are exactly the stored text, they do not depend on when and how the listener
  asks, every piece but the last is followed by the question, and then nothing is left.
\<close>

theorem continue_reads_all:
  assumes laws: "pg_env_laws env" and shaper: "reply_shaper_new limit = Some shaper"
    and cs: "list_all wf_str cs" "storable env (concat cs)"
  shows "\<exists>ds. ds \<noteq> [] \<and> concat ds = concat cs \<and>
    (\<forall>s qs. pg_faults s = [] \<and> pg_bound i s = Some house \<and>
       v_chunks (pg_view env s) (hc_id house, si_application_id i) = Some cs \<and>
       keeps_asking uc i qs \<and> length qs = length ds \<longrightarrow>
       (\<exists>s'. talk uc shaper env qs s = (say_pieces ds, s') \<and>
          v_chunks (pg_view env s') (hc_id house, si_application_id i) = None))"
proof -
  have "shaper > 12" using shaper by (simp split: if_splits)
  from talk_continues [OF laws this cs, of i house uc] show ?thesis by blast
qed

text \<open>
  C18. An answer that came after the deadline reaches the device in full: the next request of the
  device, whatever it says, is answered with the beginning of the answer, the requests to go on after it with the rest,
  the pieces are exactly the answer, and the deferred reply and the rest are forgotten.
\<close>

theorem late_answer_heard:
  assumes laws: "pg_env_laws env" and shaper: "reply_shaper_new limit = Some shaper"
    and str: "wf_str str" "storable env str"
  shows "\<exists>ds. ds \<noteq> [] \<and> concat ds = str \<and>
    (\<forall>s input t qs. pg_faults s = [] \<and> pg_bound i s = Some house \<and> hi_identity input = i \<and>
       (\<forall>row. pg_conts s (hc_id house, si_application_id i) = Some row \<longrightarrow> \<not> ct_expires row > pg_now s) \<and>
       v_pending (pg_view env s) (hc_id house, si_application_id i) = Ready str \<and>
       t < CONTINUATION_TTL_SECONDS \<and> keeps_asking uc i qs \<and> Suc (length qs) = length ds \<longrightarrow>
       (\<exists>s'. talk uc shaper env ((input, t) # qs) s = (say_pieces ds, s') \<and>
          v_chunks (pg_view env s') (hc_id house, si_application_id i) = None \<and>
          v_pending (pg_view env s') (hc_id house, si_application_id i) = NoReply))"
proof -
  let ?k = "(hc_id house, si_application_id i)"
  have limit: "shaper > 12" using shaper by (simp split: if_splits)
  obtain d ds where split: "shaper_split shaper str = Some
        \<lparr>spoken = d @ (if ds = [] then [] else CONTINUATION_SUFFIX), remaining = ds\<rparr>"
    and d: "d @ concat ds = str" "\<forall>c \<in> set ds. c \<noteq> []"
    using shaper_split_shape [OF limit, of str] by blast
  have once: "\<exists>s'. run_request 8 uc shaper (pg_household_store env) input (At (Resolve FindBinding)) s =
        (Done (Say (d @ (if ds = [] then [] else CONTINUATION_SUFFIX))), s') \<and> same_tables s s' \<and> pg_pending s' ?k = None \<and>
      (\<forall>t < pg_now s + CONTINUATION_TTL_SECONDS. live_chunks env t (pg_conts s' ?k) = (if ds = [] then None else Some ds))"
    if s: "pg_faults s = []" "pg_bound i s = Some house" "hi_identity input = i"
      "\<forall>row. pg_conts s ?k = Some row \<longrightarrow> \<not> ct_expires row > pg_now s" "v_pending (pg_view env s) ?k = Ready str" for s input
    using deliver_once [OF laws s(1) _ _ _ str split d, of input house uc] s(2-5) by blast
  show ?thesis
  proof (cases "ds = []")
    case True
    have "\<exists>s'. talk uc shaper env ((input, t) # qs) s = (say_pieces [d], s') \<and>
        v_chunks (pg_view env s') ?k = None \<and> v_pending (pg_view env s') ?k = NoReply"
      if "pg_faults s = []" "pg_bound i s = Some house" "hi_identity input = i"
        "\<forall>row. pg_conts s ?k = Some row \<longrightarrow> \<not> ct_expires row > pg_now s" "v_pending (pg_view env s) ?k = Ready str"
        "t < CONTINUATION_TTL_SECONDS" "qs = []" for s input t qs
      using once [OF that(1-5)] True that(6,7) by (auto simp: say_pieces_def same_tables_def)
    with d(1) True show ?thesis by (intro exI [of _ "[d]"]) simp
  next
    case False
    have "list_all wf_str ds" using str(1) d(1) by (metis wf_str_append wf_str_concat)
    moreover have "storable env (concat ds)" by (rule storable_le [OF str(2)]) (simp flip: d(1))
    ultimately obtain es where es: "es \<noteq> []" "concat es = concat ds"
      and rest: "\<And>s qs. pg_faults s = [] \<Longrightarrow> pg_bound i s = Some house \<Longrightarrow> v_chunks (pg_view env s) ?k = Some ds \<Longrightarrow>
         keeps_asking uc i qs \<Longrightarrow> length qs = length es \<Longrightarrow>
         \<exists>s'. talk uc shaper env qs s = (say_pieces es, s') \<and> pg_pending s' = pg_pending s \<and> v_chunks (pg_view env s') ?k = None"
      using talk_continues [OF laws limit, of ds i house uc] by metis
    have "\<exists>s'. talk uc shaper env ((input, t) # qs) s = (say_pieces (d # es), s') \<and>
        v_chunks (pg_view env s') ?k = None \<and> v_pending (pg_view env s') ?k = NoReply"
      if s: "pg_faults s = []" "pg_bound i s = Some house" "hi_identity input = i"
        "\<forall>row. pg_conts s ?k = Some row \<longrightarrow> \<not> ct_expires row > pg_now s" "v_pending (pg_view env s) ?k = Ready str"
        "t < CONTINUATION_TTL_SECONDS" "keeps_asking uc i qs" "length qs = length es" for s input t qs
    proof -
      from once [OF s(1-5)] False obtain s1 where s1:
        "run_request 8 uc shaper (pg_household_store env) input (At (Resolve FindBinding)) s =
           (Done (Say (d @ CONTINUATION_SUFFIX)), s1)" "same_tables s s1" "pg_pending s1 ?k = None"
        "\<forall>t < pg_now s + CONTINUATION_TTL_SECONDS. live_chunks env t (pg_conts s1 ?k) = Some ds" by auto
      from talk_first_then_rest [OF s1(1,2) s(1,2) s1(4) s(6) es(1) rest [OF _ _ _ s(7,8)]]
      show ?thesis using s1(3) by auto
    qed
    with d(1) es show ?thesis by (intro exI [of _ "d # es"]) simp
  qed
qed

subsection \<open>A database that fails\<close>

text \<open>
  C40. The rest of an answer is lost when the database fails in the wrong moment: the request to go on takes
  the rest out of the table before it stores what remains of it, so when that call fails, the listener
  hears of an error and the unread text is gone.
\<close>

theorem failed_save_loses_rest:
  assumes "reply_shaper_new limit = Some shaper" and f: "pg_faults s = [False, False, True]"
    and b: "pg_bound (hi_identity input) s = Some house" and go: "from_utterance uc (hi_utterance input) = Continue"
    and cs: "v_chunks (pg_view env s) (hc_id house, si_application_id (hi_identity input)) = Some cs"
  shows "\<exists>s'. run_request 8 uc shaper (pg_household_store env) input (At (Resolve FindBinding)) s = (Done InternalError, s') \<and>
           v_chunks (pg_view env s') (hc_id house, si_application_id (hi_identity input)) = None"
proof -
  let ?k = "(hc_id house, si_application_id (hi_identity input))"
  let ?s = "s\<lparr>pg_faults := [True], pg_conts := (pg_conts s)(?k := None)\<rparr>"
  have limit: "shaper > 12" using assms(1) by (simp split: if_splits)
  have b2: "pg_bound (hi_identity input) (s\<lparr>pg_faults := fs\<rparr>) = Some house" for fs
    using b pg_bound_frame [of "s\<lparr>pg_faults := fs\<rparr>" s] by simp
  have take: "pg_take_continuation env (fst ?k) (snd ?k) (s\<lparr>pg_faults := [False, True]\<rparr>) = (Ok (Some cs), ?s)"
    using cs by (auto simp: pg_take_continuation_def with_db_def live_chunks_def Let_def
        split: option.splits if_splits sum.splits)
  obtain d ds where split: "shaper_split shaper (concat cs) = Some
        \<lparr>spoken = d @ (if ds = [] then [] else CONTINUATION_SUFFIX), remaining = ds\<rparr>"
    using shaper_split_shape [OF limit, of "concat cs"] by blast
  have "\<exists>err s'. pg_save_continuation env (fst ?k) (snd ?k) ds ?s = (Err err, s') \<and> pg_conts s' ?k = None"
    by (auto simp: pg_save_continuation_def pg_clear_continuation_def with_db_def next_draw_def Let_def
        split: option.split sum.split)
  then obtain err s' where save: "pg_save_continuation env (fst ?k) (snd ?k) ds ?s = (Err err, s')" "pg_conts s' ?k = None"
    by blast
  have "pg_resolve_step env (hi_identity input) FindBinding s = (Ok (Resolved (Bound house)), s\<lparr>pg_faults := [False, True]\<rparr>)"
    by (simp add: with_db_def f b2 Let_def)
  then have "run_request 8 uc shaper (pg_household_store env) input (At (Resolve FindBinding)) s = (Done InternalError, s')"
    using take save(1) split go
    by (simp add: eval_nat_numeral pg_household_store_def answer_continuation_def shape_and_save_def or_panic_def)
  with save(2) show ?thesis by simp
qed

subsection \<open>A concrete conversation\<close>

lemma demo_storable: "storable demo_env str"
  by (simp add: storable_def demo_env_def demo_crypto_def)

lemma demo_bound_house: "pg_bound (hi_identity demo_input) demo_bound = Some demo_house"
  by (simp add: pg_bound_def demo_bound_def demo_state_def demo_input_def demo_house_def)

lemma demo_asks: "keeps_asking basic_unicode (hi_identity demo_input) (replicate n (demo_input, 5))"
  using demo_continue by (induction n) (simp_all add: keeps_asking_def CONTINUATION_TTL_SECONDS_def)

abbreviation demo_chunks :: "rstr list" where
  "demo_chunks \<equiv> [asc ''One. '', asc ''Two. Three.'']"

lemma demo_chunks_wf: "list_all wf_str demo_chunks"
  by (simp add: asc_def wf_str_def is_scalar_def)

lemma demo_rest:
  obtains s where "same_tables demo_bound s" and "v_chunks (pg_view demo_env s) (1, asc ''a1'') = Some demo_chunks"
    and "pg_bound (hi_identity demo_input) s = Some demo_house"
proof -
  have ne: "\<forall>d \<in> set demo_chunks. d \<noteq> []" by (simp add: asc_def)
  have fk: "surface_fk demo_bound 1 (asc ''a1'')" by (simp add: surface_fk_def demo_bound_fields)
  obtain s where s: "same_tables demo_bound s" "live_chunks demo_env (pg_now demo_bound) (pg_conts s (1, asc ''a1'')) = Some demo_chunks"
    using save_chunks_calm [OF demo_pg.pg_env_laws_axioms demo_bound_fields(1) fk demo_chunks_wf ne demo_storable order.refl]
    by (metis CONTINUATION_TTL_SECONDS_def less_add_same_cancel1 list.distinct(1) zero_less_numeral)
  moreover have "pg_bound (hi_identity demo_input) s = Some demo_house"
    using demo_bound_house s(1) pg_bound_frame [of s demo_bound "hi_identity demo_input"] by (simp add: same_tables_def)
  ultimately show thesis by (intro that [of s]) (simp_all add: same_tables_def)
qed

theorem continue_reads_all_witness:
  "\<exists>s ds s'. concat ds = asc ''One. Two. Three.'' \<and> ds \<noteq> [] \<and>
    v_chunks (pg_view demo_env s) (1, asc ''a1'') = Some demo_chunks \<and>
    talk basic_unicode 20 demo_env (replicate (length ds) (demo_input, 5)) s = (say_pieces ds, s') \<and>
    v_chunks (pg_view demo_env s') (1, asc ''a1'') = None"
proof -
  obtain s where s: "same_tables demo_bound s" "v_chunks (pg_view demo_env s) (1, asc ''a1'') = Some demo_chunks"
    "pg_bound (hi_identity demo_input) s = Some demo_house" by (rule demo_rest)
  have f: "pg_faults s = []" using s(1) by (simp add: same_tables_def demo_bound_fields)
  have "reply_shaper_new 20 = Some 20" by simp
  from continue_reads_all [OF demo_pg.pg_env_laws_axioms this demo_chunks_wf demo_storable,
      of "hi_identity demo_input" demo_house basic_unicode]
  obtain ds s' where ds: "ds \<noteq> []" "concat ds = concat demo_chunks"
    "talk basic_unicode 20 demo_env (replicate (length ds) (demo_input, 5)) s = (say_pieces ds, s')"
    "v_chunks (pg_view demo_env s') (1, asc ''a1'') = None"
    unfolding demo_simps using s(2,3) f demo_asks length_replicate by metis
  moreover have "concat demo_chunks = asc ''One. Two. Three.''" by (simp add: asc_def)
  ultimately have "concat ds = asc ''One. Two. Three.''" by simp
  with ds(1,3,4) s(2) show ?thesis by blast
qed

theorem failed_save_loses_rest_witness:
  "\<exists>s s'. v_chunks (pg_view demo_env s) (1, asc ''a1'') = Some demo_chunks \<and>
    run_request 8 basic_unicode 20 demo_pg_store demo_input (At (Resolve FindBinding)) s = (Done InternalError, s') \<and>
    v_chunks (pg_view demo_env s') (1, asc ''a1'') = None"
proof -
  obtain s where s: "v_chunks (pg_view demo_env s) (1, asc ''a1'') = Some demo_chunks"
    "pg_bound (hi_identity demo_input) s = Some demo_house" by (rule demo_rest)
  let ?s = "s\<lparr>pg_faults := [False, False, True]\<rparr>"
  have "pg_bound (hi_identity demo_input) ?s = Some demo_house"
    using s(2) pg_bound_frame [of ?s s] by simp
  moreover have "v_chunks (pg_view demo_env ?s) (hc_id demo_house, si_application_id (hi_identity demo_input)) = Some demo_chunks"
    using s(1) by simp
  moreover have "reply_shaper_new 20 = Some 20" "pg_faults ?s = [False, False, True]" by simp_all
  ultimately have "\<exists>s'. run_request 8 basic_unicode 20 demo_pg_store demo_input (At (Resolve FindBinding)) ?s = (Done InternalError, s') \<and>
      v_chunks (pg_view demo_env s') (1, asc ''a1'') = None"
    using failed_save_loses_rest [of 20 20 ?s demo_input demo_house basic_unicode demo_env] demo_continue
    unfolding demo_simps by blast
  moreover have "v_chunks (pg_view demo_env ?s) (1, asc ''a1'') = Some demo_chunks" using s(1) by simp
  ultimately show ?thesis by blast
qed

theorem late_answer_heard_witness:
  "\<exists>s ds s'. concat ds = asc ''It is late.'' \<and> ds \<noteq> [] \<and>
    v_pending (pg_view demo_env s) (1, asc ''a1'') = Ready (asc ''It is late.'') \<and>
    talk basic_unicode 20 demo_env ((demo_input, 5) # replicate (length ds - 1) (demo_input, 5)) s = (say_pieces ds, s') \<and>
    v_pending (pg_view demo_env s') (1, asc ''a1'') = NoReply"
proof -
  let ?t = "asc ''It is late.''"
  have wf: "wf_str ?t" by (simp add: asc_def wf_str_def is_scalar_def)
  obtain p where p: "seal (env_crypto demo_env) (env_cipher demo_env) (draw_nonce demo_env demo_bound) (as_bytes ?t) = Ok p"
    by (simp add: seal_def demo_env_def demo_crypto_def)
  then have o: "open_text demo_env p = Ok ?t"
    using demo_pg.open_text_seal [OF p] from_utf8_as_bytes [OF wf] by simp
  define s where "s = demo_bound\<lparr>pg_pending := [(1, asc ''a1'') \<mapsto> \<lparr>pe_payload = Some p, pe_expires = 1120\<rparr>]\<rparr>"
  have s: "pg_faults s = []" "pg_bound (hi_identity demo_input) s = Some demo_house"
    "pg_conts s k = None" "v_pending (pg_view demo_env s) (1, asc ''a1'') = Ready ?t" for k
    using demo_bound_house pg_bound_frame [of s demo_bound "hi_identity demo_input"] o
    by (simp_all add: s_def demo_bound_fields live_pending_def)
  have "reply_shaper_new 20 = Some 20" by simp
  from late_answer_heard [OF demo_pg.pg_env_laws_axioms this wf demo_storable, of "hi_identity demo_input" demo_house basic_unicode]
  obtain ds where ds: "ds \<noteq> []" "concat ds = ?t" and heard:
    "\<forall>s input t qs. pg_faults s = [] \<and> pg_bound (hi_identity demo_input) s = Some demo_house \<and>
       hi_identity input = hi_identity demo_input \<and>
       (\<forall>row. pg_conts s (1, asc ''a1'') = Some row \<longrightarrow> \<not> ct_expires row > pg_now s) \<and>
       v_pending (pg_view demo_env s) (1, asc ''a1'') = Ready ?t \<and>
       t < CONTINUATION_TTL_SECONDS \<and> keeps_asking basic_unicode (hi_identity demo_input) qs \<and> Suc (length qs) = length ds \<longrightarrow>
       (\<exists>s'. talk basic_unicode 20 demo_env ((input, t) # qs) s = (say_pieces ds, s') \<and>
          v_chunks (pg_view demo_env s') (1, asc ''a1'') = None \<and>
          v_pending (pg_view demo_env s') (1, asc ''a1'') = NoReply)"
    unfolding demo_simps by blast
  have "Suc (length (replicate (length ds - 1) (demo_input, 5 :: int))) = length ds" using ds(1) by simp
  moreover have "(5 :: int) < CONTINUATION_TTL_SECONDS" by (simp add: CONTINUATION_TTL_SECONDS_def)
  ultimately have "\<exists>s'. talk basic_unicode 20 demo_env ((demo_input, 5) # replicate (length ds - 1) (demo_input, 5)) s =
      (say_pieces ds, s') \<and> v_pending (pg_view demo_env s') (1, asc ''a1'') = NoReply"
    using heard s demo_asks by (metis option.distinct(1))
  with ds s(4) show ?thesis by blast
qed

end
