(* ===== verification/Command.thy ===== *)
theory Command
  imports Rust_Str
begin

section \<open>Profiles, modes and spoken commands\<close>

text \<open>
  Model of \<^verbatim>\<open>crates/bridge-core/src/profile.rs\<close>, \<^verbatim>\<open>mode.rs\<close>, \<^verbatim>\<open>error.rs\<close> and
  \<^verbatim>\<open>command.rs\<close>. The Unicode tables are the parameter \<open>uc\<close>. A date is a parameter type of
  the calendar crate: \<open>naive_date\<close> is the number of days since an epoch, and what the crate
  computes of it (completed years, the printed form) is passed where the source calls it.
\<close>

type_synonym naive_date = int

datatype profile_role = Adult | Child

record profile =
  pf_name :: rstr
  pf_aliases :: "rstr list"
  pf_birthday :: "naive_date option"
  pf_role :: profile_role
  pf_persona :: rstr

datatype core_error = UnknownProfile rstr

record family_roster =
  fr_profiles :: "profile list"
  fr_default_index :: usize

text \<open>\<open>years_since today birthday\<close> is the crate's function.\<close>

definition age_on :: "(naive_date \<Rightarrow> naive_date \<Rightarrow> nat option) \<Rightarrow> profile \<Rightarrow> naive_date \<Rightarrow> nat option" where
  "age_on years_since p today =
     (case pf_birthday p of None \<Rightarrow> None | Some birthday \<Rightarrow> years_since today birthday)"

fun position :: "('a \<Rightarrow> bool) \<Rightarrow> 'a list \<Rightarrow> nat option" where
  "position P [] = None"
| "position P (x # xs) = (if P x then Some 0 else map_option Suc (position P xs))"

definition roster_new :: "profile list \<Rightarrow> rstr \<Rightarrow> (family_roster, core_error) result" where
  "roster_new profiles default_profile =
     (case position (\<lambda>p. pf_name p = default_profile) profiles of
        None \<Rightarrow> Err (UnknownProfile default_profile)
      | Some i \<Rightarrow> Ok \<lparr>fr_profiles = profiles, fr_default_index = i\<rparr>)"

definition roster_get :: "family_roster \<Rightarrow> rstr \<Rightarrow> profile option" where
  "roster_get roster name = find (\<lambda>p. pf_name p = name) (fr_profiles roster)"

definition find_by_alias :: "unicode \<Rightarrow> family_roster \<Rightarrow> rstr \<Rightarrow> profile option" where
  "find_by_alias uc roster spoken =
     (let spoken = trim spoken
      in find (\<lambda>p. to_lowercase uc (pf_name p) = spoken \<or> list_ex (\<lambda>a. a = spoken) (pf_aliases p))
           (fr_profiles roster))"

text \<open>\<open>None\<close> is the panic of an index out of bounds.\<close>

definition roster_default_profile :: "family_roster \<Rightarrow> profile option" where
  "roster_default_profile roster = iter_nth (fr_profiles roster) (fr_default_index roster)"

record mode =
  md_name :: rstr
  md_triggers :: "rstr list"
  md_prompt :: rstr

datatype command =
    Introduce rstr
  | Forget
  | SetWindow usize
  | UseSmartModel
  | UseFastModel
  | UsageStats
  | WhoAmI
  | EnterMode rstr
  | ExitMode
  | Help

datatype parsed =
    ParsedCommand command
  | Ask rstr bool

definition normalize :: "unicode \<Rightarrow> rstr \<Rightarrow> rstr" where
  "normalize uc text =
     join [32] (split_whitespace
       (map (\<lambda>c. if is_alphanumeric uc c then c else 32)
          (map (\<lambda>c. if c = 1105 then 1077 else c) (to_lowercase uc text))))"

definition intro_prefixes :: "rstr list" where
  "intro_prefixes = [cyr ''|to '', cyr ''q '', cyr ''menq zowut '', cyr ''goworit '']"

definition forget_phrases :: "rstr list" where
  "forget_phrases = [cyr ''zabudx'', cyr ''zabudx wse'', cyr ''sbrosx kontekst'', cyr ''na~ni sna~ala'']"

definition usage_phrases :: "rstr list" where
  "usage_phrases = [cyr ''skolxko potratili'', cyr ''skolxko my potratili'', cyr ''statistika'', cyr ''rashody'']"

definition who_phrases :: "rstr list" where
  "who_phrases = [cyr ''kto q'', cyr ''s kem ty gowori{x'']"

definition exit_phrases :: "rstr list" where
  "exit_phrases = [cyr ''hwatit'', cyr ''wyjdi iz revima'', cyr ''oby~nyj revim'']"

definition help_phrases :: "rstr list" where
  "help_phrases = [cyr ''pomo}x'', cyr ''sprawka'', cyr ''~to ty umee{x'']"

definition think_prefixes :: "rstr list" where
  "think_prefixes = [cyr ''podumaj kak sleduet'', cyr ''podumaj horo{enxko'', cyr ''podumaj krepko'']"

fun introduction :: "unicode \<Rightarrow> family_roster \<Rightarrow> rstr \<Rightarrow> rstr list \<Rightarrow> rstr option" where
  "introduction uc roster norm [] = None"
| "introduction uc roster norm (prfx # prfxs) =
     (case strip_prefix norm prfx of
        None \<Rightarrow> introduction uc roster norm prfxs
      | Some rest \<Rightarrow>
          (case find_by_alias uc roster rest of
             Some p \<Rightarrow> Some (pf_name p)
           | None \<Rightarrow> introduction uc roster norm prfxs))"

definition phrase_command :: "rstr \<Rightarrow> command option" where
  "phrase_command norm =
     (if norm \<in> set forget_phrases then Some Forget
      else if norm \<in> set usage_phrases then Some UsageStats
      else if norm \<in> set who_phrases then Some WhoAmI
      else if norm \<in> set exit_phrases then Some ExitMode
      else if norm \<in> set help_phrases then Some Help
      else None)"

fun find_map :: "('a \<Rightarrow> 'b option) \<Rightarrow> 'a list \<Rightarrow> 'b option" where
  "find_map f [] = None"
| "find_map f (x # xs) = (case f x of Some y \<Rightarrow> Some y | None \<Rightarrow> find_map f xs)"

definition window_command :: "rstr \<Rightarrow> usize option" where
  "window_command norm =
     (if starts_with norm (cyr ''pomni poslednie'') \<or> starts_with norm (cyr ''zapominaj poslednie'')
      then find_map parse_usize (split_whitespace norm) else None)"

definition model_command :: "rstr \<Rightarrow> command option" where
  "model_command norm =
     (if str_contains norm (cyr ''umnu` modelx'') \<or> str_contains norm (cyr ''umnaq modelx'')
      then Some UseSmartModel
      else if str_contains norm (cyr ''bystru` modelx'') \<or> str_contains norm (cyr ''bystraq modelx'') \<or>
              str_contains norm (cyr ''modelx na bystru`'')
      then Some UseFastModel
      else None)"

definition mode_command :: "unicode \<Rightarrow> mode list \<Rightarrow> rstr \<Rightarrow> rstr option" where
  "mode_command uc modes norm =
     map_option md_name (find (\<lambda>m. list_ex (\<lambda>trigger.
       let trigger = normalize uc trigger in norm = trigger \<or> starts_with norm (trigger @ [32])) (md_triggers m)) modes)"

fun think_rest :: "rstr \<Rightarrow> rstr list \<Rightarrow> rstr option" where
  "think_rest norm [] = None"
| "think_rest norm (prfx # prfxs) =
     (case strip_prefix norm prfx of Some rest \<Rightarrow> Some rest | None \<Rightarrow> think_rest norm prfxs)"

text \<open>The commands of an utterance, by its normal form.\<close>

definition command_of :: "unicode \<Rightarrow> family_roster \<Rightarrow> mode list \<Rightarrow> rstr \<Rightarrow> command option" where
  "command_of uc roster modes norm =
     (if norm = [] then Some Help
      else case introduction uc roster norm intro_prefixes of
        Some name \<Rightarrow> Some (Introduce name)
      | None \<Rightarrow> (case phrase_command norm of
        Some c \<Rightarrow> Some c
      | None \<Rightarrow> (case window_command norm of
        Some n \<Rightarrow> Some (SetWindow n)
      | None \<Rightarrow> (case model_command norm of
        Some c \<Rightarrow> Some c
      | None \<Rightarrow> map_option EnterMode (mode_command uc modes norm)))))"

definition parse :: "unicode \<Rightarrow> rstr \<Rightarrow> family_roster \<Rightarrow> mode list \<Rightarrow> parsed" where
  "parse uc utterance roster modes =
     (let norm = normalize uc utterance
      in case command_of uc roster modes norm of
           Some c \<Rightarrow> ParsedCommand c
         | None \<Rightarrow>
             (case think_rest norm think_prefixes of
                Some rest \<Rightarrow>
                  (let rest = trim rest
                   in Ask (if rest = [] then trim utterance else rest) True)
              | None \<Rightarrow> Ask (trim utterance) False))"

subsection \<open>Words\<close>

definition is_word :: "rstr \<Rightarrow> bool" where
  "is_word w \<longleftrightarrow> w \<noteq> [] \<and> list_all (\<lambda>c. \<not> is_whitespace c) w"

lemma split_on_Cons_ex: "\<exists>w ws. split_on P s = w # ws"
  by (induction s) (auto split: list.splits)

lemma split_on_no_sep: "list_all (\<lambda>c. \<not> P c) w \<Longrightarrow> split_on P w = [w]"
  by (induction w) auto

lemma split_on_word_sep:
  assumes "list_all (\<lambda>c. \<not> P c) w" and "P x"
  shows "split_on P (w @ x # s) = w # split_on P s"
  using assms
proof (induction w)
  case (Cons c w)
  then show ?case by simp
qed simp

lemma split_whitespace_join: "list_all is_word ws \<Longrightarrow> split_whitespace (join [32] ws) = ws"
proof (induction "[32::int]" ws rule: join.induct)
  case 1
  then show ?case by (simp add: split_whitespace_def)
next
  case (2 w)
  then show ?case by (simp add: split_whitespace_def split_on_no_sep is_word_def)
next
  case (3 w v ws)
  have "is_whitespace 32" by (simp add: is_whitespace_def)
  with 3 show ?case by (simp add: split_whitespace_def split_on_word_sep is_word_def)
qed

lemma split_on_parts: "w \<in> set (split_on P s) \<Longrightarrow> c \<in> set w \<Longrightarrow> c \<in> set s \<and> \<not> P c"
proof (induction s arbitrary: w)
  case (Cons d s)
  obtain v vs where v: "split_on P s = v # vs" using split_on_Cons_ex by blast
  show ?case
  proof (cases "P d")
    case True
    with Cons show ?thesis by auto
  next
    case False
    with Cons.prems v have "w = d # v \<or> w \<in> set vs" by auto
    with Cons.IH [of v] Cons.IH [of w] Cons.prems v False show ?thesis by auto
  qed
qed simp

lemma split_whitespace_words: "list_all is_word (split_whitespace s)"
  by (auto simp: split_whitespace_def list_all_iff is_word_def dest: split_on_parts)

lemma split_whitespace_chars: "w \<in> set (split_whitespace s) \<Longrightarrow> c \<in> set w \<Longrightarrow> c \<in> set s \<and> \<not> is_whitespace c"
  by (auto simp: split_whitespace_def dest: split_on_parts)

lemma set_join: "c \<in> set (join sep ws) \<Longrightarrow> c \<in> set sep \<or> (\<exists>w \<in> set ws. c \<in> set w)"
  by (induction sep ws rule: join.induct) auto

lemma split_whitespace_empty: "split_whitespace s = [] \<longleftrightarrow> list_all is_whitespace s"
proof
  assume "split_whitespace s = []"
  then show "list_all is_whitespace s"
  proof (induction s)
    case (Cons c s)
    obtain v vs where v: "split_on is_whitespace s = v # vs" using split_on_Cons_ex by blast
    with Cons show ?case by (auto simp: split_whitespace_def split: if_splits)
  qed simp
next
  assume "list_all is_whitespace s"
  then show "split_whitespace s = []" by (induction s) (auto simp: split_whitespace_def)
qed

lemma join_empty: "list_all is_word ws \<Longrightarrow> join sep ws = [] \<Longrightarrow> ws = []"
  by (induction sep ws rule: join.induct) (auto simp: is_word_def)

subsection \<open>The normal form\<close>

text \<open>What \<open>normalize\<close> makes of one lowered character.\<close>

definition fold_char :: "unicode \<Rightarrow> rchar \<Rightarrow> rchar" where
  "fold_char uc c = (let d = (if c = 1105 then 1077 else c) in if is_alphanumeric uc d then d else 32)"

lemma normalize_fold:
  "normalize uc s = join [32] (split_whitespace (map (fold_char uc) (to_lowercase uc s)))"
  by (simp add: normalize_def fold_char_def [abs_def] comp_def Let_def)

text \<open>The characters of a normal form.\<close>

definition normal_char :: "unicode \<Rightarrow> rchar \<Rightarrow> bool" where
  "normal_char uc c \<longleftrightarrow> c = 32 \<or> (is_alphanumeric uc c \<and> c \<noteq> 1105 \<and> to_lowercase uc [c] = [c])"

context unicode_db
begin

lemma fold_char_normal: "c \<in> set (to_lowercase uc s) \<Longrightarrow> normal_char uc (fold_char uc c)"
  using lower_output_fixed [of c s] lower_ie by (auto simp: fold_char_def normal_char_def Let_def)

lemma normal_char_fixed: "normal_char uc c \<Longrightarrow> fold_char uc c = c \<and> to_lowercase uc [c] = [c]"
  using ws_not_alphanumeric [of 32] lower_space
  by (auto simp: fold_char_def normal_char_def Let_def is_whitespace_def)

lemma normalize_chars:
  assumes "c \<in> set (normalize uc s)"
  shows "normal_char uc c"
proof -
  from set_join [OF assms [unfolded normalize_fold]] consider "c = 32"
    | w where "w \<in> set (split_whitespace (map (fold_char uc) (to_lowercase uc s)))" "c \<in> set w" by auto
  then show ?thesis
  proof cases
    case 1
    then show ?thesis by (simp add: normal_char_def)
  next
    case 2
    from split_whitespace_chars [OF this] obtain d where "d \<in> set (to_lowercase uc s)" "c = fold_char uc d" by auto
    then show ?thesis using fold_char_normal by simp
  qed
qed

lemma normalize_fixed:
  assumes "list_all is_word ws" and "\<And>c. c \<in> set (join [32] ws) \<Longrightarrow> normal_char uc c"
  shows "normalize uc (join [32] ws) = join [32] ws"
proof -
  have "to_lowercase uc (join [32] ws) = join [32] ws"
    using assms(2) normal_char_fixed by (rule_tac lower_fixed) blast
  moreover have "map (fold_char uc) (join [32] ws) = join [32] ws"
    using assms(2) normal_char_fixed by (intro map_idI) blast
  ultimately show ?thesis
    unfolding normalize_fold by (simp only: split_whitespace_join [OF assms(1)])
qed

lemma normalize_idem: "normalize uc (normalize uc s) = normalize uc s"
proof -
  define ws where "ws = split_whitespace (map (fold_char uc) (to_lowercase uc s))"
  have n: "normalize uc s = join [32] ws" by (simp add: normalize_fold ws_def)
  have "list_all is_word ws" by (simp add: ws_def split_whitespace_words)
  then have "normalize uc (join [32] ws) = join [32] ws"
    by (rule normalize_fixed) (use normalize_chars n in metis)
  then show ?thesis by (simp only: n)
qed

lemma normalize_whitespace:
  assumes "list_all is_whitespace s"
  shows "normalize uc s = []"
proof -
  have "to_lowercase uc s = s"
    using assms lower_whitespace by (rule_tac lower_fixed) (auto simp: list_all_iff)
  moreover have "fold_char uc c = 32" if "c \<in> set s" for c
    using that assms ws_not_alphanumeric [of c]
    by (auto simp: list_all_iff is_whitespace_def fold_char_def Let_def)
  then have "list_all is_whitespace (map (fold_char uc) s)" by (auto simp: list_all_iff is_whitespace_def)
  ultimately show ?thesis by (simp add: normalize_fold split_whitespace_empty [THEN iffD2])
qed

lemma normalize_nonempty: "normalize uc s \<noteq> [] \<Longrightarrow> trim s \<noteq> []"
  using normalize_whitespace trim_empty_iff by blast

end

subsection \<open>What a parsed utterance can be\<close>

lemma position_Some: "position P xs = Some i \<Longrightarrow> i < length xs \<and> P (xs ! i) \<and> (\<forall>j < i. \<not> P (xs ! j))"
proof (induction xs arbitrary: i)
  case (Cons x xs)
  then show ?case by (cases i) (auto split: if_splits simp: nth_Cons less_Suc_eq_0_disj)
qed simp

lemma position_None: "position P xs = None \<longleftrightarrow> (\<forall>x \<in> set xs. \<not> P x)"
  by (induction xs) auto

definition roster_names :: "family_roster \<Rightarrow> rstr set" where
  "roster_names roster = pf_name ` set (fr_profiles roster)"

lemma roster_get_iff: "(\<exists>p. roster_get roster name = Some p) \<longleftrightarrow> name \<in> roster_names roster"
proof -
  have "(\<exists>p. roster_get roster name = Some p) \<longleftrightarrow> roster_get roster name \<noteq> None" by simp
  also have "\<dots> \<longleftrightarrow> (\<exists>p \<in> set (fr_profiles roster). pf_name p = name)"
    by (auto simp: roster_get_def find_None_iff)
  finally show ?thesis by (auto simp: roster_names_def)
qed

lemma introduction_name: "introduction uc roster norm prfxs = Some name \<Longrightarrow> name \<in> roster_names roster"
  by (induction prfxs)
     (auto simp: find_by_alias_def Let_def roster_names_def split: option.splits dest!: find_in_set)

lemma mode_command_name: "mode_command uc modes norm = Some name \<Longrightarrow> name \<in> md_name ` set modes"
  by (auto simp: mode_command_def dest!: find_in_set)

lemma find_map_Some: "find_map f xs = Some y \<Longrightarrow> \<exists>x \<in> set xs. f x = Some y"
  by (induction xs) (auto split: option.splits)

lemma parse_usize_range: "parse_usize s = Some n \<Longrightarrow> n \<le> usize_max"
  by (auto simp: parse_usize_def split: option.splits if_splits)

lemma command_of_cases:
  assumes "command_of uc roster modes norm = Some c"
  shows "(\<forall>name. c = Introduce name \<longrightarrow> name \<in> roster_names roster) \<and>
         (\<forall>name. c = EnterMode name \<longrightarrow> name \<in> md_name ` set modes) \<and>
         (\<forall>n. c = SetWindow n \<longrightarrow> n \<le> usize_max)"
proof -
  have p: "phrase_command norm = Some d \<Longrightarrow> d \<in> {Forget, UsageStats, WhoAmI, ExitMode, Help}" for d
    by (auto simp: phrase_command_def split: if_splits)
  have m: "model_command norm = Some d \<Longrightarrow> d \<in> {UseSmartModel, UseFastModel}" for d
    by (auto simp: model_command_def split: if_splits)
  have w: "window_command norm = Some n \<Longrightarrow> n \<le> usize_max" for n
    by (auto simp: window_command_def dest!: find_map_Some parse_usize_range split: if_splits)
  from assms show ?thesis
    unfolding command_of_def
    by (auto dest: introduction_name mode_command_name p m w split: if_splits option.splits)
qed

text \<open>
  C27. Whatever is said, a parsed introduction names a member of the family, a mode is one of
  the configured modes, a window is a machine integer, and the text of a question is
  never empty.
\<close>

theorem parse_sound:
  assumes "unicode_db uc"
  shows "(\<forall>name. parse uc utterance roster modes = ParsedCommand (Introduce name) \<longrightarrow> name \<in> roster_names roster) \<and>
         (\<forall>name. parse uc utterance roster modes = ParsedCommand (EnterMode name) \<longrightarrow> name \<in> md_name ` set modes) \<and>
         (\<forall>n. parse uc utterance roster modes = ParsedCommand (SetWindow n) \<longrightarrow> n \<le> usize_max) \<and>
         (\<forall>q hard. parse uc utterance roster modes = Ask q hard \<longrightarrow> q \<noteq> [])"
proof -
  let ?n = "normalize uc utterance"
  have "command_of uc roster modes ?n = None \<Longrightarrow> ?n \<noteq> []" by (auto simp: command_of_def)
  then have t: "command_of uc roster modes ?n = None \<Longrightarrow> trim utterance \<noteq> []"
    using unicode_db.normalize_nonempty [OF assms] by blast
  show ?thesis
    using command_of_cases [of uc roster modes ?n] t
    by (auto simp: parse_def Let_def split: option.splits)
qed

theorem parse_sound_witness:
  "parse basic_unicode (asc ''2+2?'') \<lparr>fr_profiles = [], fr_default_index = 0\<rparr> [] = Ask (asc ''2+2?'') False \<and>
   asc ''2+2?'' \<noteq> []"
proof -
  have p: "parse basic_unicode (asc ''2+2?'') \<lparr>fr_profiles = [], fr_default_index = 0\<rparr> [] = Ask (asc ''2+2?'') False"
    by code_simp
  with parse_sound [OF basic.unicode_db_axioms, of "asc ''2+2?''" "\<lparr>fr_profiles = [], fr_default_index = 0\<rparr>" "[]"]
  show ?thesis by blast
qed

subsection \<open>Transcriptions\<close>

text \<open>
  One change that a voice transcription may make to a text: the case of a letter, the letter yo written as ie, a
  character that is no letter and no digit (a mark or any white space) for a space, a space doubled, a space at either
  end. Two texts are transcriptions of each other when such changes, made or undone one after the other, lead from
  one to the other. The capital sigma is left out: its lower case depends on the characters around it.
\<close>

inductive rewritten :: "unicode \<Rightarrow> rstr \<Rightarrow> rstr \<Rightarrow> bool" for uc where
  lower_case: "rewritten uc (a @ [c] @ b) (a @ to_lowercase uc [c] @ b)"
| yo: "rewritten uc (a @ [1105] @ b) (a @ [1077] @ b)"
| mark: "\<not> is_alphanumeric uc c \<Longrightarrow> rewritten uc (a @ [c] @ b) (a @ [32] @ b)"
| spaces: "rewritten uc (a @ [32, 32] @ b) (a @ [32] @ b)"
| space_before: "rewritten uc (32 # b) b"
| space_after: "rewritten uc (a @ [32]) a"

definition retold :: "unicode \<Rightarrow> rstr \<Rightarrow> rstr \<Rightarrow> bool" where
  "retold uc u v \<longleftrightarrow> (rewritten uc u v \<or> rewritten uc v u) \<and> 931 \<notin> set u \<union> set v"

text \<open>
  What the tables say beyond \<open>unicode_db\<close>: only the capital sigma is lowered by its context, what has a
  lower case of its own is a letter, and so is yo.
\<close>

locale transcription_db = unicode_db +
  assumes lower_append: "931 \<notin> set (s @ t) \<Longrightarrow> to_lowercase uc (s @ t) = to_lowercase uc s @ to_lowercase uc t"
    and lower_mark: "\<not> is_alphanumeric uc c \<Longrightarrow> to_lowercase uc [c] = [c]"
    and lower_yo: "to_lowercase uc [1105] = [1105]"
    and yo_letter: "is_alphanumeric uc 1105"

interpretation basic_transcription: transcription_db basic_unicode
  by unfold_locales (auto simp: basic_unicode_def basic_alphanumeric_def basic_lower_def is_ascii_alphanumeric_def)

lemma split_on_sep: "P x \<Longrightarrow> split_on P (s @ x # t) = split_on P s @ split_on P t"
proof (induction s)
  case (Cons c s)
  obtain w ws where "split_on P s = w # ws" using split_on_Cons_ex by blast
  with Cons show ?case by simp
qed simp

lemma split_whitespace_sep: "is_whitespace x \<Longrightarrow> split_whitespace (s @ x # t) = split_whitespace s @ split_whitespace t"
  by (simp add: split_whitespace_def split_on_sep)

lemma split_whitespace_spaces [simp]:
  "split_whitespace (s @ 32 # 32 # t) = split_whitespace (s @ 32 # t)" "split_whitespace (32 # t) = split_whitespace t"
  "split_whitespace (s @ [32]) = split_whitespace s"
proof -
  have w: "is_whitespace 32" by (simp add: is_whitespace_def)
  have e: "split_whitespace [] = []" by (simp add: split_whitespace_def)
  show t: "split_whitespace (32 # t) = split_whitespace t" for t
    using split_whitespace_sep [OF w, of "[]" t] e by simp
  show "split_whitespace (s @ 32 # 32 # t) = split_whitespace (s @ 32 # t)" by (simp add: split_whitespace_sep [OF w] t)
  show "split_whitespace (s @ [32]) = split_whitespace s" using split_whitespace_sep [OF w, of s "[]"] e by simp
qed

context transcription_db
begin

lemma fold_space: "fold_char uc 32 = 32"
  using ws_not_alphanumeric [of 32] by (simp add: fold_char_def is_whitespace_def)

lemma fold_mark: "\<not> is_alphanumeric uc c \<Longrightarrow> fold_char uc c = 32"
  using yo_letter by (auto simp: fold_char_def Let_def)

lemma fold_yo: "fold_char uc 1105 = fold_char uc 1077"
  by (simp add: fold_char_def)

lemma lower_middle:
  "931 \<notin> set (a @ c # b) \<Longrightarrow> to_lowercase uc (a @ c # b) = to_lowercase uc a @ to_lowercase uc [c] @ to_lowercase uc b"
  using lower_append [of a "c # b"] lower_append [of "[c]" b] by simp

lemma lower_cons: "931 \<notin> set (c # b) \<Longrightarrow> to_lowercase uc (c # b) = to_lowercase uc [c] @ to_lowercase uc b"
  using lower_append [of "[c]" b] by simp

lemma normalize_rewritten:
  assumes "rewritten uc u v" and "931 \<notin> set u" and "931 \<notin> set v"
  shows "normalize uc u = normalize uc v"
  using assms
proof cases
  case (lower_case a c b)
  have "to_lowercase uc u = to_lowercase uc a @ to_lowercase uc [c] @ to_lowercase uc b"
    using assms(2) lower_case(1) lower_middle by simp
  moreover have "to_lowercase uc v = to_lowercase uc a @ to_lowercase uc [c] @ to_lowercase uc b"
    using assms(3) lower_case(2) lower_append [of a "to_lowercase uc [c] @ b"] lower_append [of "to_lowercase uc [c]" b]
    by (simp add: lower_idem)
  ultimately show ?thesis by (simp add: normalize_fold)
next
  case (yo a b)
  with assms(2,3) show ?thesis by (simp add: normalize_fold lower_middle lower_yo lower_ie fold_yo)
next
  case (mark c a b)
  with assms(2,3) show ?thesis by (simp add: normalize_fold lower_middle lower_mark lower_space fold_mark fold_space)
next
  case (spaces a b)
  with assms(2,3) lower_cons [of 32 b] show ?thesis
    by (simp add: normalize_fold lower_middle lower_space fold_space)
next
  case space_before
  with assms(2,3) lower_cons [of 32 v] show ?thesis by (simp add: normalize_fold lower_space fold_space)
next
  case space_after
  with assms(2,3) show ?thesis by (simp add: normalize_fold lower_append lower_space fold_space)
qed

lemma normalize_retold: "(retold uc)\<^sup>*\<^sup>* u v \<Longrightarrow> normalize uc u = normalize uc v"
proof (induction rule: rtranclp_induct)
  case (step v w)
  then show ?case using normalize_rewritten [of v w] normalize_rewritten [of w v] by (auto simp: retold_def)
qed simp

end

text \<open>
  C28. Commands are recognised up to transcription: letter case, punctuation, spacing and the letter yo do not matter.
  Two utterances that such changes turn into each other are the same command or neither is one; and every utterance
  is the command that its normal form is.
\<close>

theorem parse_up_to_transcription:
  assumes "transcription_db uc" and "(retold uc)\<^sup>*\<^sup>* u v"
  shows "(parse uc u roster modes = ParsedCommand c \<longleftrightarrow> parse uc v roster modes = ParsedCommand c) \<and>
         (parse uc (normalize uc u) roster modes = ParsedCommand c \<longleftrightarrow> parse uc u roster modes = ParsedCommand c)"
proof -
  have "unicode_db uc" using assms(1) by (rule transcription_db.axioms(1))
  from transcription_db.normalize_retold [OF assms] unicode_db.normalize_idem [OF this, of u] show ?thesis
    by (auto simp: parse_def Let_def split: option.splits)
qed

text \<open>Said with yo and a full stop.\<close>

lemma retold_yo_stop:
  assumes "931 \<notin> set a"
  shows "(retold basic_unicode)\<^sup>*\<^sup>* (a @ [1077]) (a @ [1105, 46])"
proof -
  have "\<not> is_alphanumeric basic_unicode 46" by code_simp
  then have "retold basic_unicode (a @ [1077]) (a @ [1105])" "retold basic_unicode (a @ [1105]) (a @ [1105, 32])"
    "retold basic_unicode (a @ [1105, 32]) (a @ [1105, 46])"
    using assms yo [of basic_unicode a "[]"] space_after [of basic_unicode "a @ [1105]"]
      mark [of basic_unicode 46 "a @ [1105]" "[]"] by (simp_all add: retold_def)
  then show ?thesis by (meson converse_rtranclp_into_rtranclp rtranclp.rtrancl_refl)
qed

lemma demo_retold: "(retold basic_unicode)\<^sup>*\<^sup>* (cyr ''zabudx wse'') (cyr ''zabudx ws#.'')"
proof -
  have e: "cyr ''zabudx wse'' = cyr ''zabudx ws'' @ [1077]" "cyr ''zabudx ws#.'' = cyr ''zabudx ws'' @ [1105, 46]"
    by code_simp+
  show ?thesis unfolding e by (rule retold_yo_stop) code_simp
qed

theorem parse_up_to_transcription_witness:
  "parse basic_unicode (cyr ''zabudx ws#.'') \<lparr>fr_profiles = [], fr_default_index = 0\<rparr> [] = ParsedCommand Forget"
proof -
  have "parse basic_unicode (cyr ''zabudx wse'') \<lparr>fr_profiles = [], fr_default_index = 0\<rparr> [] = ParsedCommand Forget"
    by code_simp
  with parse_up_to_transcription [OF basic_transcription.transcription_db_axioms demo_retold] show ?thesis by blast
qed

lemma set_trim: "set (trim s) \<subseteq> set s"
  by (auto simp: trim_def trim_end_def trim_end_matches_def dest!: set_dropWhileD)

lemma introduction_without_yo:
  assumes "introduction uc roster norm prfxs = Some name" and "1105 \<notin> set norm"
  shows "\<exists>p \<in> set (fr_profiles roster). pf_name p = name \<and>
           (1105 \<notin> set (to_lowercase uc (pf_name p)) \<or> (\<exists>a \<in> set (pf_aliases p). 1105 \<notin> set a))"
  using assms(1)
proof (induction prfxs)
  case (Cons prfx prfxs)
  show ?case
  proof (cases "\<exists>rest p. strip_prefix norm prfx = Some rest \<and> find_by_alias uc roster rest = Some p")
    case True
    then obtain rest p where sp: "strip_prefix norm prfx = Some rest" "find_by_alias uc roster rest = Some p"
      by blast
    have r: "norm = prfx @ rest" "find_by_alias uc roster rest = Some p" using sp by (simp_all add: strip_prefix_Some)
    have r3: "pf_name p = name" using Cons.prems sp by simp
    have "1105 \<notin> set (trim rest)" using r(1) assms(2) set_trim [of rest] by auto
    moreover have "p \<in> set (fr_profiles roster)"
      "to_lowercase uc (pf_name p) = trim rest \<or> list_ex (\<lambda>a. a = trim rest) (pf_aliases p)"
      using r(2) by (auto simp: find_by_alias_def Let_def dest!: find_in_set)
    ultimately show ?thesis using r3 by (auto simp: list_ex_iff)
  next
    case False
    then have "introduction uc roster norm prfxs = Some name"
      using Cons.prems by (auto split: option.splits)
    then show ?thesis by (rule Cons.IH)
  qed
qed simp

text \<open>
  A family member whose name has the letter yo cannot be introduced by the name: the
  utterance is folded to ye before the comparison, the name and the aliases are not. Unless
  the configuration gives an alias without the letter, no utterance at all introduces
  this member.
\<close>

theorem yo_name_not_introduced:
  assumes "unicode_db uc"
    and "\<And>p. p \<in> set (fr_profiles roster) \<Longrightarrow> pf_name p = name \<Longrightarrow>
           1105 \<in> set (to_lowercase uc (pf_name p)) \<and> (\<forall>a \<in> set (pf_aliases p). 1105 \<in> set a)"
  shows "parse uc utterance roster modes \<noteq> ParsedCommand (Introduce name)"
proof -
  let ?n = "normalize uc utterance"
  have "1105 \<notin> set ?n"
    using unicode_db.normalize_chars [OF assms(1), of 1105 utterance] by (auto simp: normal_char_def)
  then have "introduction uc roster ?n prfxs \<noteq> Some name" for prfxs
    using introduction_without_yo assms(2) by blast
  moreover have "phrase_command norm \<noteq> Some (Introduce name)" "model_command norm \<noteq> Some (Introduce name)" for norm
    by (auto simp: phrase_command_def model_command_def)
  ultimately have "command_of uc roster modes ?n \<noteq> Some (Introduce name)"
    by (auto simp: command_of_def split: option.splits)
  then show ?thesis by (auto simp: parse_def Let_def split: option.splits)
qed

theorem yo_name_not_introduced_witness:
  "parse basic_unicode (cyr ''|to Art#m'')
     \<lparr>fr_profiles = [\<lparr>pf_name = cyr ''Art#m'', pf_aliases = [], pf_birthday = None, pf_role = Adult, pf_persona = []\<rparr>],
      fr_default_index = 0\<rparr> [] \<noteq> ParsedCommand (Introduce (cyr ''Art#m''))"
proof (rule yo_name_not_introduced [OF basic.unicode_db_axioms])
  have "1105 \<in> set (to_lowercase basic_unicode (cyr ''Art#m''))" by code_simp
  then show "1105 \<in> set (to_lowercase basic_unicode (pf_name p)) \<and> (\<forall>a \<in> set (pf_aliases p). 1105 \<in> set a)"
    if "p \<in> set (fr_profiles \<lparr>fr_profiles = [\<lparr>pf_name = cyr ''Art#m'', pf_aliases = [], pf_birthday = None,
          pf_role = Adult, pf_persona = []\<rparr>], fr_default_index = 0\<rparr>)" for p
    using that by simp
qed

end
