(* ===== verification/Prompt.thy ===== *)
theory Prompt
  imports Command
begin

section \<open>Fixed phrases and the system prompt\<close>

text \<open>
  Model of \<^verbatim>\<open>crates/bridge-core/src/phrases.rs\<close> and \<^verbatim>\<open>prompt.rs\<close>. What the calendar crate
  computes (completed years, the printed date) is the parameter \<open>calendar\<close>.
\<close>

record calendar =
  years_since :: "naive_date \<Rightarrow> naive_date \<Rightarrow> nat option"
  show_date :: "naive_date \<Rightarrow> rstr"
  first_of_month :: "naive_date \<Rightarrow> naive_date"

definition PHRASE_THINKING_STARTED :: rstr where
  "PHRASE_THINKING_STARTED =
     cyr ''Horo{ij wopros, mne nuvno nemnogo podumatx. Sprosi menq ~erez paru sekund: nu '' @
     cyr ''~to tam?''"

definition PHRASE_STILL_THINKING :: rstr where
  "PHRASE_STILL_THINKING =
     cyr ''E}# duma`, sprosi ~utx pozve.''"

definition PHRASE_INTERNAL_ERROR :: rstr where
  "PHRASE_INTERNAL_ERROR =
     cyr ''Oj, u menq ~to-to slomalosx. Poprobuj e}# raz.''"

definition PHRASE_PROVIDER_TIMEOUT :: rstr where
  "PHRASE_PROVIDER_TIMEOUT =
     cyr ''Modelx otwe~aet sli{kom dolgo. Poprobuj e}# raz.''"

definition PHRASE_RATE_LIMITED :: rstr where
  "PHRASE_RATE_LIMITED =
     cyr ''Prowajder prosit peredy{ku. Poprobuj ~erez minutku.''"

definition PHRASE_AUTH_FAILED :: rstr where
  "PHRASE_AUTH_FAILED =
     cyr ''Ne polu~aetsq awtorizowatxsq u prowajdera. Prowerx kl`~ w nastrojkah.''"

definition PHRASE_PROVIDER_ERROR :: rstr where
  "PHRASE_PROVIDER_ERROR =
     cyr ''^to-to po{lo ne tak na storone modeli. Poprobuj e}# raz.''"

definition HELP_TEXT :: rstr where
  "HELP_TEXT =
     [1071] @ cyr '' pereda` twoi woprosy nejroseti. Skavi <|to> i swo# imq, ~toby q znala, kto '' @
     cyr ''goworit. <Zabudx ws#> = o~istitx pamqtx. <Pomni poslednie desqtx replik> = '' @
     cyr ''glubina konteksta. <Perekl`~isx na umnu` modelx> = dlq slovnyh woprosow. '' @
     cyr ''<Skolxko potratili> = statistika. Ili prosto zadaj l`boj wopros.''"

record prompt_context =
  pc_today :: naive_date
  pc_profile :: profile
  pc_roster :: family_roster
  pc_mode :: "mode option"
  pc_summary :: "rstr option"

definition speaker_line :: "calendar \<Rightarrow> prompt_context \<Rightarrow> rstr" where
  "speaker_line cal ctx =
     (let speaker = pc_profile ctx
      in case age_on (years_since cal) speaker (pc_today ctx) of
           Some age \<Rightarrow>
             cyr ''Sej~as s toboj goworit '' @ pf_name speaker @ asc '' ('' @ show_nat age @
             cyr '' let). '' @ pf_persona speaker @ [10]
         | None \<Rightarrow>
             cyr ''Sej~as s toboj goworit '' @ pf_name speaker @ asc ''. '' @ pf_persona speaker @ [10])"

definition child_line :: "profile_role \<Rightarrow> rstr" where
  "child_line r =
     (if r = Child then
        cyr ''Sobesednik = rebenok: otwe~aj berevno, prostymi slowami, bez wzroslyh i '' @
        cyr ''puga`}ih tem.'' @ [10]
      else [])"

definition family_member :: "calendar \<Rightarrow> profile \<Rightarrow> rstr" where
  "family_member cal p =
     (case pf_birthday p of
        Some birthday \<Rightarrow> pf_name p @ cyr '' (denx rovdeniq '' @ show_date cal birthday @ asc '')''
      | None \<Rightarrow> pf_name p)"

definition build_system_prompt :: "calendar \<Rightarrow> prompt_context \<Rightarrow> rstr" where
  "build_system_prompt cal ctx =
     cyr ''Ty = golosowoj pomo}nik semxi, otwe~ae{x ~erez umnu` kolonku. Otwe~aj kratko, '' @
     cyr ''odnim-tremq predloveniqmi, bez spiskow, bez '' @ asc ''markdown '' @
     cyr ''i bez |modzi: tekst budet ozwu~en wsluh.'' @ [10] @
     cyr ''Segodnq '' @ show_date cal (pc_today ctx) @ asc ''.'' @ [10] @
     speaker_line cal ctx @
     child_line (pf_role (pc_profile ctx)) @
     cyr ''Semxq: '' @ join (asc '', '') (map (family_member cal) (fr_profiles (pc_roster ctx))) @ asc ''.'' @ [10] @
     (case pc_mode ctx of Some m \<Rightarrow> cyr ''Teku}ij revim: '' @ md_prompt m @ [10] | None \<Rightarrow> []) @
     (case pc_summary ctx of
        Some su \<Rightarrow> cyr ''Kratkaq pamqtx o pro{lyh razgoworah: '' @ su @ [10]
      | None \<Rightarrow> [])"

end
