(* ===== verification/Provider.thy ===== *)
theory Provider
  imports Rust_Str
begin

section \<open>Chat providers and model presets\<close>

text \<open>
  Model of the crate \<^verbatim>\<open>crates/llm-providers\<close> (\<^verbatim>\<open>types.rs\<close>, \<^verbatim>\<open>error.rs\<close>, \<^verbatim>\<open>openai.rs\<close>) and of
  \<^verbatim>\<open>crates/bridge-core/src/model.rs\<close>. What an HTTP attempt ends with belongs to the network:
  the world is the list of the coming outcomes and the log of the requests that were sent.
  Floating-point numbers are kept as their bits; the operations the source uses of them are
  the parameter \<open>float_ops\<close>.
\<close>

type_synonym f64 = nat
type_synonym u32 = nat

record float_ops =
  f64_of_nat :: "nat \<Rightarrow> f64"
  f64_of_int :: "int \<Rightarrow> f64"
  f64_mul :: "f64 \<Rightarrow> f64 \<Rightarrow> f64"
  f64_add :: "f64 \<Rightarrow> f64 \<Rightarrow> f64"
  f64_div :: "f64 \<Rightarrow> f64 \<Rightarrow> f64"
  f64_round :: "f64 \<Rightarrow> f64"
  f64_as_i64 :: "f64 \<Rightarrow> i64"
  f64_show2 :: "f64 \<Rightarrow> rstr"

datatype role = System | User | Assistant

record chat_message =
  cm_role :: role
  cm_content :: rstr

definition chat_system :: "rstr \<Rightarrow> chat_message" where
  "chat_system content = \<lparr>cm_role = System, cm_content = content\<rparr>"

definition chat_user :: "rstr \<Rightarrow> chat_message" where
  "chat_user content = \<lparr>cm_role = User, cm_content = content\<rparr>"

definition chat_assistant :: "rstr \<Rightarrow> chat_message" where
  "chat_assistant content = \<lparr>cm_role = Assistant, cm_content = content\<rparr>"

record chat_request =
  cr_model :: rstr
  cr_messages :: "chat_message list"
  cr_max_tokens :: u32
  cr_temperature :: f64

record token_usage =
  prompt_tokens :: u32
  completion_tokens :: u32

record chat_completion =
  cc_text :: rstr
  cc_usage :: token_usage

datatype provider_error =
    Timeout
  | RateLimited
  | Auth
  | Api nat rstr
  | Network rstr
  | InvalidResponse rstr

subsection \<open>The HTTP client\<close>

record api_response =
  ar_choices :: "rstr list"
  ar_usage :: "token_usage option"

text \<open>A transport error, by whether it is a timeout; or a status, the body when it can
  be read, and the body parsed as the response.\<close>

datatype http_outcome =
    Transport bool rstr
  | Response nat "rstr option" "(api_response, rstr) result"

record http_world =
  hw_outcomes :: "http_outcome list"
  hw_sent :: "(rstr \<times> rstr \<times> chat_request) list"

record openai_client =
  oc_chat_url :: rstr
  oc_api_key :: rstr

definition openai_new :: "(unit, rstr) result \<Rightarrow> rstr \<Rightarrow> rstr \<Rightarrow> (openai_client, provider_error) result" where
  "openai_new builder base_url api_key =
     (case builder of
        Inl e \<Rightarrow> Err (Network e)
      | Inr _ \<Rightarrow> Ok \<lparr>oc_chat_url = trim_end_matches (\<lambda>c. c = 47) base_url @ asc ''/chat/completions'',
                     oc_api_key = api_key\<rparr>)"

definition classify_transport_error :: "bool \<Rightarrow> rstr \<Rightarrow> provider_error" where
  "classify_transport_error is_timeout shown = (if is_timeout then Timeout else Network shown)"

definition is_success :: "nat \<Rightarrow> bool" where
  "is_success status \<longleftrightarrow> 200 \<le> status \<and> status < 300"

text \<open>With no outcome left the network answers nothing: a timeout.\<close>

definition send_once :: "openai_client \<Rightarrow> chat_request \<Rightarrow> http_world \<Rightarrow>
    (chat_completion, provider_error) result \<times> http_world" where
  "send_once client request w =
     (let w' = w\<lparr>hw_outcomes := tl (hw_outcomes w),
                 hw_sent := hw_sent w @ [(oc_chat_url client, oc_api_key client, request)]\<rparr>
      in case (case hw_outcomes w of [] \<Rightarrow> Transport True [] | x # _ \<Rightarrow> x) of
           Transport is_timeout shown \<Rightarrow> (Err (classify_transport_error is_timeout shown), w')
         | Response status body json \<Rightarrow>
             (if \<not> is_success status then
                (let message = (case body of Some b \<Rightarrow> b | None \<Rightarrow> [])
                 in (Err (if status = 401 \<or> status = 403 then Auth
                          else if status = 429 then RateLimited
                          else Api status message), w'))
              else
                (case json of
                   Inl e \<Rightarrow> (Err (InvalidResponse e), w')
                 | Inr parsed \<Rightarrow>
                     (case ar_choices parsed of
                        [] \<Rightarrow> (Err (InvalidResponse (asc ''empty choices'')), w')
                      | content # _ \<Rightarrow>
                          (Ok \<lparr>cc_text = content,
                               cc_usage = (case ar_usage parsed of Some u \<Rightarrow> u
                                           | None \<Rightarrow> \<lparr>prompt_tokens = 0, completion_tokens = 0\<rparr>)\<rparr>, w')))))"

definition is_retryable :: "provider_error \<Rightarrow> bool" where
  "is_retryable err = (case err of Network _ \<Rightarrow> True | Api status _ \<Rightarrow> 500 \<le> status \<and> status \<le> 599 | _ \<Rightarrow> False)"

definition openai_chat :: "openai_client \<Rightarrow> chat_request \<Rightarrow> http_world \<Rightarrow>
    (chat_completion, provider_error) result \<times> http_world" where
  "openai_chat client request w =
     (case send_once client request w of
        (Inl err, w') \<Rightarrow> if is_retryable err then send_once client request w' else (Inl err, w')
      | (Inr completion, w') \<Rightarrow> (Inr completion, w'))"

subsection \<open>Model presets\<close>

datatype model_tier = Fast | Smart

text \<open>The provider of a preset is named; the calls go to whatever the name stands for.\<close>

record model_preset =
  mp_provider :: nat
  mp_model :: rstr
  mp_max_tokens :: u32
  mp_temperature :: f64
  input_price_per_mtok :: f64
  output_price_per_mtok :: f64

record model_registry =
  mr_fast :: model_preset
  mr_smart :: model_preset

definition registry_get :: "model_registry \<Rightarrow> model_tier \<Rightarrow> model_preset" where
  "registry_get models tier = (case tier of Fast \<Rightarrow> mr_fast models | Smart \<Rightarrow> mr_smart models)"

definition cost_micros :: "float_ops \<Rightarrow> token_usage \<Rightarrow> model_preset \<Rightarrow> i64" where
  "cost_micros fl usage preset =
     f64_as_i64 fl (f64_round fl (f64_add fl
       (f64_mul fl (f64_of_nat fl (prompt_tokens usage)) (input_price_per_mtok preset))
       (f64_mul fl (f64_of_nat fl (completion_tokens usage)) (output_price_per_mtok preset))))"

subsection \<open>The retry\<close>

lemma send_once_sent:
  "send_once client request w = (r, w') \<Longrightarrow>
     hw_sent w' = hw_sent w @ [(oc_chat_url client, oc_api_key client, request)] \<and>
     hw_outcomes w' = tl (hw_outcomes w)"
  by (auto simp: send_once_def Let_def split: http_outcome.splits sum.splits list.splits if_splits)

text \<open>
  A chat request is sent once or twice, always the same request to the same address
  with the same key, and the second time exactly when the first attempt ended with a
  network failure that is no timeout or with a status from 500 to 599; the answer is that of
  the last attempt.
\<close>

theorem openai_chat_retries_once:
  assumes "send_once client request w = (r1, w1)" and "send_once client request w1 = (r2, w2)"
  shows "openai_chat client request w =
           (if \<exists>e. r1 = Err e \<and> ((\<exists>m. e = Network m) \<or> (\<exists>s m. e = Api s m \<and> s \<in> {500..599}))
            then (r2, w2) else (r1, w1)) \<and>
         hw_sent w1 = hw_sent w @ [(oc_chat_url client, oc_api_key client, request)] \<and>
         hw_sent w2 = hw_sent w @ replicate 2 (oc_chat_url client, oc_api_key client, request)"
proof -
  have "is_retryable e \<longleftrightarrow> (\<exists>m. e = Network m) \<or> (\<exists>s m. e = Api s m \<and> s \<in> {500..599})" for e
    by (cases e) (auto simp: is_retryable_def)
  then have "openai_chat client request w =
      (if \<exists>e. r1 = Err e \<and> ((\<exists>m. e = Network m) \<or> (\<exists>s m. e = Api s m \<and> s \<in> {500..599}))
       then (r2, w2) else (r1, w1))"
    using assms by (cases r1) (auto simp: openai_chat_def)
  with send_once_sent [OF assms(1)] send_once_sent [OF assms(2)] show ?thesis
    by (simp add: eval_nat_numeral)
qed

definition demo_chat :: chat_request where
  "demo_chat = \<lparr>cr_model = asc ''m'', cr_messages = [chat_user (asc ''hi'')], cr_max_tokens = 5, cr_temperature = 0\<rparr>"

theorem openai_chat_retries_once_witness:
  "\<exists>w2. openai_chat \<lparr>oc_chat_url = asc ''u'', oc_api_key = asc ''k''\<rparr> demo_chat
     \<lparr>hw_outcomes = [Response 502 None (Err []), Response 429 None (Err [])], hw_sent = []\<rparr> = (Err RateLimited, w2)"
proof -
  let ?c = "\<lparr>oc_chat_url = asc ''u'', oc_api_key = asc ''k''\<rparr>"
  let ?w = "\<lparr>hw_outcomes = [Response 502 None (Err []), Response 429 None (Err [])], hw_sent = []\<rparr>"
  obtain w1 where 1: "send_once ?c demo_chat ?w = (Err (Api 502 []), w1)"
    and o: "hw_outcomes w1 = [Response 429 None (Err [])]"
    by (simp add: send_once_def is_success_def)
  obtain w2 where 2: "send_once ?c demo_chat w1 = (Err RateLimited, w2)"
    using o by (simp add: send_once_def is_success_def)
  from openai_chat_retries_once [OF 1 2] show ?thesis by simp
qed

end
