(* ===== verification/Conv_Store.thy ===== *)
theory Conv_Store
  imports Rust_Str "HOL-Library.Multiset"
begin

section \<open>The conversation store\<close>

text \<open>
  Model of \<^verbatim>\<open>crates/bridge-core/src/store.rs\<close> (the data and the trait \<open>ConversationStore\<close>), of
  the in-memory store of \<^verbatim>\<open>testing.rs\<close> and of \<^verbatim>\<open>crates/bridge-server/src/store_pg.rs\<close> over the
  tables of \<^verbatim>\<open>migrations/0001_init.sql\<close>. The contract of the trait is a log of messages in the
  order of their ids and a summary per profile (\<open>conv_view\<close>); both stores meet it. The
  rows of the table are a list in whatever order Postgres keeps them, queries sort where they
  say \<open>ORDER BY\<close>. Times are integers; sums of costs are taken over the integers, and a sum
  that leaves 64 bits is the error it is in Postgres.
\<close>

datatype message_role = RoleUser | RoleAssistant

record stored_message =
  sm_role :: message_role
  sm_content :: rstr

record exchange_record =
  er_profile :: rstr
  er_user_text :: rstr
  er_assistant_text :: rstr
  er_model :: rstr
  er_prompt_tokens :: nat
  er_completion_tokens :: nat
  er_cost_micros :: i64

record summary_record =
  su_content :: rstr
  covers_until_message_id :: i64

record usage_stats =
  us_requests :: i64
  us_cost_micros :: i64

datatype store_error = StoreError rstr

type_synonym ('s, 'r) conv_op = "'s \<Rightarrow> ('r, store_error) result \<times> 's"

record 's conversation_store =
  record_exchange :: "exchange_record \<Rightarrow> ('s, unit) conv_op"
  recent_messages :: "rstr \<Rightarrow> usize \<Rightarrow> ('s, stored_message list) conv_op"
  summary :: "rstr \<Rightarrow> ('s, summary_record option) conv_op"
  upsert_summary :: "rstr \<Rightarrow> summary_record \<Rightarrow> ('s, unit) conv_op"
  unsummarized :: "rstr \<Rightarrow> usize \<Rightarrow> ('s, (i64 \<times> stored_message) list) conv_op"
  clear_profile :: "rstr \<Rightarrow> ('s, unit) conv_op"
  usage_since :: "int \<Rightarrow> ('s, usage_stats) conv_op"

subsection \<open>The in-memory store\<close>

record memory_row =
  row_id :: i64
  row_profile :: rstr
  row_role :: message_role
  row_content :: rstr
  row_cost :: i64
  row_created :: int

record memory_inner =
  ms_rows :: "memory_row list"
  ms_summaries :: "rstr \<rightharpoonup> summary_record"
  ms_next_id :: i64
  ms_now :: int

definition memory_new :: "int \<Rightarrow> memory_inner" where
  "memory_new now = \<lparr>ms_rows = [], ms_summaries = Map.empty, ms_next_id = 0, ms_now = now\<rparr>"

definition message_of :: "memory_row \<Rightarrow> stored_message" where
  "message_of r = \<lparr>sm_role = row_role r, sm_content = row_content r\<rparr>"

definition push_row :: "rstr \<Rightarrow> message_role \<times> rstr \<times> i64 \<Rightarrow> memory_inner \<Rightarrow> memory_inner" where
  "push_row profile x s =
     (case x of (role, content, cost) \<Rightarrow>
        s\<lparr>ms_next_id := ms_next_id s + 1,
          ms_rows := ms_rows s @ [\<lparr>row_id = ms_next_id s + 1, row_profile = profile, row_role = role,
                                   row_content = content, row_cost = cost, row_created = ms_now s\<rparr>]\<rparr>)"

definition mem_record_exchange :: "exchange_record \<Rightarrow> (memory_inner, unit) conv_op" where
  "mem_record_exchange exchange s =
     (Ok (), fold (push_row (er_profile exchange))
               [(RoleUser, er_user_text exchange, 0),
                (RoleAssistant, er_assistant_text exchange, er_cost_micros exchange)] s)"

definition mem_recent_messages :: "rstr \<Rightarrow> usize \<Rightarrow> (memory_inner, stored_message list) conv_op" where
  "mem_recent_messages profile limit s =
     (Ok (rev (map message_of (take limit (rev (filter (\<lambda>r. row_profile r = profile) (ms_rows s)))))), s)"

definition mem_summary :: "rstr \<Rightarrow> (memory_inner, summary_record option) conv_op" where
  "mem_summary profile s = (Ok (ms_summaries s profile), s)"

definition mem_upsert_summary :: "rstr \<Rightarrow> summary_record \<Rightarrow> (memory_inner, unit) conv_op" where
  "mem_upsert_summary profile su s = (Ok (), s\<lparr>ms_summaries := (ms_summaries s)(profile \<mapsto> su)\<rparr>)"

text \<open>\<open>truncate(len.saturating_sub(keep_last))\<close>.\<close>

definition drop_last :: "usize \<Rightarrow> 'a list \<Rightarrow> 'a list" where
  "drop_last keep xs = take (length xs - keep) xs"

definition mem_unsummarized :: "rstr \<Rightarrow> usize \<Rightarrow> (memory_inner, (i64 \<times> stored_message) list) conv_op" where
  "mem_unsummarized profile keep_last s =
     (let covers_until = (case ms_summaries s profile of Some su \<Rightarrow> covers_until_message_id su | None \<Rightarrow> 0)
      in (Ok (drop_last keep_last (map (\<lambda>r. (row_id r, message_of r))
                (filter (\<lambda>r. row_profile r = profile \<and> row_id r > covers_until) (ms_rows s)))), s))"

definition mem_clear_profile :: "rstr \<Rightarrow> (memory_inner, unit) conv_op" where
  "mem_clear_profile profile s =
     (Ok (), s\<lparr>ms_rows := filter (\<lambda>r. row_profile r \<noteq> profile) (ms_rows s),
               ms_summaries := (ms_summaries s)(profile := None)\<rparr>)"

definition add_usage :: "memory_row \<Rightarrow> usage_stats \<Rightarrow> usage_stats" where
  "add_usage row stats =
     \<lparr>us_requests = (if row_role row = RoleAssistant then us_requests stats + 1 else us_requests stats),
      us_cost_micros = us_cost_micros stats + row_cost row\<rparr>"

definition mem_usage_since :: "int \<Rightarrow> (memory_inner, usage_stats) conv_op" where
  "mem_usage_since since s =
     (Ok (fold add_usage (filter (\<lambda>r. row_created r \<ge> since) (ms_rows s))
            \<lparr>us_requests = 0, us_cost_micros = 0\<rparr>), s)"

definition memory_store :: "memory_inner conversation_store" where
  "memory_store =
     \<lparr>record_exchange = mem_record_exchange, recent_messages = mem_recent_messages, summary = mem_summary,
      upsert_summary = mem_upsert_summary, unsummarized = mem_unsummarized,
      clear_profile = mem_clear_profile, usage_since = mem_usage_since\<rparr>"

subsection \<open>The Postgres store\<close>

record msg_row =
  mg_id :: i64
  mg_profile :: rstr
  mg_role :: rstr
  mg_content :: rstr
  mg_model :: "rstr option"
  mg_prompt_tokens :: "int option"
  mg_completion_tokens :: "int option"
  mg_cost :: i64
  mg_created :: int

record conv_tables =
  ct_messages :: "msg_row list"
  ct_summaries :: "rstr \<rightharpoonup> summary_record"
  ct_next_id :: i64
  ct_now :: int
  ct_faults :: "rstr option list"

text \<open>\<open>u32 as i32\<close> and \<open>usize as i64\<close>: two's complement.\<close>

definition as_i32 :: "nat \<Rightarrow> int" where
  "as_i32 n = (let m = int n mod 2 ^ 32 in if m < 2 ^ 31 then m else m - 2 ^ 32)"

definition as_i64 :: "nat \<Rightarrow> int" where
  "as_i64 n = (let m = int n mod 2 ^ 64 in if m < 2 ^ 63 then m else m - 2 ^ 64)"

definition db_err :: "rstr \<Rightarrow> store_error" where
  "db_err shown = StoreError shown"

definition conv_db :: "(conv_tables, 'r) conv_op \<Rightarrow> (conv_tables, 'r) conv_op" where
  "conv_db f s =
     (case ct_faults s of
        [] \<Rightarrow> f s
      | fault # rest \<Rightarrow>
          (let s' = s\<lparr>ct_faults := rest\<rparr>
           in case fault of Some shown \<Rightarrow> (Err (db_err shown), s') | None \<Rightarrow> f s'))"

definition role_from_str :: "rstr \<Rightarrow> message_role" where
  "role_from_str role = (if role = asc ''assistant'' then RoleAssistant else RoleUser)"

definition by_id :: "msg_row list \<Rightarrow> msg_row list" where
  "by_id rows = sort_key mg_id rows"

definition row_message :: "msg_row \<Rightarrow> stored_message" where
  "row_message r = \<lparr>sm_role = role_from_str (mg_role r), sm_content = mg_content r\<rparr>"

definition pgc_record_exchange :: "exchange_record \<Rightarrow> (conv_tables, unit) conv_op" where
  "pgc_record_exchange exchange = conv_db (\<lambda>s.
     (Ok (), s\<lparr>ct_messages := ct_messages s @
        [\<lparr>mg_id = ct_next_id s, mg_profile = er_profile exchange, mg_role = asc ''user'',
          mg_content = er_user_text exchange, mg_model = None, mg_prompt_tokens = None,
          mg_completion_tokens = None, mg_cost = 0, mg_created = ct_now s\<rparr>,
         \<lparr>mg_id = ct_next_id s + 1, mg_profile = er_profile exchange, mg_role = asc ''assistant'',
          mg_content = er_assistant_text exchange, mg_model = Some (er_model exchange),
          mg_prompt_tokens = Some (as_i32 (er_prompt_tokens exchange)),
          mg_completion_tokens = Some (as_i32 (er_completion_tokens exchange)),
          mg_cost = er_cost_micros exchange, mg_created = ct_now s\<rparr>],
        ct_next_id := ct_next_id s + 2\<rparr>))"

definition pgc_recent_messages :: "rstr \<Rightarrow> usize \<Rightarrow> (conv_tables, stored_message list) conv_op" where
  "pgc_recent_messages profile limit = conv_db (\<lambda>s.
     (if as_i64 limit < 0 then (Err (db_err (asc ''LIMIT must not be negative'')), s)
      else (Ok (rev (map row_message (take (nat (as_i64 limit))
                  (rev (by_id (filter (\<lambda>r. mg_profile r = profile) (ct_messages s))))))), s)))"

definition pgc_summary :: "rstr \<Rightarrow> (conv_tables, summary_record option) conv_op" where
  "pgc_summary profile = conv_db (\<lambda>s. (Ok (ct_summaries s profile), s))"

definition pgc_upsert_summary :: "rstr \<Rightarrow> summary_record \<Rightarrow> (conv_tables, unit) conv_op" where
  "pgc_upsert_summary profile su = conv_db (\<lambda>s. (Ok (), s\<lparr>ct_summaries := (ct_summaries s)(profile \<mapsto> su)\<rparr>))"

definition pgc_unsummarized :: "rstr \<Rightarrow> usize \<Rightarrow> (conv_tables, (i64 \<times> stored_message) list) conv_op" where
  "pgc_unsummarized profile keep_last = conv_db (\<lambda>s.
     (Ok (drop_last keep_last (map (\<lambda>r. (mg_id r, row_message r))
            (by_id (filter (\<lambda>r. mg_profile r = profile \<and>
               mg_id r > (case ct_summaries s profile of Some su \<Rightarrow> covers_until_message_id su | None \<Rightarrow> 0))
               (ct_messages s))))), s))"

definition pgc_clear_profile :: "rstr \<Rightarrow> (conv_tables, unit) conv_op" where
  "pgc_clear_profile profile = conv_db (\<lambda>s.
     (Ok (), s\<lparr>ct_messages := filter (\<lambda>r. mg_profile r \<noteq> profile) (ct_messages s),
               ct_summaries := (ct_summaries s)(profile := None)\<rparr>))"

definition pgc_usage_since :: "int \<Rightarrow> (conv_tables, usage_stats) conv_op" where
  "pgc_usage_since since = conv_db (\<lambda>s.
     (let rows = filter (\<lambda>r. mg_created r \<ge> since) (ct_messages s);
          cost = sum_list (map mg_cost rows)
      in if cost < i64_min \<or> cost > i64_max then (Err (db_err (asc ''bigint out of range'')), s)
         else (Ok \<lparr>us_requests = int (length (filter (\<lambda>r. mg_role r = asc ''assistant'') rows)),
                   us_cost_micros = cost\<rparr>, s)))"

definition pg_store :: "conv_tables conversation_store" where
  "pg_store =
     \<lparr>record_exchange = pgc_record_exchange, recent_messages = pgc_recent_messages, summary = pgc_summary,
      upsert_summary = pgc_upsert_summary, unsummarized = pgc_unsummarized,
      clear_profile = pgc_clear_profile, usage_since = pgc_usage_since\<rparr>"

subsection \<open>The contract of the trait\<close>

record conv_view =
  cv_log :: "memory_row list"
  cv_summaries :: "rstr \<rightharpoonup> summary_record"

definition profile_log :: "rstr \<Rightarrow> conv_view \<Rightarrow> memory_row list" where
  "profile_log profile v = filter (\<lambda>r. row_profile r = profile) (cv_log v)"

definition covered :: "rstr \<Rightarrow> conv_view \<Rightarrow> i64" where
  "covered profile v = (case cv_summaries v profile of Some su \<Rightarrow> covers_until_message_id su | None \<Rightarrow> 0)"

definition newer :: "rstr \<Rightarrow> conv_view \<Rightarrow> memory_row list" where
  "newer profile v = filter (\<lambda>r. row_id r > covered profile v) (profile_log profile v)"

definition view_record :: "exchange_record \<Rightarrow> i64 \<Rightarrow> i64 \<Rightarrow> int \<Rightarrow> conv_view \<Rightarrow> conv_view" where
  "view_record x i j t v = v\<lparr>cv_log := cv_log v @
     [\<lparr>row_id = i, row_profile = er_profile x, row_role = RoleUser, row_content = er_user_text x,
       row_cost = 0, row_created = t\<rparr>,
      \<lparr>row_id = j, row_profile = er_profile x, row_role = RoleAssistant, row_content = er_assistant_text x,
       row_cost = er_cost_micros x, row_created = t\<rparr>]\<rparr>"

definition view_clear :: "rstr \<Rightarrow> conv_view \<Rightarrow> conv_view" where
  "view_clear profile v =
     \<lparr>cv_log = filter (\<lambda>r. row_profile r \<noteq> profile) (cv_log v), cv_summaries = (cv_summaries v)(profile := None)\<rparr>"

definition view_usage :: "int \<Rightarrow> conv_view \<Rightarrow> usage_stats" where
  "view_usage since v =
     (let rows = filter (\<lambda>r. row_created r \<ge> since) (cv_log v)
      in \<lparr>us_requests = int (length (filter (\<lambda>r. row_role r = RoleAssistant) rows)),
          us_cost_micros = sum_list (map row_cost rows)\<rparr>)"

definition reads :: "('s \<Rightarrow> bool) \<Rightarrow> ('s \<Rightarrow> conv_view) \<Rightarrow> (conv_view \<Rightarrow> 'r) \<Rightarrow> ('r, store_error) result \<Rightarrow> 's \<Rightarrow> 's \<Rightarrow> bool" where
  "reads invar view f r s s' \<longleftrightarrow> invar s' \<and> view s' = view s \<and> (\<forall>x. r = Ok x \<longrightarrow> x = f (view s))"

definition writes :: "('s \<Rightarrow> bool) \<Rightarrow> ('s \<Rightarrow> conv_view) \<Rightarrow> (conv_view \<Rightarrow> conv_view) \<Rightarrow> (unit, store_error) result \<Rightarrow> 's \<Rightarrow> 's \<Rightarrow> bool" where
  "writes invar view upd r s s' \<longleftrightarrow>
     invar s' \<and> view s' = (case r of Inl _ \<Rightarrow> view s | Inr _ \<Rightarrow> upd (view s))"

lemma sorted_split:
  "sorted_wrt (<) (map f xs) \<Longrightarrow> xs = filter (\<lambda>x. f x \<le> c) xs @ filter (\<lambda>x. c < f x) xs" for c :: int
proof (induction xs)
  case (Cons x xs)
  show ?case
  proof (cases "f x \<le> c")
    case True
    with Cons show ?thesis by simp
  next
    case False
    then have "\<forall>y \<in> set xs. c < f y" using Cons.prems by fastforce
    then have "filter (\<lambda>x. f x \<le> c) xs = []" "filter (\<lambda>x. c < f x) xs = xs"
      by (auto simp: filter_empty_conv filter_id_conv)
    with False show ?thesis by simp
  qed
qed simp

lemma last_n_suffix: "xs = ys @ zs \<Longrightarrow> n \<le> length zs \<Longrightarrow> last_n n xs = last_n n zs"
  by (simp add: last_n_def)

locale conversation_laws =
  fixes C :: "'s conversation_store"
    and invar :: "'s \<Rightarrow> bool"
    and view :: "'s \<Rightarrow> conv_view"
  assumes log_sorted: "invar s \<Longrightarrow> sorted_wrt (<) (map row_id (cv_log (view s)))"
    and record_law:
      "invar s \<Longrightarrow> record_exchange C x s = (r, s') \<Longrightarrow>
       \<exists>i j t. (\<forall>m \<in> set (cv_log (view s)). row_id m < i) \<and> i < j \<and>
         writes invar view (view_record x i j t) r s s'"
    and recent_law:
      "invar s \<Longrightarrow> limit < 2 ^ 63 \<Longrightarrow> recent_messages C p limit s = (rm, s') \<Longrightarrow>
       reads invar view (\<lambda>v. map message_of (last_n limit (profile_log p v))) rm s s'"
    and summary_law:
      "invar s \<Longrightarrow> summary C p s = (rs, s') \<Longrightarrow> reads invar view (\<lambda>v. cv_summaries v p) rs s s'"
    and upsert_law:
      "invar s \<Longrightarrow> upsert_summary C p su s = (r, s') \<Longrightarrow>
       writes invar view (\<lambda>v. v\<lparr>cv_summaries := (cv_summaries v)(p \<mapsto> su)\<rparr>) r s s'"
    and unsummarized_law:
      "invar s \<Longrightarrow> unsummarized C p k s = (ru, s') \<Longrightarrow>
       reads invar view (\<lambda>v. drop_last k (map (\<lambda>r. (row_id r, message_of r)) (newer p v))) ru s s'"
    and clear_law:
      "invar s \<Longrightarrow> clear_profile C p s = (r, s') \<Longrightarrow> writes invar view (view_clear p) r s s'"
    and usage_law:
      "invar s \<Longrightarrow> usage_since C t s = (rg, s') \<Longrightarrow> reads invar view (view_usage t) rg s s'"
begin

text \<open>The window and what is to be summarised split the messages after the summary.\<close>

lemma window_split:
  assumes "invar s" and "unsummarized C p k s = (Ok us, s1)" and "recent_messages C p k s1 = (Ok ms, s2)"
    and "k < 2 ^ 63" and "k \<le> length (newer p (view s))"
  shows "map snd us @ ms = map message_of (newer p (view s))"
proof -
  let ?v = "view s"
  have u: "us = drop_last k (map (\<lambda>r. (row_id r, message_of r)) (newer p ?v))" "invar s1" "view s1 = ?v"
    using unsummarized_law [OF assms(1,2)] by (simp_all add: reads_def)
  have "ms = map message_of (last_n k (profile_log p ?v))"
    using recent_law [OF u(2) assms(4,3)] u(3) by (simp add: reads_def)
  moreover have "last_n k (profile_log p ?v) = last_n k (newer p ?v)"
  proof -
    have "sorted_wrt (<) (map row_id (profile_log p ?v))"
      using log_sorted [OF assms(1)] by (simp add: profile_log_def sorted_wrt_map sorted_wrt_filter)
    from sorted_split [OF this, of "covered p ?v"]
    have "profile_log p ?v = filter (\<lambda>r. row_id r \<le> covered p ?v) (profile_log p ?v) @ newer p ?v"
      by (simp add: newer_def)
    then show ?thesis using assms(5) last_n_suffix by metis
  qed
  moreover have "map snd us = map message_of (take (length (newer p ?v) - k) (newer p ?v))"
    by (simp add: u(1) drop_last_def take_map comp_def)
  ultimately show ?thesis
    using dropLast_last_n [of "newer p ?v" k] by (metis map_append)
qed

end

subsection \<open>Both stores meet the contract\<close>

definition conv_mem_inv :: "memory_inner \<Rightarrow> bool" where
  "conv_mem_inv s \<longleftrightarrow> sorted_wrt (<) (map row_id (ms_rows s)) \<and> (\<forall>r \<in> set (ms_rows s). row_id r \<le> ms_next_id s)"

definition conv_mem_view :: "memory_inner \<Rightarrow> conv_view" where
  "conv_mem_view s = \<lparr>cv_log = ms_rows s, cv_summaries = ms_summaries s\<rparr>"

lemma fold_add_usage:
  "fold add_usage rows st =
     \<lparr>us_requests = us_requests st + int (length (filter (\<lambda>r. row_role r = RoleAssistant) rows)),
      us_cost_micros = us_cost_micros st + sum_list (map row_cost rows)\<rparr>"
  by (induction rows arbitrary: st) (simp_all add: add_usage_def)

interpretation conv_mem: conversation_laws memory_store conv_mem_inv conv_mem_view
proof unfold_locales
  show "sorted_wrt (<) (map row_id (cv_log (conv_mem_view s)))" if "conv_mem_inv s" for s
    using that by (simp add: conv_mem_inv_def conv_mem_view_def)
next
  fix s x r s'
  assume inv: "conv_mem_inv s" and run: "record_exchange memory_store x s = (r, s')"
  have "(\<forall>m \<in> set (cv_log (conv_mem_view s)). row_id m < ms_next_id s + 1) \<and>
      writes conv_mem_inv conv_mem_view (view_record x (ms_next_id s + 1) (ms_next_id s + 2) (ms_now s)) r s s'"
    using inv run
    by (fastforce simp: memory_store_def mem_record_exchange_def push_row_def writes_def conv_mem_inv_def
        conv_mem_view_def view_record_def sorted_wrt_append)
  then show "\<exists>i j t. (\<forall>m \<in> set (cv_log (conv_mem_view s)). row_id m < i) \<and> i < j \<and>
      writes conv_mem_inv conv_mem_view (view_record x i j t) r s s'"
    by (metis zless_add1_eq add.commute lessI less_add_same_cancel2 one_add_one zero_less_one add_strict_left_mono)
qed (auto simp: memory_store_def reads_def writes_def conv_mem_inv_def conv_mem_view_def
      mem_recent_messages_def mem_summary_def mem_upsert_summary_def mem_unsummarized_def
      mem_clear_profile_def mem_usage_since_def rev_map [symmetric] rev_take_rev profile_log_def
      newer_def covered_def view_clear_def view_usage_def fold_add_usage Let_def sorted_wrt_filter sorted_wrt_map
      conj_commute rev_map split: sum.splits)

definition abs_row :: "msg_row \<Rightarrow> memory_row" where
  "abs_row r = \<lparr>row_id = mg_id r, row_profile = mg_profile r, row_role = role_from_str (mg_role r),
     row_content = mg_content r, row_cost = mg_cost r, row_created = mg_created r\<rparr>"

definition conv_pg_inv :: "conv_tables \<Rightarrow> bool" where
  "conv_pg_inv s \<longleftrightarrow> distinct (map mg_id (ct_messages s)) \<and> (\<forall>r \<in> set (ct_messages s). mg_id r < ct_next_id s)"

definition conv_pg_view :: "conv_tables \<Rightarrow> conv_view" where
  "conv_pg_view s = \<lparr>cv_log = map abs_row (by_id (ct_messages s)), cv_summaries = ct_summaries s\<rparr>"

lemma abs_row_simps [simp]:
  "row_id (abs_row r) = mg_id r" "row_profile (abs_row r) = mg_profile r" "row_cost (abs_row r) = mg_cost r"
  "row_created (abs_row r) = mg_created r" "row_role (abs_row r) = role_from_str (mg_role r)"
  "message_of (abs_row r) = row_message r"
  by (simp_all add: abs_row_def message_of_def row_message_def)

lemma insort_key_snoc: "f x \<le> f a \<Longrightarrow> insort_key f x (ys @ [a]) = insort_key f x ys @ [a]"
  by (induction ys) auto

lemma sort_key_snoc: "\<forall>x \<in> set xs. f x \<le> f a \<Longrightarrow> sort_key f (xs @ [a]) = sort_key f xs @ [a]"
  by (induction xs) (simp_all add: insort_key_snoc)

lemma by_id_append2:
  assumes "\<forall>r \<in> set xs. mg_id r < mg_id a" and "mg_id a < mg_id b"
  shows "by_id (xs @ [a, b]) = by_id xs @ [a, b]"
proof -
  have "sort_key mg_id ((xs @ [a]) @ [b]) = sort_key mg_id (xs @ [a]) @ [b]"
    using assms by (intro sort_key_snoc) auto
  also have "sort_key mg_id (xs @ [a]) = sort_key mg_id xs @ [a]"
    using assms by (intro sort_key_snoc) auto
  finally show ?thesis by (simp add: by_id_def)
qed

lemma by_id_filter: "by_id (filter P xs) = filter P (by_id xs)"
  by (simp add: by_id_def filter_sort)

lemma by_id_sums:
  "sum_list (map f (by_id xs)) = (sum_list (map f xs) :: int)" "length (filter P (by_id xs)) = length (filter P xs)"
proof -
  have m: "mset (by_id xs) = mset xs" by (simp add: by_id_def)
  have "sum_mset (image_mset f (mset (by_id xs))) = sum_mset (image_mset f (mset xs))" by (simp only: m)
  then show "sum_list (map f (by_id xs)) = sum_list (map f xs)" by (simp flip: sum_mset_sum_list)
  have "size (filter_mset P (mset (by_id xs))) = size (filter_mset P (mset xs))" by (simp only: m)
  then show "length (filter P (by_id xs)) = length (filter P xs)" by (simp flip: mset_filter)
qed

lemma by_id_length: "length (by_id xs) = length xs"
  by (simp add: by_id_def)

lemma conv_db_cases:
  assumes "conv_db f s = (r, s')"
  obtains shown rest where "r = Err (db_err shown)" and "s' = s\<lparr>ct_faults := rest\<rparr>"
    | fs where "f (s\<lparr>ct_faults := fs\<rparr>) = (r, s')"
proof (cases "ct_faults s")
  case Nil
  then have "s\<lparr>ct_faults := []\<rparr> = s" by simp
  with assms Nil that(2) [of "[]"] show thesis by (simp add: conv_db_def)
next
  case (Cons fault rest)
  with assms that(1) [of _ rest] that(2) [of rest] show thesis
    by (cases fault) (auto simp: conv_db_def Let_def)
qed

lemma conv_pg_frame [simp]:
  "conv_pg_inv (s\<lparr>ct_faults := f\<rparr>) = conv_pg_inv s" "conv_pg_view (s\<lparr>ct_faults := f\<rparr>) = conv_pg_view s"
  by (simp_all add: conv_pg_inv_def conv_pg_view_def)

lemma reads_conv_db:
  assumes "conv_pg_inv s" and "conv_db f s = (r, s')"
    and "\<And>s. conv_pg_inv s \<Longrightarrow> \<exists>q. f s = (q, s) \<and> (\<forall>x. q = Ok x \<longrightarrow> x = g (conv_pg_view s))"
  shows "reads conv_pg_inv conv_pg_view g r s s'"
  using assms(2)
proof (cases rule: conv_db_cases)
  case (1 shown rest)
  with assms(1) show ?thesis by (simp add: reads_def)
next
  case (2 fs)
  with assms(3) [of "s\<lparr>ct_faults := fs\<rparr>"] assms(1) show ?thesis by (auto simp: reads_def)
qed

lemma writes_conv_db:
  assumes "conv_pg_inv s" and "conv_db f s = (r, s')"
    and "\<And>s. conv_pg_inv s \<Longrightarrow> \<exists>s2. f s = (Ok (), s2) \<and> conv_pg_inv s2 \<and> conv_pg_view s2 = upd (conv_pg_view s)"
  shows "writes conv_pg_inv conv_pg_view upd r s s'"
  using assms(2)
proof (cases rule: conv_db_cases)
  case (1 shown rest)
  with assms(1) show ?thesis by (simp add: writes_def)
next
  case (2 fs)
  with assms(3) [of "s\<lparr>ct_faults := fs\<rparr>"] assms(1) show ?thesis by (auto simp: writes_def)
qed

lemma as_i64_small: "n < 2 ^ 63 \<Longrightarrow> as_i64 n = int n"
proof -
  assume "n < 2 ^ 63"
  then have "int n < 2 ^ 63" by (metis of_nat_less_iff of_nat_numeral of_nat_power)
  then show ?thesis by (simp add: as_i64_def)
qed

lemma pg_log_sorted: "conv_pg_inv s \<Longrightarrow> sorted_wrt (<) (map mg_id (by_id (ct_messages s)))"
  by (simp add: strict_sorted_iff conv_pg_inv_def by_id_def)
     (metis distinct_map distinct_sort inj_on_def set_sort)

interpretation conv_pg: conversation_laws pg_store conv_pg_inv conv_pg_view
proof unfold_locales
  show "sorted_wrt (<) (map row_id (cv_log (conv_pg_view s)))" if "conv_pg_inv s" for s
    using pg_log_sorted [OF that] by (simp add: conv_pg_view_def comp_def)
next
  fix s x r s'
  assume inv: "conv_pg_inv s" and run: "record_exchange pg_store x s = (r, s')"
  have "writes conv_pg_inv conv_pg_view (view_record x (ct_next_id s) (ct_next_id s + 1) (ct_now s)) r s s'"
    using run [unfolded pg_store_def conversation_store.simps pgc_record_exchange_def]
  proof (cases rule: conv_db_cases)
    case (1 shown rest)
    with inv show ?thesis by (simp add: writes_def)
  next
    case (2 fs)
    have "role_from_str (asc ''user'') = RoleUser" "role_from_str (asc ''assistant'') = RoleAssistant"
      by (simp_all add: role_from_str_def asc_def)
    with 2 inv show ?thesis
      by (force simp: writes_def conv_pg_inv_def conv_pg_view_def view_record_def by_id_append2 abs_row_def)
  qed
  moreover have "\<forall>m \<in> set (cv_log (conv_pg_view s)). row_id m < ct_next_id s"
    using inv by (auto simp: conv_pg_view_def conv_pg_inv_def by_id_def)
  ultimately show "\<exists>i j t. (\<forall>m \<in> set (cv_log (conv_pg_view s)). row_id m < i) \<and> i < j \<and>
      writes conv_pg_inv conv_pg_view (view_record x i j t) r s s'"
    by (metis zless_add1_eq)
next
  fix s p limit rm s'
  assume inv: "conv_pg_inv s" and l: "limit < 2 ^ 63" and run: "recent_messages pg_store p limit s = (rm, s')"
  show "reads conv_pg_inv conv_pg_view (\<lambda>v. map message_of (last_n limit (profile_log p v))) rm s s'"
    using run [unfolded pg_store_def conversation_store.simps pgc_recent_messages_def]
    by (rule reads_conv_db [OF inv])
       (simp add: as_i64_small [OF l] by_id_filter conv_pg_view_def profile_log_def filter_map comp_def
         last_n_map rev_take_rev rev_map)
next
  fix s p rs s'
  assume inv: "conv_pg_inv s" and run: "summary pg_store p s = (rs, s')"
  show "reads conv_pg_inv conv_pg_view (\<lambda>v. cv_summaries v p) rs s s'"
    using run [unfolded pg_store_def conversation_store.simps pgc_summary_def]
    by (rule reads_conv_db [OF inv]) (simp add: conv_pg_view_def)
next
  fix s p su r s'
  assume inv: "conv_pg_inv s" and run: "upsert_summary pg_store p su s = (r, s')"
  show "writes conv_pg_inv conv_pg_view (\<lambda>v. v\<lparr>cv_summaries := (cv_summaries v)(p \<mapsto> su)\<rparr>) r s s'"
    using run [unfolded pg_store_def conversation_store.simps pgc_upsert_summary_def]
    by (rule writes_conv_db [OF inv]) (simp add: conv_pg_view_def conv_pg_inv_def)
next
  fix s p k ru s'
  assume inv: "conv_pg_inv s" and run: "unsummarized pg_store p k s = (ru, s')"
  show "reads conv_pg_inv conv_pg_view
      (\<lambda>v. drop_last k (map (\<lambda>r. (row_id r, message_of r)) (newer p v))) ru s s'"
    using run [unfolded pg_store_def conversation_store.simps pgc_unsummarized_def]
    by (rule reads_conv_db [OF inv])
       (simp add: by_id_filter conv_pg_view_def newer_def covered_def profile_log_def filter_map comp_def conj_commute)
next
  fix s p r s'
  assume inv: "conv_pg_inv s" and run: "clear_profile pg_store p s = (r, s')"
  show "writes conv_pg_inv conv_pg_view (view_clear p) r s s'"
    using run [unfolded pg_store_def conversation_store.simps pgc_clear_profile_def]
    by (rule writes_conv_db [OF inv])
       (simp add: conv_pg_view_def conv_pg_inv_def view_clear_def by_id_filter filter_map comp_def distinct_map_filter)
next
  fix s t rg s'
  assume inv: "conv_pg_inv s" and run: "usage_since pg_store t s = (rg, s')"
  have role: "role_from_str r = RoleAssistant \<longleftrightarrow> r = asc ''assistant''" for r by (simp add: role_from_str_def)
  show "reads conv_pg_inv conv_pg_view (view_usage t) rg s s'"
    using run [unfolded pg_store_def conversation_store.simps pgc_usage_since_def]
    by (rule reads_conv_db [OF inv])
       (simp add: conv_pg_view_def view_usage_def Let_def filter_map comp_def role by_id_sums by_id_length flip: by_id_filter)
qed

text \<open>
  C26. The Postgres store keeps the promises of the \<open>ConversationStore\<close> trait, whichever database
  calls fail: reads return what the log of messages in the order of their ids and the
  summaries say, an exchange is appended as a whole or not at all, clearing removes one
  profile, and a failed call changes nothing.
\<close>

theorem pg_conversations_meet_contract:
  "conversation_laws pg_store conv_pg_inv conv_pg_view"
  by (rule conv_pg.conversation_laws_axioms)

text \<open>
  Nothing a profile said falls between its summary and its context window: the messages
  that are offered for summarising, followed by the last messages that go to the model, are
  exactly the messages after the summarised ones, in their order.
\<close>

theorem window_and_summary_cover:
  assumes "conv_pg_inv s" and "k < 2 ^ 63"
    and "pgc_unsummarized p k s = (Ok us, s1)" and "pgc_recent_messages p k s1 = (Ok ms, s2)"
    and "k \<le> length (newer p (conv_pg_view s))"
  shows "map snd us @ ms = map message_of (newer p (conv_pg_view s))"
  using conv_pg.window_split [of s p k us s1 ms s2] assms by (simp add: pg_store_def)

definition demo_exchange :: exchange_record where
  "demo_exchange = \<lparr>er_profile = asc ''p'', er_user_text = asc ''q'', er_assistant_text = asc ''a'', er_model = asc ''m'',
     er_prompt_tokens = 1, er_completion_tokens = 2, er_cost_micros = 7\<rparr>"

definition demo_tables :: conv_tables where
  "demo_tables = snd (pgc_record_exchange demo_exchange
     \<lparr>ct_messages = [], ct_summaries = Map.empty, ct_next_id = 1, ct_now = 50, ct_faults = []\<rparr>)"

lemma demo_tables_inv: "conv_pg_inv demo_tables"
  by (simp add: demo_tables_def pgc_record_exchange_def conv_db_def conv_pg_inv_def)

theorem window_and_summary_cover_witness:
  "\<exists>us ms s1 s2. pgc_unsummarized (asc ''p'') 1 demo_tables = (Ok us, s1) \<and>
     pgc_recent_messages (asc ''p'') 1 s1 = (Ok ms, s2) \<and> length (map snd us @ ms) = 2"
proof -
  have two: "length (newer (asc ''p'') (conv_pg_view demo_tables)) = 2"
    by (simp add: demo_tables_def pgc_record_exchange_def conv_db_def conv_pg_view_def newer_def profile_log_def
        covered_def by_id_def abs_row_def demo_exchange_def)
  obtain us where u: "pgc_unsummarized (asc ''p'') 1 demo_tables = (Ok us, demo_tables)"
    by (simp add: pgc_unsummarized_def conv_db_def demo_tables_def pgc_record_exchange_def)
  have "as_i64 1 = 1" by (simp add: as_i64_def)
  then obtain ms where m: "pgc_recent_messages (asc ''p'') 1 demo_tables = (Ok ms, demo_tables)"
    by (simp add: pgc_recent_messages_def conv_db_def demo_tables_def pgc_record_exchange_def)
  have "map snd us @ ms = map message_of (newer (asc ''p'') (conv_pg_view demo_tables))"
    by (rule window_and_summary_cover [OF demo_tables_inv _ u m]) (simp_all add: two)
  then have "length (map snd us @ ms) = 2" using two by simp
  with u m show ?thesis by blast
qed

text \<open>
  C29. Forgetting a profile takes its history and its summary and nothing else, and it
  takes its costs out of the spending report: after a member says \<^emph>\<open>forget\<close>, the report of the
  month shows less than was spent.
\<close>

theorem forget_erases_profile:
  assumes "conv_pg_inv s" and "pgc_clear_profile p s = (Ok (), s')"
  shows "profile_log p (conv_pg_view s') = [] \<and> cv_summaries (conv_pg_view s') p = None \<and>
         (\<forall>q. q \<noteq> p \<longrightarrow> profile_log q (conv_pg_view s') = profile_log q (conv_pg_view s) \<and>
                cv_summaries (conv_pg_view s') q = cv_summaries (conv_pg_view s) q) \<and>
         us_cost_micros (view_usage t (conv_pg_view s')) =
           us_cost_micros (view_usage t (conv_pg_view s)) -
           sum_list (map row_cost (filter (\<lambda>r. row_created r \<ge> t) (profile_log p (conv_pg_view s))))"
proof -
  have v: "conv_pg_view s' = view_clear p (conv_pg_view s)"
    using conv_pg.clear_law [OF assms(1), of p "Ok ()" s'] assms(2) by (simp add: pg_store_def writes_def)
  have part: "sum_list (map row_cost (filter (\<lambda>r. t \<le> row_created r \<and> row_profile r \<noteq> p) xs)) =
      sum_list (map row_cost (filter (\<lambda>r. t \<le> row_created r) xs)) -
      sum_list (map row_cost (filter (\<lambda>r. row_profile r = p \<and> t \<le> row_created r) xs))" for xs
    by (induction xs) auto
  have "filter (\<lambda>r. row_profile r = q \<and> row_profile r \<noteq> p) xs = filter (\<lambda>r. row_profile r = q) xs"
    if "q \<noteq> p" for q and xs :: "memory_row list"
    using that by (induction xs) auto
  then show ?thesis
    by (simp add: v view_clear_def profile_log_def view_usage_def Let_def part conj_commute)
qed

theorem forget_erases_profile_witness:
  "\<exists>s'. pgc_clear_profile (asc ''p'') demo_tables = (Ok (), s') \<and>
     us_cost_micros (view_usage 0 (conv_pg_view s')) = us_cost_micros (view_usage 0 (conv_pg_view demo_tables)) - 7"
proof -
  obtain s' where c: "pgc_clear_profile (asc ''p'') demo_tables = (Ok (), s')"
    by (simp add: pgc_clear_profile_def conv_db_def demo_tables_def pgc_record_exchange_def)
  have "sum_list (map row_cost (filter (\<lambda>r. row_created r \<ge> 0) (profile_log (asc ''p'') (conv_pg_view demo_tables)))) = 7"
    by (simp add: demo_tables_def pgc_record_exchange_def conv_db_def conv_pg_view_def profile_log_def
        by_id_def abs_row_def demo_exchange_def)
  with forget_erases_profile [OF demo_tables_inv c, of 0] c show ?thesis by auto
qed

end
