(* ===== verification/Dialogue_Engine.thy ===== *)
theory Dialogue_Engine
  imports Prompt Provider Conv_Store
begin

section \<open>The dialogue engine\<close>

text \<open>
  Model of \<^verbatim>\<open>crates/bridge-core/src/pending.rs\<close> and \<^verbatim>\<open>engine.rs\<close>, the engine of the installations
  that talk to a chat provider. A request, the task it spawns and the summariser the task
  spawns are state machines whose steps are the stretches of code between two accesses to what
  they share: the dialogue state under its mutex, the map of pending answers, the conversation
  store, the channel between task and request. \<open>dlg_step\<close> interleaves them in any order. What the
  provider answers is arbitrary. Instants are nanoseconds, wall-clock times seconds since the
  epoch, dates days since the epoch; a date computed from a time is a division, as in the
  calendar crate.
\<close>

subsection \<open>Pending answers\<close>

definition THINKING_TTL :: int where
  "THINKING_TTL = 120 * 10 ^ 9"

datatype pending_state = PThinking int | PReady rstr

datatype poll_result = PollNone | StillThinking | PollAnswer rstr

type_synonym pending_answers = "rstr \<rightharpoonup> pending_state"

definition pending_mark_thinking :: "int \<Rightarrow> rstr \<Rightarrow> pending_answers \<Rightarrow> pending_answers" where
  "pending_mark_thinking now key m = m(key \<mapsto> PThinking now)"

definition pending_complete :: "rstr \<Rightarrow> rstr \<Rightarrow> pending_answers \<Rightarrow> pending_answers" where
  "pending_complete key text m = (case m key of Some _ \<Rightarrow> m(key \<mapsto> PReady text) | None \<Rightarrow> m)"

definition pending_clear :: "rstr \<Rightarrow> pending_answers \<Rightarrow> pending_answers" where
  "pending_clear key m = m(key := None)"

text \<open>\<open>poll\<close> looks at the entry and then, where it is ready or too old, removes it: two
  accesses to the map.\<close>

datatype peeked = PeekNone | PeekReady | PeekOld | PeekThinking

definition pending_get :: "int \<Rightarrow> rstr \<Rightarrow> pending_answers \<Rightarrow> peeked" where
  "pending_get now key m =
     (case m key of
        None \<Rightarrow> PeekNone
      | Some (PReady _) \<Rightarrow> PeekReady
      | Some (PThinking since) \<Rightarrow> if now - since > THINKING_TTL then PeekOld else PeekThinking)"

definition pending_remove :: "peeked \<Rightarrow> rstr \<Rightarrow> pending_answers \<Rightarrow> poll_result \<times> pending_answers" where
  "pending_remove p key m =
     (case p of
        PeekNone \<Rightarrow> (PollNone, m)
      | PeekThinking \<Rightarrow> (StillThinking, m)
      | PeekOld \<Rightarrow> (PollNone, m(key := None))
      | PeekReady \<Rightarrow> (case m key of Some (PReady text) \<Rightarrow> PollAnswer text | _ \<Rightarrow> PollNone, m(key := None)))"

definition pending_poll :: "int \<Rightarrow> rstr \<Rightarrow> pending_answers \<Rightarrow> poll_result \<times> pending_answers" where
  "pending_poll now key m = pending_remove (pending_get now key m) key m"

subsection \<open>State of the engine\<close>

record engine_config =
  context_window :: usize
  ec_reply_budget :: nat
  utc_offset_hours :: int

record dialogue_state =
  active_profile :: rstr
  ds_mode :: "rstr option"
  ds_model_tier :: model_tier
  window_override :: "usize option"

record 's engine_inner =
  ei_roster :: family_roster
  ei_modes :: "mode list"
  ei_models :: model_registry
  ei_store :: "'s conversation_store"
  ei_config :: engine_config

text \<open>The libraries: Unicode tables, calendar, floating-point arithmetic.\<close>

record libraries =
  lib_unicode :: unicode
  lib_calendar :: calendar
  lib_float :: float_ops

definition window_of :: "engine_config \<Rightarrow> dialogue_state \<Rightarrow> usize" where
  "window_of cfg st = (case window_override st of Some n \<Rightarrow> n | None \<Rightarrow> context_window cfg)"

definition local_date :: "engine_config \<Rightarrow> int \<Rightarrow> naive_date" where
  "local_date cfg utc = (utc + 3600 * utc_offset_hours cfg) div 86400"

text \<open>The instant at which a local date begins.\<close>

definition midnight :: "engine_config \<Rightarrow> naive_date \<Rightarrow> int" where
  "midnight cfg d = 86400 * d - 3600 * utc_offset_hours cfg"

definition format_usd :: "float_ops \<Rightarrow> usage_stats \<Rightarrow> rstr" where
  "format_usd fl stats = f64_show2 fl (f64_div fl (f64_of_int fl (us_cost_micros stats)) (f64_of_int fl 1000000))"

fun phrase_for_provider_error :: "provider_error \<Rightarrow> rstr" where
  "phrase_for_provider_error Timeout = PHRASE_PROVIDER_TIMEOUT"
| "phrase_for_provider_error RateLimited = PHRASE_RATE_LIMITED"
| "phrase_for_provider_error Auth = PHRASE_AUTH_FAILED"
| "phrase_for_provider_error (Api status message) = PHRASE_PROVIDER_ERROR"
| "phrase_for_provider_error (Network message) = PHRASE_PROVIDER_ERROR"
| "phrase_for_provider_error (InvalidResponse message) = PHRASE_PROVIDER_ERROR"

definition usage_report :: "float_ops \<Rightarrow> (usage_stats, store_error) result \<Rightarrow> (usage_stats, store_error) result \<Rightarrow> rstr" where
  "usage_report fl today month =
     (case (today, month) of
        (Inr today, Inr month) \<Rightarrow>
          cyr ''Segodnq '' @ show_int (us_requests today) @
          cyr '' otwetow primerno na '' @ format_usd fl today @
          cyr '' dollarow. S na~ala mesqca '' @ show_int (us_requests month) @
          cyr '' otwetow na '' @ format_usd fl month @ cyr '' dollarow.''
      | _ \<Rightarrow> PHRASE_INTERNAL_ERROR)"

subsection \<open>A request\<close>

record ask_context =
  ac_question :: rstr
  ac_tier :: model_tier
  ac_profile :: profile
  ac_name :: rstr
  ac_mode :: "mode option"
  ac_window :: usize

record ask =
  ak_name :: rstr
  ak_question :: rstr
  ak_preset :: model_preset
  ak_messages :: "chat_message list"

text \<open>The calls of the store a request awaits, and where a request stands.\<close>

datatype store_point =
    ForgetProfile rstr
  | UsageToday int int
  | UsageMonth "(usage_stats, store_error) result" int
  | LoadSummary ask_context
  | LoadHistory ask_context "summary_record option"

datatype dlg_phase =
    Polling
  | Removing peeked
  | Dispatching
  | Calling store_point
  | Asking rstr "model_tier option"
  | Spawning ask
  | Waiting nat
  | Expired nat
  | Answered rstr

definition after_get :: "peeked \<Rightarrow> dlg_phase" where
  "after_get p =
     (case p of PeekNone \<Rightarrow> Dispatching | PeekThinking \<Rightarrow> Answered PHRASE_STILL_THINKING | _ \<Rightarrow> Removing p)"

definition after_poll :: "poll_result \<Rightarrow> dlg_phase" where
  "after_poll p =
     (case p of PollAnswer text \<Rightarrow> Answered text | StillThinking \<Rightarrow> Answered PHRASE_STILL_THINKING
      | PollNone \<Rightarrow> Dispatching)"

text \<open>\<open>execute\<close> up to its first await; \<open>utc\<close> is the wall clock.\<close>

fun execute_step :: "libraries \<Rightarrow> 's engine_inner \<Rightarrow> int \<Rightarrow> rstr \<Rightarrow> command \<Rightarrow> dialogue_state \<Rightarrow> dlg_phase \<times> dialogue_state" where
  "execute_step L ei utc utterance (Introduce name) st =
     (Answered (cyr ''Priwet, '' @ name @ cyr ''! Slu{a`.''), st\<lparr>active_profile := name\<rparr>)"
| "execute_step L ei utc utterance Forget st = (Calling (ForgetProfile (active_profile st)), st)"
| "execute_step L ei utc utterance (SetWindow n) st =
     (let n = min (max n 1) 50
      in (Answered (cyr ''Horo{o, teperx pomn` poslednie '' @ show_nat n @ cyr '' replik.''), st\<lparr>window_override := Some n\<rparr>))"
| "execute_step L ei utc utterance UseSmartModel st =
     (Answered (cyr ''Perekl`~ilasx na umnu` modelx.''), st\<lparr>ds_model_tier := Smart\<rparr>)"
| "execute_step L ei utc utterance UseFastModel st =
     (Answered (cyr ''Perekl`~ilasx na bystru` modelx.''), st\<lparr>ds_model_tier := Fast\<rparr>)"
| "execute_step L ei utc utterance UsageStats st =
     (let today = local_date (ei_config ei) utc
      in (Calling (UsageToday (midnight (ei_config ei) today)
            (midnight (ei_config ei) (first_of_month (lib_calendar L) today))), st))"
| "execute_step L ei utc utterance WhoAmI st =
     (Answered (cyr ''Sej~as so mnoj goworit '' @ active_profile st @ asc ''.''), st)"
| "execute_step L ei utc utterance (EnterMode name) st = (Asking utterance None, st\<lparr>ds_mode := Some name\<rparr>)"
| "execute_step L ei utc utterance ExitMode st =
     (Answered (cyr ''Wozwra}a`sx w oby~nyj revim.''), st\<lparr>ds_mode := None\<rparr>)"
| "execute_step L ei utc utterance Help st = (Answered HELP_TEXT, st)"

definition dispatch_step :: "libraries \<Rightarrow> 's engine_inner \<Rightarrow> int \<Rightarrow> rstr \<Rightarrow> dialogue_state \<Rightarrow> dlg_phase \<times> dialogue_state" where
  "dispatch_step L ei utc utterance st =
     (case parse (lib_unicode L) utterance (ei_roster ei) (ei_modes ei) of
        ParsedCommand c \<Rightarrow> execute_step L ei utc utterance c st
      | Ask text think_hard \<Rightarrow> (Asking text (if think_hard then Some Smart else None), st))"

text \<open>\<open>ask_llm\<close> up to the first call of the store.\<close>

definition ask_step :: "'s engine_inner \<Rightarrow> rstr \<Rightarrow> model_tier option \<Rightarrow> dialogue_state \<Rightarrow> dlg_phase" where
  "ask_step ei question tier_override st =
     (case roster_get (ei_roster ei) (active_profile st) of
        None \<Rightarrow> Answered PHRASE_INTERNAL_ERROR
      | Some p \<Rightarrow>
          Calling (LoadSummary
            \<lparr>ac_question = question,
             ac_tier = (case tier_override of Some t \<Rightarrow> t | None \<Rightarrow> ds_model_tier st),
             ac_profile = p, ac_name = active_profile st,
             ac_mode = (case ds_mode st of None \<Rightarrow> None
                        | Some name \<Rightarrow> find (\<lambda>m. md_name m = name) (ei_modes ei)),
             ac_window = window_of (ei_config ei) st\<rparr>))"

definition chat_of :: "stored_message \<Rightarrow> chat_message" where
  "chat_of m = (case sm_role m of RoleUser \<Rightarrow> chat_user (sm_content m) | RoleAssistant \<Rightarrow> chat_assistant (sm_content m))"

definition ask_messages :: "libraries \<Rightarrow> 's engine_inner \<Rightarrow> int \<Rightarrow> ask_context \<Rightarrow> rstr option \<Rightarrow> stored_message list \<Rightarrow> chat_message list" where
  "ask_messages L ei utc c su history =
     chat_system (build_system_prompt (lib_calendar L)
       \<lparr>pc_today = local_date (ei_config ei) utc, pc_profile = ac_profile c, pc_roster = ei_roster ei,
        pc_mode = ac_mode c, pc_summary = su\<rparr>) #
     map chat_of history @ [chat_user (ac_question c)]"

definition unwrap_or :: "'a \<Rightarrow> ('a, 'e) result \<Rightarrow> 'a" where
  "unwrap_or d r = (case r of Inl _ \<Rightarrow> d | Inr x \<Rightarrow> x)"

fun store_step :: "libraries \<Rightarrow> 's engine_inner \<Rightarrow> int \<Rightarrow> store_point \<Rightarrow> 's \<Rightarrow> dlg_phase \<times> 's" where
  "store_step L ei utc (ForgetProfile p) s =
     (case clear_profile (ei_store ei) p s of
        (Inr _, s') \<Rightarrow> (Answered (cyr ''Ws#, zabyla na{ razgowor. Na~inaem s ~istogo lista.''), s')
      | (Inl _, s') \<Rightarrow> (Answered PHRASE_INTERNAL_ERROR, s'))"
| "store_step L ei utc (UsageToday day_start month_start) s =
     (case usage_since (ei_store ei) day_start s of (today, s') \<Rightarrow> (Calling (UsageMonth today month_start), s'))"
| "store_step L ei utc (UsageMonth today month_start) s =
     (case usage_since (ei_store ei) month_start s of
        (month, s') \<Rightarrow> (Answered (usage_report (lib_float L) today month), s'))"
| "store_step L ei utc (LoadSummary c) s =
     (case summary (ei_store ei) (ac_name c) s of
        (r, s') \<Rightarrow> (Calling (LoadHistory c (unwrap_or None r)), s'))"
| "store_step L ei utc (LoadHistory c su) s =
     (case recent_messages (ei_store ei) (ac_name c) (ac_window c) s of
        (r, s') \<Rightarrow>
          (Spawning
             \<lparr>ak_name = ac_name c, ak_question = ac_question c,
              ak_preset = registry_get (ei_models ei) (ac_tier c),
              ak_messages = ask_messages L ei utc c (map_option su_content su) (unwrap_or [] r)\<rparr>, s'))"

subsection \<open>Tasks and summarisers\<close>

text \<open>The reply task: at the provider, at the store, at the channel. \<open>TSent\<close> is a reply in
  the channel, \<open>TLate\<close> one that came back from it.\<close>

datatype task_phase =
    TBegin
  | TChat
  | TRecord chat_completion
  | TSend rstr
  | TSent rstr
  | TLate rstr
  | TDone rstr
  | TDropped

record reply_task =
  tk_user :: rstr
  tk_ask :: ask
  tk_open :: bool
  tk_phase :: task_phase

datatype summarizer_phase =
    SBegin
  | SLoad usize
  | SPrevious "(i64 \<times> stored_message) list"
  | SChat "(i64 \<times> stored_message) list" rstr
  | SWaiting "(i64 \<times> stored_message) list"
  | SUpsert summary_record
  | SDone

definition speaker :: "message_role \<Rightarrow> rstr" where
  "speaker r = (case r of RoleUser \<Rightarrow> cyr ''Polxzowatelx'' | RoleAssistant \<Rightarrow> cyr ''Assistent'')"

definition transcript :: "(i64 \<times> stored_message) list \<Rightarrow> rstr" where
  "transcript rows = concat (map (\<lambda>(_, m). speaker (sm_role m) @ asc '': '' @ sm_content m @ [10]) rows)"

definition summary_instruction :: "rstr \<Rightarrow> rstr \<Rightarrow> rstr" where
  "summary_instruction previous lines =
     cyr ''Sovmi dialog w kratkoe rez`me iz tr#h-pqti predlovenij. '' @
     cyr ''Sohrani wavnye fakty o sobesednike i temy razgowora.'' @ [10] @
     cyr ''Teku}ee rez`me: '' @ previous @ [10] @ cyr ''Nowye repliki:'' @ [10] @ lines"

text \<open>The bits of the temperature 0.3.\<close>

definition SUMMARY_TEMPERATURE :: f64 where
  "SUMMARY_TEMPERATURE = 1050253722"

definition summary_request :: "'s engine_inner \<Rightarrow> (i64 \<times> stored_message) list \<Rightarrow> rstr \<Rightarrow> chat_request" where
  "summary_request ei rows previous =
     \<lparr>cr_model = mp_model (registry_get (ei_models ei) Fast),
      cr_messages = [chat_system (summary_instruction previous (transcript rows))],
      cr_max_tokens = 250, cr_temperature = SUMMARY_TEMPERATURE\<rparr>"

definition covers_until :: "(i64 \<times> stored_message) list \<Rightarrow> i64" where
  "covers_until rows = (if rows = [] then 0 else foldr (\<lambda>x y. max (fst x) y) (tl rows) (fst (hd rows)))"

fun summarize_step :: "'s engine_inner \<Rightarrow> rstr \<Rightarrow> summarizer_phase \<Rightarrow> dialogue_state \<Rightarrow> 's \<Rightarrow> summarizer_phase \<times> 's" where
  "summarize_step ei p SBegin st s = (SLoad (window_of (ei_config ei) st), s)"
| "summarize_step ei p (SLoad keep_last) st s =
     (case unsummarized (ei_store ei) p keep_last s of
        (Inl _, s') \<Rightarrow> (SDone, s')
      | (Inr rows, s') \<Rightarrow> (if length rows < keep_last then SDone else SPrevious rows, s'))"
| "summarize_step ei p (SPrevious rows) st s =
     (case summary (ei_store ei) p s of
        (r, s') \<Rightarrow> (SChat rows (case r of Inr (Some su) \<Rightarrow> su_content su | _ \<Rightarrow> []), s'))"
| "summarize_step ei p (SUpsert su) st s =
     (case upsert_summary (ei_store ei) p su s of (_, s') \<Rightarrow> (SDone, s'))"
| "summarize_step ei p ph st s = (ph, s)"

definition chat_request_of :: "ask \<Rightarrow> chat_request" where
  "chat_request_of a =
     \<lparr>cr_model = mp_model (ak_preset a), cr_messages = ak_messages a,
      cr_max_tokens = mp_max_tokens (ak_preset a), cr_temperature = mp_temperature (ak_preset a)\<rparr>"

definition exchange_of :: "float_ops \<Rightarrow> ask \<Rightarrow> chat_completion \<Rightarrow> exchange_record" where
  "exchange_of fl a c =
     \<lparr>er_profile = ak_name a, er_user_text = ak_question a, er_assistant_text = cc_text c,
      er_model = mp_model (ak_preset a), er_prompt_tokens = prompt_tokens (cc_usage c),
      er_completion_tokens = completion_tokens (cc_usage c),
      er_cost_micros = cost_micros fl (cc_usage c) (ak_preset a)\<rparr>"


subsection \<open>The interleaving\<close>

record 's dialogue =
  dg_store :: 's
  dg_state :: dialogue_state
  dg_pending :: pending_answers
  dg_requests :: "nat \<rightharpoonup> (rstr \<times> rstr) \<times> dlg_phase"
  dg_tasks :: "nat \<rightharpoonup> reply_task"
  dg_summarizers :: "nat \<rightharpoonup> rstr \<times> summarizer_phase"
  dg_calls :: "(nat \<times> chat_request) list"
  dg_now :: int
  dg_utc :: int

text \<open>\<open>Engine::new\<close>; \<open>None\<close> is the panic of a default profile that is not there.\<close>

definition dialogue_new :: "'s engine_inner \<Rightarrow> 's \<Rightarrow> int \<Rightarrow> int \<Rightarrow> 's dialogue option" where
  "dialogue_new ei s now utc =
     map_option (\<lambda>p. \<lparr>dg_store = s,
         dg_state = \<lparr>active_profile = pf_name p, ds_mode = None, ds_model_tier = Fast, window_override = None\<rparr>,
         dg_pending = Map.empty, dg_requests = Map.empty, dg_tasks = Map.empty, dg_summarizers = Map.empty,
         dg_calls = [], dg_now = now, dg_utc = utc\<rparr>)
       (roster_default_profile (ei_roster ei))"

definition put_request :: "nat \<Rightarrow> rstr \<times> rstr \<Rightarrow> dlg_phase \<Rightarrow> 's dialogue \<Rightarrow> 's dialogue" where
  "put_request r input ph d = d\<lparr>dg_requests := (dg_requests d)(r \<mapsto> (input, ph))\<rparr>"

definition put_task :: "nat \<Rightarrow> reply_task \<Rightarrow> task_phase \<Rightarrow> 's dialogue \<Rightarrow> 's dialogue" where
  "put_task j t ph d = d\<lparr>dg_tasks := (dg_tasks d)(j \<mapsto> t\<lparr>tk_phase := ph\<rparr>)\<rparr>"

definition put_summarizer :: "nat \<Rightarrow> rstr \<Rightarrow> summarizer_phase \<Rightarrow> 's dialogue \<Rightarrow> 's dialogue" where
  "put_summarizer k p ph d = d\<lparr>dg_summarizers := (dg_summarizers d)(k \<mapsto> (p, ph))\<rparr>"

definition call_provider :: "nat \<Rightarrow> chat_request \<Rightarrow> 's dialogue \<Rightarrow> 's dialogue" where
  "call_provider p q d = d\<lparr>dg_calls := dg_calls d @ [(p, q)]\<rparr>"

definition spawn_task :: "nat \<Rightarrow> nat \<Rightarrow> rstr \<times> rstr \<Rightarrow> ask \<Rightarrow> 's dialogue \<Rightarrow> 's dialogue" where
  "spawn_task j r input a d =
     put_request r input (Waiting j)
       (d\<lparr>dg_pending := pending_mark_thinking (dg_now d) (fst input) (dg_pending d),
          dg_tasks := (dg_tasks d)(j \<mapsto> \<lparr>tk_user = fst input, tk_ask = a, tk_open = True, tk_phase = TBegin\<rparr>)\<rparr>)"

definition reply_in_time :: "nat \<Rightarrow> rstr \<times> rstr \<Rightarrow> rstr \<Rightarrow> 's dialogue \<Rightarrow> 's dialogue" where
  "reply_in_time r input reply d =
     put_request r input (Answered reply) (d\<lparr>dg_pending := pending_clear (fst input) (dg_pending d)\<rparr>)"

text \<open>The deadline has passed: the receiver is dropped.\<close>

definition drop_receiver :: "nat \<Rightarrow> rstr \<times> rstr \<Rightarrow> nat \<Rightarrow> reply_task \<Rightarrow> 's dialogue \<Rightarrow> 's dialogue" where
  "drop_receiver r input j t d =
     put_request r input (Answered PHRASE_THINKING_STARTED)
       (d\<lparr>dg_tasks := (dg_tasks d)(j \<mapsto> t\<lparr>tk_open := False\<rparr>)\<rparr>)"

definition record_step :: "libraries \<Rightarrow> 's engine_inner \<Rightarrow> nat \<Rightarrow> nat \<Rightarrow> reply_task \<Rightarrow> chat_completion \<Rightarrow> 's dialogue \<Rightarrow> 's dialogue" where
  "record_step L ei j k t c d =
     (case record_exchange (ei_store ei) (exchange_of (lib_float L) (tk_ask t) c) (dg_store d) of
        (_, s') \<Rightarrow> put_task j t (TSend (cc_text c)) (put_summarizer k (ak_name (tk_ask t)) SBegin (d\<lparr>dg_store := s'\<rparr>)))"

definition send_step :: "nat \<Rightarrow> reply_task \<Rightarrow> rstr \<Rightarrow> 's dialogue \<Rightarrow> 's dialogue" where
  "send_step j t reply d = put_task j t (if tk_open t then TSent reply else TLate reply) d"

definition complete_step :: "nat \<Rightarrow> reply_task \<Rightarrow> rstr \<Rightarrow> 's dialogue \<Rightarrow> 's dialogue" where
  "complete_step j t reply d =
     put_task j t (TDone reply) (d\<lparr>dg_pending := pending_complete (tk_user t) reply (dg_pending d)\<rparr>)"

definition task_ended :: "task_phase \<Rightarrow> bool" where
  "task_ended ph = (case ph of TSent _ \<Rightarrow> True | TDone _ \<Rightarrow> True | TDropped \<Rightarrow> True | _ \<Rightarrow> False)"

inductive dlg_step :: "libraries \<Rightarrow> 's engine_inner \<Rightarrow> ('s \<Rightarrow> 's \<Rightarrow> bool) \<Rightarrow> 's dialogue \<Rightarrow> 's dialogue \<Rightarrow> bool"
  for L ei E where
  arrive: "dg_requests d r = None \<Longrightarrow> dlg_step L ei E d (put_request r input Polling d)"
| peek: "dg_requests d r = Some (input, Polling) \<Longrightarrow>
    dlg_step L ei E d (put_request r input (after_get (pending_get (dg_now d) (fst input) (dg_pending d))) d)"
| remove: "dg_requests d r = Some (input, Removing p) \<Longrightarrow>
    pending_remove p (fst input) (dg_pending d) = (res, m) \<Longrightarrow>
    dlg_step L ei E d (put_request r input (after_poll res) (d\<lparr>dg_pending := m\<rparr>))"
| dispatch: "dg_requests d r = Some (input, Dispatching) \<Longrightarrow>
    dispatch_step L ei (dg_utc d) (snd input) (dg_state d) = (ph, st) \<Longrightarrow>
    dlg_step L ei E d (put_request r input ph (d\<lparr>dg_state := st\<rparr>))"
| asks: "dg_requests d r = Some (input, Asking question tier) \<Longrightarrow>
    dlg_step L ei E d (put_request r input (ask_step ei question tier (dg_state d)) d)"
| store_call: "dg_requests d r = Some (input, Calling p) \<Longrightarrow>
    store_step L ei (dg_utc d) p (dg_store d) = (ph, s') \<Longrightarrow>
    dlg_step L ei E d (put_request r input ph (d\<lparr>dg_store := s'\<rparr>))"
| spawn: "dg_requests d r = Some (input, Spawning a) \<Longrightarrow> dg_tasks d j = None \<Longrightarrow>
    dlg_step L ei E d (spawn_task j r input a d)"
| received: "dg_requests d r = Some (input, Waiting j) \<Longrightarrow> dg_tasks d j = Some t \<Longrightarrow> tk_phase t = TSent reply \<Longrightarrow>
    dlg_step L ei E d (reply_in_time r input reply d)"
| closed: "dg_requests d r = Some (input, Waiting j) \<Longrightarrow> dg_tasks d j = Some t \<Longrightarrow> tk_phase t = TDropped \<Longrightarrow>
    dlg_step L ei E d (reply_in_time r input PHRASE_INTERNAL_ERROR d)"
| deadline: "dg_requests d r = Some (input, Waiting j) \<Longrightarrow> dg_tasks d j = Some t \<Longrightarrow> \<not> task_ended (tk_phase t) \<Longrightarrow>
    dlg_step L ei E d (put_request r input (Expired j) d)"
| dropped: "dg_requests d r = Some (input, Expired j) \<Longrightarrow> dg_tasks d j = Some t \<Longrightarrow>
    dlg_step L ei E d (drop_receiver r input j t d)"
| chat: "dg_tasks d j = Some t \<Longrightarrow> tk_phase t = TBegin \<Longrightarrow>
    dlg_step L ei E d (put_task j t TChat (call_provider (mp_provider (ak_preset (tk_ask t))) (chat_request_of (tk_ask t)) d))"
| completed: "dg_tasks d j = Some t \<Longrightarrow> tk_phase t = TChat \<Longrightarrow> dlg_step L ei E d (put_task j t (TRecord c) d)"
| failed: "dg_tasks d j = Some t \<Longrightarrow> tk_phase t = TChat \<Longrightarrow>
    dlg_step L ei E d (put_task j t (TSend (phrase_for_provider_error err)) d)"
| recorded: "dg_tasks d j = Some t \<Longrightarrow> tk_phase t = TRecord c \<Longrightarrow> dg_summarizers d k = None \<Longrightarrow>
    dlg_step L ei E d (record_step L ei j k t c d)"
| sends: "dg_tasks d j = Some t \<Longrightarrow> tk_phase t = TSend reply \<Longrightarrow> dlg_step L ei E d (send_step j t reply d)"
| completes: "dg_tasks d j = Some t \<Longrightarrow> tk_phase t = TLate reply \<Longrightarrow> dlg_step L ei E d (complete_step j t reply d)"
| task_panics: "dg_tasks d j = Some t \<Longrightarrow> \<not> task_ended (tk_phase t) \<Longrightarrow> dlg_step L ei E d (put_task j t TDropped d)"
| summarizes: "dg_summarizers d k = Some (p, ph) \<Longrightarrow> summarize_step ei p ph (dg_state d) (dg_store d) = (ph', s') \<Longrightarrow>
    dlg_step L ei E d (put_summarizer k p ph' (d\<lparr>dg_store := s'\<rparr>))"
| summary_chat: "dg_summarizers d k = Some (p, SChat rows previous) \<Longrightarrow>
    dlg_step L ei E d (put_summarizer k p (SWaiting rows)
      (call_provider (mp_provider (registry_get (ei_models ei) Fast)) (summary_request ei rows previous) d))"
| summary_completed: "dg_summarizers d k = Some (p, SWaiting rows) \<Longrightarrow>
    dlg_step L ei E d (put_summarizer k p
      (SUpsert \<lparr>su_content = cc_text (c :: chat_completion), covers_until_message_id = covers_until rows\<rparr>) d)"
| summarizer_ends: "dg_summarizers d k = Some (p, ph) \<Longrightarrow> dlg_step L ei E d (put_summarizer k p SDone d)"
| time: "dg_now d \<le> now \<Longrightarrow> dlg_step L ei E d (d\<lparr>dg_now := now, dg_utc := utc\<rparr>)"
| environment: "E (dg_store d) s' \<Longrightarrow> dlg_step L ei E d (d\<lparr>dg_store := s'\<rparr>)"

inductive dlg_reachable :: "libraries \<Rightarrow> 's engine_inner \<Rightarrow> ('s \<Rightarrow> 's \<Rightarrow> bool) \<Rightarrow> 's \<Rightarrow> 's dialogue \<Rightarrow> bool"
  for L ei E s0 where
  start: "dialogue_new ei s0 now utc = Some d \<Longrightarrow> dlg_reachable L ei E s0 d"
| step: "dlg_reachable L ei E s0 d \<Longrightarrow> dlg_step L ei E d d' \<Longrightarrow> dlg_reachable L ei E s0 d'"

lemmas dlg_defs [step_defs] =
  put_request_def put_task_def put_summarizer_def call_provider_def spawn_task_def reply_in_time_def drop_receiver_def
  record_step_def send_step_def complete_step_def


subsection \<open>Pending answers on their own\<close>

lemma poll_ready: "m key = Some (PReady text) \<Longrightarrow> pending_poll now key m = (PollAnswer text, m(key := None))"
  by (simp add: pending_poll_def pending_get_def pending_remove_def)

lemma pending_remove_cases:
  "pending_remove p key m = (res, m') \<Longrightarrow>
     (m' = m \<or> m' = m(key := None)) \<and> (\<forall>text. res = PollAnswer text \<longrightarrow> m key = Some (PReady text))"
  by (auto simp: pending_remove_def split: peeked.splits option.splits pending_state.splits)

subsection \<open>The dialogue state\<close>

definition state_ok :: "family_roster \<Rightarrow> mode list \<Rightarrow> dialogue_state \<Rightarrow> bool" where
  "state_ok roster modes st \<longleftrightarrow>
     active_profile st \<in> roster_names roster \<and>
     (\<forall>m. ds_mode st = Some m \<longrightarrow> m \<in> md_name ` set modes) \<and>
     (\<forall>n. window_override st = Some n \<longrightarrow> 1 \<le> n \<and> n \<le> 50)"

lemma dispatch_state_ok:
  assumes "dispatch_step L ei utc utterance st = (ph, st')" and "state_ok (ei_roster ei) (ei_modes ei) st"
  shows "state_ok (ei_roster ei) (ei_modes ei) st'"
proof (cases "command_of (lib_unicode L) (ei_roster ei) (ei_modes ei) (normalize (lib_unicode L) utterance)")
  case None
  with assms show ?thesis
    by (auto simp: dispatch_step_def parse_def Let_def split: option.splits)
next
  case (Some c)
  then have "execute_step L ei utc utterance c st = (ph, st')"
    using assms(1) by (simp add: dispatch_step_def parse_def Let_def)
  with command_of_cases [OF Some] assms(2) show ?thesis
    by (cases c) (auto simp: state_ok_def Let_def)
qed

lemma dlg_step_state:
  assumes "dlg_step L ei E d d'" and "state_ok (ei_roster ei) (ei_modes ei) (dg_state d)"
  shows "state_ok (ei_roster ei) (ei_modes ei) (dg_state d')"
  using assms
  by (cases rule: dlg_step.cases) (auto simp: dlg_defs split: prod.splits dest: dispatch_state_ok)

lemma default_in_roster:
  assumes "roster_default_profile roster = Some p"
  shows "pf_name p \<in> roster_names roster"
proof -
  from assms obtain ps where "drop (fr_default_index roster) (fr_profiles roster) = p # ps"
    by (auto simp: roster_default_profile_def iter_nth_def split: list.splits)
  then have "p \<in> set (fr_profiles roster)" by (metis in_set_dropD list.set_intros(1))
  then show ?thesis by (simp add: roster_names_def)
qed

lemma reachable_state_ok:
  "dlg_reachable L ei E s0 d \<Longrightarrow> state_ok (ei_roster ei) (ei_modes ei) (dg_state d)"
proof (induction rule: dlg_reachable.induct)
  case (start now utc d)
  then show ?case by (auto simp: dialogue_new_def state_ok_def default_in_roster)
next
  case (step d d')
  then show ?case by (blast intro: dlg_step_state)
qed

subsection \<open>Requests and their tasks\<close>

definition waits_for :: "dlg_phase \<Rightarrow> nat \<Rightarrow> bool" where
  "waits_for ph j \<longleftrightarrow> ph = Waiting j \<or> ph = Expired j"

definition late :: "task_phase \<Rightarrow> bool" where
  "late ph = (case ph of TLate _ \<Rightarrow> True | TDone _ \<Rightarrow> True | _ \<Rightarrow> False)"

definition waiters_ok :: "(nat \<rightharpoonup> (rstr \<times> rstr) \<times> dlg_phase) \<Rightarrow> (nat \<rightharpoonup> reply_task) \<Rightarrow> bool" where
  "waiters_ok reqs tasks \<longleftrightarrow>
     (\<forall>r i ph j. reqs r = Some (i, ph) \<longrightarrow> waits_for ph j \<longrightarrow>
        (\<exists>t. tasks j = Some t \<and> tk_user t = fst i \<and> tk_open t)) \<and>
     (\<forall>r r' i i' ph ph' j. reqs r = Some (i, ph) \<longrightarrow> reqs r' = Some (i', ph') \<longrightarrow>
        waits_for ph j \<longrightarrow> waits_for ph' j \<longrightarrow> r = r') \<and>
     (\<forall>j t. tasks j = Some t \<longrightarrow> late (tk_phase t) \<longrightarrow> \<not> tk_open t)"

lemma waiters_task:
  assumes "waiters_ok reqs tasks" and "reqs r = Some (i, ph)" and "waits_for ph j"
  obtains t where "tasks j = Some t" and "tk_user t = fst i" and "tk_open t" and "\<not> late (tk_phase t)"
  using assms unfolding waiters_ok_def by metis

lemma waits_for_simps [simp]:
  "waits_for (Waiting j) k \<longleftrightarrow> j = k" "waits_for (Expired j) k \<longleftrightarrow> j = k"
  "\<not> waits_for (Answered x) k" "\<not> waits_for Polling k" "\<not> waits_for (Removing p) k" "\<not> waits_for Dispatching k"
  "\<not> waits_for (Calling c) k" "\<not> waits_for (Asking q ti) k" "\<not> waits_for (Spawning a) k"
  by (auto simp: waits_for_def)

lemma late_simps [simp]:
  "late (TLate x)" "late (TDone x)" "\<not> late TBegin" "\<not> late TChat" "\<not> late (TRecord c)" "\<not> late (TSend x)"
  "\<not> late (TSent x)" "\<not> late TDropped"
  by (auto simp: late_def)

lemma local_phases_no_wait [simp]:
  "\<not> waits_for (after_get p) j" "\<not> waits_for (after_poll q) j" "\<not> waits_for (ask_step ei qu ti st) j"
  by (auto simp: after_get_def after_poll_def ask_step_def split: peeked.splits poll_result.splits option.splits)

lemma execute_no_wait: "execute_step L ei utc u c st = (ph, st') \<Longrightarrow> \<not> waits_for ph j"
  by (cases c) (auto simp: Let_def)

lemma dispatch_no_wait: "dispatch_step L ei utc u st = (ph, st') \<Longrightarrow> \<not> waits_for ph j"
  by (auto simp: dispatch_step_def dest: execute_no_wait split: parsed.splits)

lemma store_no_wait: "store_step L ei utc p s = (ph, s') \<Longrightarrow> \<not> waits_for ph j"
  by (cases p) (auto split: prod.splits sum.splits)

text \<open>A request that changes to a phase without a task, a task that changes its phase.\<close>

lemma waiters_put_request:
  assumes "waiters_ok reqs tasks" and "\<And>j. \<not> waits_for ph j"
  shows "waiters_ok (reqs(r \<mapsto> (i, ph))) tasks"
  using assms unfolding waiters_ok_def by (auto split: if_splits)

lemma waiters_put_task:
  assumes "waiters_ok reqs tasks" and "tasks j = Some t" and "late ph \<Longrightarrow> \<not> tk_open t"
  shows "waiters_ok reqs (tasks(j \<mapsto> t\<lparr>tk_phase := ph\<rparr>))"
  using assms unfolding waiters_ok_def by (auto split: if_splits; fastforce)

lemma waiters_expire:
  assumes "waiters_ok reqs tasks" and "reqs r = Some (i, Waiting j)"
  shows "waiters_ok (reqs(r \<mapsto> (i, Expired j))) tasks"
  using assms unfolding waiters_ok_def by (auto split: if_splits; fastforce)

lemma waiters_spawn:
  assumes "waiters_ok reqs tasks" and "tasks j = None"
  shows "waiters_ok (reqs(r \<mapsto> (i, Waiting j))) (tasks(j \<mapsto> \<lparr>tk_user = fst i, tk_ask = a, tk_open = True, tk_phase = TBegin\<rparr>))"
  using assms unfolding waiters_ok_def by (auto split: if_splits; fastforce)

lemma waiters_drop:
  assumes "waiters_ok reqs tasks" and "reqs r = Some (i, Expired j)" and "tasks j = Some t"
  shows "waiters_ok (reqs(r \<mapsto> (i, Answered x))) (tasks(j \<mapsto> t\<lparr>tk_open := False\<rparr>))"
  using assms unfolding waiters_ok_def by (auto split: if_splits; fastforce)

lemma dlg_step_waiters:
  assumes "dlg_step L ei E d d'" and "waiters_ok (dg_requests d) (dg_tasks d)"
  shows "waiters_ok (dg_requests d') (dg_tasks d')"
  using assms
proof (cases rule: dlg_step.cases)
  case (dispatch r input ph st)
  with assms(2) show ?thesis by (simp add: dlg_defs waiters_put_request dispatch_no_wait)
next
  case (store_call r input p ph s')
  with assms(2) show ?thesis by (simp add: dlg_defs waiters_put_request store_no_wait)
next
  case (completes j t reply)
  then have "\<not> tk_open t" using assms(2) unfolding waiters_ok_def by fastforce
  with completes assms(2) show ?thesis by (simp add: dlg_defs waiters_put_task [of _ _ j t])
qed (use assms(2) in \<open>auto simp: dlg_defs waiters_put_request waiters_expire waiters_spawn waiters_drop
       intro!: waiters_put_task split: prod.splits\<close>)

definition finitely_used :: "(nat \<rightharpoonup> 'a) \<Rightarrow> bool" where
  "finitely_used m \<longleftrightarrow> (\<exists>n. \<forall>k \<ge> n. m k = None)"

lemma finitely_used_empty [simp]: "finitely_used Map.empty"
  by (simp add: finitely_used_def)

lemma finitely_used_upd [simp]:
  assumes "finitely_used m"
  shows "finitely_used (m(j \<mapsto> x))"
proof -
  from assms obtain n where "\<forall>k \<ge> n. m k = None" unfolding finitely_used_def by blast
  then have "\<forall>k \<ge> max n (Suc j). (m(j \<mapsto> x)) k = None" by auto
  then show ?thesis unfolding finitely_used_def by blast
qed

lemma finitely_used_free: "finitely_used m \<Longrightarrow> \<exists>k. m k = None"
  by (auto simp: finitely_used_def)

definition names_ok :: "'s dialogue \<Rightarrow> bool" where
  "names_ok d \<longleftrightarrow> finitely_used (dg_requests d) \<and> finitely_used (dg_tasks d) \<and> finitely_used (dg_summarizers d)"

lemma dlg_step_names:
  assumes "dlg_step L ei E d d'" and "names_ok d"
  shows "names_ok d'"
  using assms by (cases rule: dlg_step.cases) (simp_all add: names_ok_def dlg_defs split: prod.splits)

lemma reachable_waiters:
  "dlg_reachable L ei E s0 d \<Longrightarrow> waiters_ok (dg_requests d) (dg_tasks d) \<and> names_ok d"
proof (induction rule: dlg_reachable.induct)
  case (start now utc d)
  then show ?case by (auto simp: dialogue_new_def waiters_ok_def names_ok_def)
next
  case (step d d')
  then show ?case using dlg_step_waiters dlg_step_names by blast
qed

lemma reachable_free:
  assumes "dlg_reachable L ei E s0 d"
  obtains r j k where "dg_requests d r = None" and "dg_tasks d j = None" and "dg_summarizers d k = None"
  using reachable_waiters [OF assms] finitely_used_free unfolding names_ok_def by metis


subsection \<open>Where an answer comes from\<close>

definition replied :: "(nat \<rightharpoonup> reply_task) \<Rightarrow> rstr \<Rightarrow> rstr \<Rightarrow> bool" where
  "replied tasks user text \<longleftrightarrow>
     (\<exists>j t. tasks j = Some t \<and> tk_user t = user \<and> (tk_phase t = TSent text \<or> tk_phase t = TDone text))"

text \<open>What the engine says without a provider.\<close>

definition own_words :: "libraries \<Rightarrow> 's engine_inner \<Rightarrow> rstr \<Rightarrow> bool" where
  "own_words L ei text \<longleftrightarrow>
     text \<in> {PHRASE_THINKING_STARTED, PHRASE_STILL_THINKING, PHRASE_INTERNAL_ERROR} \<or>
     (\<exists>utc utterance c st st'. execute_step L ei utc utterance c st = (Answered text, st')) \<or>
     (\<exists>utc p s s'. store_step L ei utc p s = (Answered text, s'))"

lemma task_ended_simps [simp]:
  "task_ended (TSent x)" "task_ended (TDone x)" "task_ended TDropped" "\<not> task_ended TBegin" "\<not> task_ended TChat"
  "\<not> task_ended (TRecord c)" "\<not> task_ended (TSend x)" "\<not> task_ended (TLate x)"
  by (auto simp: task_ended_def)

lemma replied_put:
  "replied tasks u x \<Longrightarrow> tasks j = Some t \<Longrightarrow> \<not> task_ended (tk_phase t) \<Longrightarrow> replied (tasks(j \<mapsto> t\<lparr>tk_phase := ph\<rparr>)) u x"
  unfolding replied_def by (metis fun_upd_apply option.inject task_ended_simps(1,2))

lemma replied_new: "replied tasks u x \<Longrightarrow> tasks j = None \<Longrightarrow> replied (tasks(j \<mapsto> t)) u x"
  unfolding replied_def by (metis fun_upd_apply option.distinct(1))

lemma replied_close: "replied tasks u x \<Longrightarrow> tasks j = Some t \<Longrightarrow> replied (tasks(j \<mapsto> t\<lparr>tk_open := b\<rparr>)) u x"
  unfolding replied_def
  by (metis fun_upd_apply option.inject reply_task.select_convs(1,4) reply_task.surjective reply_task.update_convs(3))

lemma replied_done: "replied (tasks(j \<mapsto> t\<lparr>tk_phase := TDone x\<rparr>)) (tk_user t) x"
  unfolding replied_def by (intro exI [of _ j] exI [of _ "t\<lparr>tk_phase := TDone x\<rparr>"]) simp

lemma replied_sent: "tasks j = Some t \<Longrightarrow> tk_phase t = TSent x \<Longrightarrow> replied tasks (tk_user t) x"
  unfolding replied_def by blast

lemma dlg_step_replied:
  assumes "dlg_step L ei E d d'" and "replied (dg_tasks d) u x"
  shows "replied (dg_tasks d') u x"
  using assms
  by (cases rule: dlg_step.cases)
     (auto simp: dlg_defs split: prod.splits intro: replied_put replied_new replied_close)

definition ready_ok :: "pending_answers \<Rightarrow> (nat \<rightharpoonup> reply_task) \<Rightarrow> bool" where
  "ready_ok m tasks \<longleftrightarrow> (\<forall>u text. m u = Some (PReady text) \<longrightarrow> replied tasks u text)"

lemma ready_clear: "ready_ok m tasks \<Longrightarrow> ready_ok (m(key := None)) tasks"
  by (auto simp: ready_ok_def)

lemma dlg_step_ready:
  assumes "dlg_step L ei E d d'" and ok: "ready_ok (dg_pending d) (dg_tasks d)"
  shows "ready_ok (dg_pending d') (dg_tasks d')"
proof -
  have later: "ready_ok (dg_pending d) (dg_tasks d')"
    using ok dlg_step_replied [OF assms(1)] by (auto simp: ready_ok_def)
  from assms(1) show ?thesis
  proof (cases rule: dlg_step.cases)
    case (remove r input p res m)
    then have "dg_pending d' = dg_pending d \<or> dg_pending d' = (dg_pending d)(fst input := None)"
      using pending_remove_cases by (fastforce simp: dlg_defs)
    with later ready_clear show ?thesis by metis
  next
    case (completes j t reply)
    then have "dg_pending d' = pending_complete (tk_user t) reply (dg_pending d)" "replied (dg_tasks d') (tk_user t) reply"
      by (simp_all add: dlg_defs replied_done)
    with later show ?thesis by (auto simp: ready_ok_def pending_complete_def split: option.splits)
  qed (use later in \<open>auto simp: dlg_defs pending_mark_thinking_def pending_clear_def ready_ok_def split: prod.splits\<close>)
qed

definition answers_ok :: "libraries \<Rightarrow> 's engine_inner \<Rightarrow> (nat \<rightharpoonup> (rstr \<times> rstr) \<times> dlg_phase) \<Rightarrow> (nat \<rightharpoonup> reply_task) \<Rightarrow> bool" where
  "answers_ok L ei reqs tasks \<longleftrightarrow>
     (\<forall>r i text. reqs r = Some (i, Answered text) \<longrightarrow> own_words L ei text \<or> replied tasks (fst i) text)"

lemma answers_put:
  "answers_ok L ei reqs tasks \<Longrightarrow> (\<And>text. ph = Answered text \<Longrightarrow> own_words L ei text \<or> replied tasks (fst i) text) \<Longrightarrow>
   answers_ok L ei (reqs(r \<mapsto> (i, ph))) tasks"
  by (auto simp: answers_ok_def)

lemma answers_put_reply:
  "answers_ok L ei reqs tasks \<Longrightarrow> replied tasks (fst i) x \<Longrightarrow> answers_ok L ei (reqs(r \<mapsto> (i, Answered x))) tasks"
  by (auto simp: answers_ok_def)

lemma own_phrases:
  "own_words L ei PHRASE_THINKING_STARTED" "own_words L ei PHRASE_STILL_THINKING" "own_words L ei PHRASE_INTERNAL_ERROR"
  by (simp_all add: own_words_def)

lemma own_dispatch: "dispatch_step L ei utc u st = (Answered text, st') \<Longrightarrow> own_words L ei text"
  by (auto simp: dispatch_step_def own_words_def split: parsed.splits)

lemma own_store: "store_step L ei utc p s = (Answered text, s') \<Longrightarrow> own_words L ei text"
  unfolding own_words_def by blast

lemma own_local:
  "after_get p = Answered text \<Longrightarrow> own_words L ei text"
  "ask_step ei q ti st = Answered text \<Longrightarrow> own_words L ei text"
  by (auto simp: after_get_def ask_step_def own_phrases split: peeked.splits option.splits)

lemma dlg_step_answers:
  assumes "dlg_step L ei E d d'" and ok: "answers_ok L ei (dg_requests d) (dg_tasks d)"
    and ready: "ready_ok (dg_pending d) (dg_tasks d)" and waits: "waiters_ok (dg_requests d) (dg_tasks d)"
  shows "answers_ok L ei (dg_requests d') (dg_tasks d')"
proof -
  have later: "answers_ok L ei (dg_requests d) (dg_tasks d')"
    using ok dlg_step_replied [OF assms(1)] unfolding answers_ok_def by metis
  from assms(1) show ?thesis
  proof (cases rule: dlg_step.cases)
    case (remove r input p res m)
    then have "replied (dg_tasks d') (fst input) x" if "res = PollAnswer x" for x
      using pending_remove_cases [OF remove(3)] ready that dlg_step_replied [OF assms(1)]
      unfolding ready_ok_def by blast
    then have "own_words L ei x \<or> replied (dg_tasks d') (fst input) x" if "after_poll res = Answered x" for x
      using that own_phrases by (auto simp: after_poll_def split: poll_result.splits)
    with later remove show ?thesis by (simp add: dlg_defs answers_put)
  next
    case (received r input j t reply)
    then have "tk_user t = fst input" using waiters_task [OF waits received(2)] by fastforce
    moreover have "dg_tasks d' = dg_tasks d" using received(1) by (simp add: dlg_defs)
    ultimately have "replied (dg_tasks d') (fst input) reply" using replied_sent received(3,4) by metis
    with later received show ?thesis by (simp add: dlg_defs answers_put_reply)
  qed (use later in \<open>auto simp: dlg_defs own_phrases intro!: answers_put
         dest: own_dispatch own_store own_local split: prod.splits\<close>)
qed

lemma reachable_answers:
  "dlg_reachable L ei E s0 d \<Longrightarrow> ready_ok (dg_pending d) (dg_tasks d) \<and> answers_ok L ei (dg_requests d) (dg_tasks d)"
proof (induction rule: dlg_reachable.induct)
  case (start now utc d)
  then show ?case by (auto simp: dialogue_new_def ready_ok_def answers_ok_def)
next
  case (step d d')
  then show ?case
    using dlg_step_ready [OF step.hyps(2)] dlg_step_answers [OF step.hyps(2)] reachable_waiters [OF step.hyps(1)] by simp
qed

subsection \<open>Every request is answered\<close>

fun dlg_rank :: "dlg_phase \<Rightarrow> nat" where
  "dlg_rank Polling = 9"
| "dlg_rank (Removing p) = 8"
| "dlg_rank Dispatching = 7"
| "dlg_rank (Asking q ti) = 6"
| "dlg_rank (Calling (LoadSummary c)) = 5"
| "dlg_rank (Calling (LoadHistory c su)) = 4"
| "dlg_rank (Calling (UsageToday a b)) = 2"
| "dlg_rank (Calling (UsageMonth a b)) = 1"
| "dlg_rank (Calling (ForgetProfile p)) = 1"
| "dlg_rank (Spawning a) = 3"
| "dlg_rank (Waiting j) = 2"
| "dlg_rank (Expired j) = 1"
| "dlg_rank (Answered text) = 0"

lemma dlg_rank_le: "dlg_rank ph \<le> 9"
  by (induction ph rule: dlg_rank.induct) simp_all

lemma execute_rank: "execute_step L ei utc u c st = (ph, st') \<Longrightarrow> dlg_rank ph < 7"
  by (cases c) (auto simp: Let_def)

lemma dispatch_rank: "dispatch_step L ei utc u st = (ph, st') \<Longrightarrow> dlg_rank ph < 7"
  by (auto simp: dispatch_step_def dest: execute_rank split: parsed.splits)

lemma store_rank: "store_step L ei utc p s = (ph, s') \<Longrightarrow> dlg_rank ph < dlg_rank (Calling p)"
  by (cases p) (auto split: prod.splits sum.splits)

lemma local_rank:
  "dlg_rank (after_get p) < 9" "dlg_rank (after_poll q) < 8" "dlg_rank (ask_step ei qu ti st) < 6"
  by (auto simp: after_get_def after_poll_def ask_step_def split: peeked.splits poll_result.splits option.splits)

lemma local_moves [simp]:
  "after_get p \<noteq> Polling" "after_poll q \<noteq> Removing p" "ask_step ei qu ti st \<noteq> Asking qu2 ti2"
  by (auto simp: after_get_def after_poll_def ask_step_def split: peeked.splits poll_result.splits option.splits)

lemma dlg_step_rank:
  assumes "dlg_step L ei E d d'" and "dg_requests d r = Some (i, ph)"
  shows "\<exists>ph'. dg_requests d' r = Some (i, ph') \<and> (ph' = ph \<or> dlg_rank ph' < dlg_rank ph)"
  using assms
proof (cases rule: dlg_step.cases)
  case (store_call r2 input p ph2 s')
  with assms(2) store_rank [OF store_call(3)] show ?thesis by (auto simp: dlg_defs)
next
  case (dispatch r2 input ph2 st)
  with assms(2) dispatch_rank [OF dispatch(3)] show ?thesis by (auto simp: dlg_defs)
qed (use assms(2) in \<open>auto simp: dlg_defs local_rank split: prod.splits\<close>)

lemma dlg_progress:
  assumes "dg_requests d r = Some (i, ph)" and "waiters_ok (dg_requests d) (dg_tasks d)"
    and free: "dg_tasks d n = None" and "0 < dlg_rank ph"
  shows "\<exists>d' ph'. dlg_step L ei E d d' \<and> dg_requests d' r = Some (i, ph') \<and> dlg_rank ph' < dlg_rank ph"
proof -
  have moves: "\<exists>d' ph'. dlg_step L ei E d d' \<and> dg_requests d' r = Some (i, ph') \<and> dlg_rank ph' < dlg_rank ph"
    if "dlg_step L ei E d d'" "\<exists>ph'. dg_requests d' r = Some (i, ph') \<and> ph' \<noteq> ph" for d'
    using dlg_step_rank [OF that(1) assms(1)] that by (metis Pair_inject option.inject)
  show ?thesis
  proof (cases ph)
    case Polling
    with assms(1) show ?thesis
      by (intro moves [OF peek [of d r i]]) (simp_all add: dlg_defs)
  next
    case (Removing p)
    obtain res m where "pending_remove p (fst i) (dg_pending d) = (res, m)" by fastforce
    with Removing assms(1) show ?thesis
      by (intro moves [OF remove [of d r i p res m]]) (simp_all add: dlg_defs)
  next
    case Dispatching
    obtain ph2 st where *: "dispatch_step L ei (dg_utc d) (snd i) (dg_state d) = (ph2, st)" by fastforce
    with Dispatching assms(1) dispatch_rank [OF *] show ?thesis
      by (intro moves [OF dispatch [of d r i]]) (auto simp: dlg_defs)
  next
    case (Calling p)
    obtain ph2 s' where *: "store_step L ei (dg_utc d) p (dg_store d) = (ph2, s')" by fastforce
    with Calling assms(1) store_rank [OF *] show ?thesis
      by (intro moves [OF store_call [of d r i p]]) (auto simp: dlg_defs)
  next
    case (Asking q ti)
    with assms(1) show ?thesis
      by (intro moves [OF asks [of d r i q ti]]) (simp_all add: dlg_defs)
  next
    case (Spawning a)
    with assms(1,3) show ?thesis
      by (intro moves [OF spawn [of d r i a n]]) (auto simp: dlg_defs)
  next
    case (Waiting j)
    with assms(1,2) obtain t where t: "dg_tasks d j = Some t" "\<not> late (tk_phase t)"
      by (meson waiters_task waits_for_simps(1))
    consider x where "tk_phase t = TSent x" | "tk_phase t = TDropped" | "\<not> task_ended (tk_phase t)"
      using t(2) by (cases "tk_phase t") auto
    then show ?thesis
    proof cases
      case (1 x)
      with Waiting assms(1) t show ?thesis by (intro moves [OF received [of d r i j t x]]) (auto simp: dlg_defs)
    next
      case 2
      with Waiting assms(1) t show ?thesis by (intro moves [OF closed [of d r i j t]]) (auto simp: dlg_defs)
    next
      case 3
      with Waiting assms(1) t show ?thesis by (intro moves [OF deadline [of d r i j t]]) (auto simp: dlg_defs)
    qed
  next
    case (Expired j)
    with assms(1,2) obtain t where "dg_tasks d j = Some t" by (meson waiters_task waits_for_simps(2))
    with Expired assms(1) show ?thesis by (intro moves [OF dropped [of d r i j t]]) (auto simp: dlg_defs)
  qed (use assms(4) in simp)
qed


subsection \<open>A question on its own\<close>

lemmas dlg_go = dlg_reachable.step

text \<open>Undisturbed, a question comes to the point where its task runs.\<close>

lemma question_to_task:
  assumes reach: "dlg_reachable L ei E s0 d" and new: "dg_requests d r = None" and idle: "dg_pending d u = None"
    and ask: "parse (lib_unicode L) utterance (ei_roster ei) (ei_modes ei) = Ask q hard"
  shows "\<exists>d' j t. dlg_reachable L ei E s0 d' \<and> dg_requests d' r = Some ((u, utterance), Waiting j) \<and>
           dg_tasks d' j = Some t \<and> tk_user t = u \<and> ak_question (tk_ask t) = q \<and> tk_open t \<and> tk_phase t = TBegin \<and>
           dg_pending d' u = Some (PThinking (dg_now d')) \<and>
           dg_requests d' = (dg_requests d)(r \<mapsto> ((u, utterance), Waiting j)) \<and> dg_tasks d' = (dg_tasks d)(j \<mapsto> t)"
proof -
  let ?i = "(u, utterance)"
  let ?tier = "if hard then Some Smart else None"
  define d1 where "d1 = put_request r ?i Polling d"
  have 1: "dlg_reachable L ei E s0 d1" "dg_requests d1 r = Some (?i, Polling)" "dg_pending d1 u = None"
    using dlg_go [OF reach arrive [OF new]] idle by (simp_all add: d1_def put_request_def)
  define d2 where "d2 = put_request r ?i Dispatching d1"
  have 2: "dlg_reachable L ei E s0 d2" "dg_requests d2 r = Some (?i, Dispatching)"
    using dlg_go [OF 1(1) peek [OF 1(2)]] 1(3)
    by (simp_all add: d2_def put_request_def pending_get_def after_get_def)
  define d3 where "d3 = put_request r ?i (Asking q ?tier) (d2\<lparr>dg_state := dg_state d2\<rparr>)"
  have "dispatch_step L ei (dg_utc d2) (snd ?i) (dg_state d2) = (Asking q ?tier, dg_state d2)"
    using ask by (simp add: dispatch_step_def)
  then have 3: "dlg_reachable L ei E s0 d3" "dg_requests d3 r = Some (?i, Asking q ?tier)"
    using dlg_go [OF 2(1) dispatch [OF 2(2)]] by (simp_all add: d3_def put_request_def)
  obtain p where "roster_get (ei_roster ei) (active_profile (dg_state d3)) = Some p"
    using reachable_state_ok [OF 3(1)] roster_get_iff unfolding state_ok_def by metis
  then obtain c where c: "ask_step ei q ?tier (dg_state d3) = Calling (LoadSummary c)" "ac_question c = q"
    by (simp add: ask_step_def)
  define d4 where "d4 = put_request r ?i (Calling (LoadSummary c)) d3"
  have 4: "dlg_reachable L ei E s0 d4" "dg_requests d4 r = Some (?i, Calling (LoadSummary c))"
    using dlg_go [OF 3(1) asks [OF 3(2)]] c(1) by (simp_all add: d4_def put_request_def)
  obtain su s5 where s5: "store_step L ei (dg_utc d4) (LoadSummary c) (dg_store d4) = (Calling (LoadHistory c su), s5)"
    by (cases "summary (ei_store ei) (ac_name c) (dg_store d4)") simp
  define d5 where "d5 = put_request r ?i (Calling (LoadHistory c su)) (d4\<lparr>dg_store := s5\<rparr>)"
  have 5: "dlg_reachable L ei E s0 d5" "dg_requests d5 r = Some (?i, Calling (LoadHistory c su))"
    using dlg_go [OF 4(1) store_call [OF 4(2) s5]] by (simp_all add: d5_def put_request_def)
  obtain a s6 where s6: "store_step L ei (dg_utc d5) (LoadHistory c su) (dg_store d5) = (Spawning a, s6)" "ak_question a = q"
    using c(2) by (cases "recent_messages (ei_store ei) (ac_name c) (ac_window c) (dg_store d5)") simp
  define d6 where "d6 = put_request r ?i (Spawning a) (d5\<lparr>dg_store := s6\<rparr>)"
  have 6: "dlg_reachable L ei E s0 d6" "dg_requests d6 r = Some (?i, Spawning a)"
    using dlg_go [OF 5(1) store_call [OF 5(2) s6(1)]] by (simp_all add: d6_def put_request_def)
  obtain j where j: "dg_tasks d6 j = None" by (rule reachable_free [OF 6(1)])
  from dlg_go [OF 6(1) spawn [OF 6(2) j]] s6(2) show ?thesis
    by (intro exI [of _ "spawn_task j r ?i a d6"] exI [of _ j])
       (simp add: dlg_defs pending_mark_thinking_def d1_def d2_def d3_def d4_def d5_def d6_def)
qed

text \<open>A provider that answers brings the task to the channel.\<close>

lemma task_to_channel:
  assumes reach: "dlg_reachable L ei E s0 d" and t: "dg_tasks d j = Some t" "tk_phase t = TBegin"
    and "dg_requests d r = Some (i, Waiting j)" and k: "dg_summarizers d k = None"
  shows "\<exists>d'. dlg_reachable L ei E s0 d' \<and> dg_requests d' r = Some (i, Waiting j) \<and>
           dg_tasks d' j = Some (t\<lparr>tk_phase := TSend (cc_text (c :: chat_completion))\<rparr>) \<and> dg_pending d' = dg_pending d \<and>
           dg_requests d' = dg_requests d \<and> dg_tasks d' = (dg_tasks d)(j \<mapsto> t\<lparr>tk_phase := TSend (cc_text c)\<rparr>)"
proof -
  let ?q = "call_provider (mp_provider (ak_preset (tk_ask t))) (chat_request_of (tk_ask t))"
  define d1 where "d1 = put_task j t TChat (?q d)"
  have 1: "dlg_reachable L ei E s0 d1" "dg_tasks d1 j = Some (t\<lparr>tk_phase := TChat\<rparr>)"
    using dlg_go [OF reach chat [OF t]] by (simp_all add: d1_def dlg_defs)
  define d2 where "d2 = put_task j (t\<lparr>tk_phase := TChat\<rparr>) (TRecord c) d1"
  have 2: "dlg_reachable L ei E s0 d2" "dg_tasks d2 j = Some (t\<lparr>tk_phase := TRecord c\<rparr>)" "dg_summarizers d2 k = None"
    using dlg_go [OF 1(1) completed [OF 1(2)]] k by (simp_all add: d1_def d2_def dlg_defs)
  from dlg_go [OF 2(1) recorded [OF 2(2) _ 2(3)]] assms(4) show ?thesis
    by (intro exI [of _ "record_step L ei j k (t\<lparr>tk_phase := TRecord c\<rparr>) c d2"])
       (simp add: d1_def d2_def dlg_defs split: prod.splits)
qed

subsection \<open>An installation\<close>

definition demo_profile :: profile where
  "demo_profile = \<lparr>pf_name = asc ''Ann'', pf_aliases = [], pf_birthday = None, pf_role = Adult, pf_persona = []\<rparr>"

definition demo_preset :: model_preset where
  "demo_preset = \<lparr>mp_provider = 0, mp_model = asc ''m'', mp_max_tokens = 300, mp_temperature = 0,
     input_price_per_mtok = 0, output_price_per_mtok = 0\<rparr>"

definition demo_libs :: libraries where
  "demo_libs = \<lparr>lib_unicode = basic_unicode,
     lib_calendar = \<lparr>years_since = \<lambda>today birthday. if birthday \<le> today then Some (nat ((today - birthday) div 365)) else None,
                     show_date = show_int, first_of_month = \<lambda>d. d\<rparr>,
     lib_float = \<lparr>f64_of_nat = \<lambda>n. n, f64_of_int = nat, f64_mul = (*), f64_add = (+), f64_div = (div),
                  f64_round = \<lambda>x. x, f64_as_i64 = int, f64_show2 = show_nat\<rparr>\<rparr>"

definition demo_engine :: "conv_tables engine_inner" where
  "demo_engine = \<lparr>ei_roster = \<lparr>fr_profiles = [demo_profile], fr_default_index = 0\<rparr>, ei_modes = [],
     ei_models = \<lparr>mr_fast = demo_preset, mr_smart = demo_preset\<rparr>, ei_store = pg_store,
     ei_config = \<lparr>context_window = 12, ec_reply_budget = 2800, utc_offset_hours = 3\<rparr>\<rparr>"

definition demo_conv :: conv_tables where
  "demo_conv = \<lparr>ct_messages = [], ct_summaries = Map.empty, ct_next_id = 1, ct_now = 50, ct_faults = []\<rparr>"

abbreviation demo_reachable :: "conv_tables dialogue \<Rightarrow> bool" where
  "demo_reachable \<equiv> dlg_reachable demo_libs demo_engine (\<lambda>_ _. False) demo_conv"

lemma demo_start: "\<exists>d. demo_reachable d \<and> dg_requests d = Map.empty \<and> dg_pending d = Map.empty \<and> dg_tasks d = Map.empty \<and>
    dg_summarizers d = Map.empty"
proof -
  obtain d where d: "dialogue_new demo_engine demo_conv 0 0 = Some d"
    by (simp add: dialogue_new_def demo_engine_def roster_default_profile_def iter_nth_def)
  then have "dg_requests d = Map.empty \<and> dg_pending d = Map.empty \<and> dg_tasks d = Map.empty \<and> dg_summarizers d = Map.empty"
    by (auto simp: dialogue_new_def)
  with dlg_reachable.start [OF d] show ?thesis by blast
qed

lemma demo_question: "parse (lib_unicode demo_libs) (asc ''2+2?'') (ei_roster demo_engine) (ei_modes demo_engine) = Ask (asc ''2+2?'') False"
  by code_simp

lemma demo_waiting:
  "\<exists>d j t. demo_reachable d \<and> dg_requests d 0 = Some ((asc ''u'', asc ''2+2?''), Waiting j) \<and>
     dg_tasks d j = Some t \<and> tk_user t = asc ''u'' \<and> tk_open t \<and> tk_phase t = TBegin \<and>
     dg_pending d (asc ''u'') = Some (PThinking (dg_now d)) \<and>
     dg_requests d = [0 \<mapsto> ((asc ''u'', asc ''2+2?''), Waiting j)] \<and> dg_tasks d = [j \<mapsto> t]"
proof -
  obtain d where d: "demo_reachable d" "dg_requests d = Map.empty" "dg_pending d = Map.empty" "dg_tasks d = Map.empty"
    using demo_start by blast
  then have "dg_requests d 0 = None" "dg_pending d (asc ''u'') = None" by simp_all
  from question_to_task [OF d(1) this demo_question] d(2,4) show ?thesis by fastforce
qed

lemma demo_channel:
  "\<exists>d j t. demo_reachable d \<and> dg_requests d 0 = Some ((asc ''u'', asc ''2+2?''), Waiting j) \<and>
     dg_tasks d j = Some t \<and> tk_user t = asc ''u'' \<and> tk_open t \<and> tk_phase t = TSend (asc ''4'') \<and>
     dg_pending d (asc ''u'') \<noteq> None \<and>
     dg_requests d = [0 \<mapsto> ((asc ''u'', asc ''2+2?''), Waiting j)] \<and> dg_tasks d = [j \<mapsto> t]"
proof -
  obtain d j t where d: "demo_reachable d" "dg_requests d 0 = Some ((asc ''u'', asc ''2+2?''), Waiting j)"
    "dg_tasks d j = Some t" "tk_user t = asc ''u''" "tk_open t" "tk_phase t = TBegin" "dg_pending d (asc ''u'') \<noteq> None"
    "dg_requests d = [0 \<mapsto> ((asc ''u'', asc ''2+2?''), Waiting j)]" "dg_tasks d = [j \<mapsto> t]"
    using demo_waiting by blast
  obtain k where "dg_summarizers d k = None" by (rule reachable_free [OF d(1)])
  from task_to_channel [OF d(1,3,6,2) this, of "\<lparr>cc_text = asc ''4'', cc_usage = \<lparr>prompt_tokens = 5, completion_tokens = 1\<rparr>\<rparr>"]
    d(4,5,7,8,9)
  show ?thesis by fastforce
qed

lemma demo_answered:
  "\<exists>d. demo_reachable d \<and> dg_requests d 0 = Some ((asc ''u'', asc ''2+2?''), Answered (asc ''4''))"
proof -
  obtain d j t where d: "demo_reachable d" "dg_requests d 0 = Some ((asc ''u'', asc ''2+2?''), Waiting j)"
    "dg_tasks d j = Some t" "tk_open t" "tk_phase t = TSend (asc ''4'')"
    using demo_channel by blast
  define d1 where "d1 = send_step j t (asc ''4'') d"
  have 1: "demo_reachable d1" "dg_requests d1 0 = Some ((asc ''u'', asc ''2+2?''), Waiting j)"
    "dg_tasks d1 j = Some (t\<lparr>tk_phase := TSent (asc ''4'')\<rparr>)"
    using dlg_go [OF d(1) sends [OF d(3,5)]] d(2,4) by (simp_all add: d1_def dlg_defs)
  from dlg_go [OF 1(1) received [OF 1(2,3)]] show ?thesis
    by (intro exI [of _ "reply_in_time 0 (asc ''u'', asc ''2+2?'') (asc ''4'') d1"]) (simp add: dlg_defs)
qed

lemma demo_expired:
  "\<exists>d j t. demo_reachable d \<and> dg_requests d 0 = Some ((asc ''u'', asc ''2+2?''), Expired j) \<and>
     dg_tasks d j = Some t \<and> tk_user t = asc ''u'' \<and> tk_open t \<and> tk_phase t = TSend (asc ''4'') \<and>
     dg_pending d (asc ''u'') \<noteq> None \<and>
     dg_requests d = [0 \<mapsto> ((asc ''u'', asc ''2+2?''), Expired j)] \<and> dg_tasks d = [j \<mapsto> t]"
proof -
  obtain d j t where d: "demo_reachable d" "dg_requests d 0 = Some ((asc ''u'', asc ''2+2?''), Waiting j)"
    "dg_tasks d j = Some t" "tk_user t = asc ''u''" "tk_open t" "tk_phase t = TSend (asc ''4'')" "dg_pending d (asc ''u'') \<noteq> None"
    "dg_requests d = [0 \<mapsto> ((asc ''u'', asc ''2+2?''), Waiting j)]" "dg_tasks d = [j \<mapsto> t]"
    using demo_channel by blast
  from dlg_go [OF d(1) deadline [OF d(2,3)]] d(3-9) show ?thesis
    by (intro exI [of _ "put_request 0 (asc ''u'', asc ''2+2?'') (Expired j) d"] exI [of _ j] exI [of _ t]) (simp add: dlg_defs)
qed

text \<open>The receiver is gone and the reply is about to be sent.\<close>

lemma demo_late:
  "\<exists>d j t x. demo_reachable d \<and> dg_requests d = [0 \<mapsto> ((asc ''u'', asc ''2+2?''), Answered x)] \<and> dg_tasks d = [j \<mapsto> t] \<and>
     tk_user t = asc ''u'' \<and> \<not> tk_open t \<and> tk_phase t = TSend (asc ''4'') \<and> dg_pending d (asc ''u'') \<noteq> None"
proof -
  obtain d j t where d: "demo_reachable d" "dg_requests d 0 = Some ((asc ''u'', asc ''2+2?''), Expired j)"
    "dg_tasks d j = Some t" "tk_user t = asc ''u''" "tk_phase t = TSend (asc ''4'')" "dg_pending d (asc ''u'') \<noteq> None"
    "dg_requests d = [0 \<mapsto> ((asc ''u'', asc ''2+2?''), Expired j)]" "dg_tasks d = [j \<mapsto> t]"
    using demo_expired by blast
  from dlg_go [OF d(1) dropped [OF d(2,3)]] d(4-8) show ?thesis
    by (intro exI [of _ "drop_receiver 0 (asc ''u'', asc ''2+2?'') j t d"] exI [of _ j] exI [of _ "t\<lparr>tk_open := False\<rparr>"]
        exI [of _ PHRASE_THINKING_STARTED]) (simp add: dlg_defs)
qed

end
