(* ===== verification/Test_Doubles.thy ===== *)
theory Test_Doubles
  imports Dialogue_Engine House_Engine
begin

section \<open>The scripted doubles of the tests\<close>

text \<open>
  Model of the scripted provider and the scripted house runtime of \<^verbatim>\<open>crates/bridge-core/src/testing.rs\<close>, and that
  what they do is among the behaviours the step relations of the engines allow: a fact about all
  interleavings holds in particular for a run with the doubles. A delay is a number of milliseconds, a
  mutex the state that is passed on.
\<close>

record scripted_provider =
  sp_delay :: nat
  sp_script :: "(rstr, rstr) result"
  sp_calls :: "chat_request list"

definition provider_replying :: "rstr \<Rightarrow> scripted_provider" where
  "provider_replying str = \<lparr>sp_delay = 0, sp_script = Ok str, sp_calls = []\<rparr>"

definition provider_slow :: "rstr \<Rightarrow> nat \<Rightarrow> scripted_provider" where
  "provider_slow str delay = \<lparr>sp_delay = delay, sp_script = Ok str, sp_calls = []\<rparr>"

definition provider_failing :: "rstr \<Rightarrow> scripted_provider" where
  "provider_failing kind = \<lparr>sp_delay = 0, sp_script = Err kind, sp_calls = []\<rparr>"

definition scripted_chat :: "chat_request \<Rightarrow> scripted_provider \<Rightarrow> (chat_completion, provider_error) result \<times> scripted_provider" where
  "scripted_chat req p =
     (case sp_script p of
        Inr str \<Rightarrow> Ok \<lparr>cc_text = str, cc_usage = \<lparr>prompt_tokens = 10, completion_tokens = 20\<rparr>\<rparr>
      | Inl kind \<Rightarrow>
          Err (if kind = asc ''timeout'' then Timeout
               else if kind = asc ''rate'' then RateLimited
               else if kind = asc ''auth'' then Auth
               else Api 500 kind),
      p\<lparr>sp_calls := sp_calls p @ [req]\<rparr>)"

record scripted_house_runtime =
  sh_delay :: nat
  sh_reply :: rstr
  sh_thread_id :: rstr
  sh_start_calls :: "(i64 \<times> rstr) list"
  sh_turn_calls :: "(rstr \<times> rstr) list"

definition runtime_replying :: "rstr \<Rightarrow> scripted_house_runtime" where
  "runtime_replying str =
     \<lparr>sh_delay = 0, sh_reply = str, sh_thread_id = asc ''thread-1'', sh_start_calls = [], sh_turn_calls = []\<rparr>"

definition runtime_slow :: "rstr \<Rightarrow> nat \<Rightarrow> scripted_house_runtime" where
  "runtime_slow str delay =
     \<lparr>sh_delay = delay, sh_reply = str, sh_thread_id = asc ''thread-1'', sh_start_calls = [], sh_turn_calls = []\<rparr>"

definition scripted_start_thread :: "house_context \<Rightarrow> rstr \<Rightarrow> scripted_house_runtime \<Rightarrow>
    (rstr, rstr) result \<times> scripted_house_runtime" where
  "scripted_start_thread house instructions sr =
     (Ok (sh_thread_id sr), sr\<lparr>sh_start_calls := sh_start_calls sr @ [(hc_id house, instructions)]\<rparr>)"

definition scripted_turn :: "house_context \<Rightarrow> rstr \<Rightarrow> rstr \<Rightarrow> scripted_house_runtime \<Rightarrow>
    (rstr, rstr) result \<times> scripted_house_runtime" where
  "scripted_turn house thread_id utterance sr =
     (Ok (sh_reply sr), sr\<lparr>sh_turn_calls := sh_turn_calls sr @ [(thread_id, utterance)]\<rparr>)"

subsection \<open>The doubles are behaviours of the model\<close>

lemma scripted_chat_step:
  assumes "dg_tasks d j = Some t" and "tk_phase t = TChat"
  shows "dlg_step L ei E d
     (put_task j t (case fst (scripted_chat req p) of
        Inr c \<Rightarrow> TRecord c | Inl e \<Rightarrow> TSend (phrase_for_provider_error e)) d)"
  using dlg_step.completed [OF assms] dlg_step.failed [OF assms] by (simp split: sum.split)

text \<open>A script that replies never fails and always says the same; every call is kept.\<close>

lemma scripted_chat_replying:
  "scripted_chat req (provider_replying str) =
     (Ok \<lparr>cc_text = str, cc_usage = \<lparr>prompt_tokens = 10, completion_tokens = 20\<rparr>\<rparr>,
      provider_replying str\<lparr>sp_calls := [req]\<rparr>)"
  by (simp add: scripted_chat_def provider_replying_def)

lemma scripted_runtime_steps:
  assumes "en_jobs e j = Some job"
  shows "jb_phase job = JStarting \<Longrightarrow> wf_str (sh_thread_id sr) \<Longrightarrow>
           fst (scripted_start_thread house instructions sr) = Ok i \<Longrightarrow>
           engine_step uc cfg S E e (set_job j job (JSaving i) e)"
    and "jb_phase job = JTurn thread_id \<Longrightarrow> wf_str (sh_reply sr) \<Longrightarrow>
           fst (scripted_turn house thread_id utterance sr) = Ok str \<Longrightarrow>
           engine_step uc cfg S E e (finish_job j job (WorkOk str) e)"
  using engine_step.started [OF assms] engine_step.answered [OF assms]
  by (auto simp: scripted_start_thread_def scripted_turn_def)

end
