(* ===== verification/House_Run.thy ===== *)
theory House_Run
  imports Test_Doubles
begin

section \<open>A scheduler of the household engine\<close>

text \<open>
  One request runs to its reply, its task beside it, against a scripted runtime whose delay is compared with the
  reply budget; a task has the number of the request that spawned it. Every move is a step of \<open>engine_step\<close>.
\<close>

subsection \<open>Moves\<close>

definition house_job_move :: "household_engine_config \<Rightarrow> 's household_store \<Rightarrow> scripted_house_runtime \<Rightarrow> nat \<Rightarrow>
    's engine \<Rightarrow> 's engine option" where
  "house_job_move cfg S W j e =
     (case en_jobs e j of
        None \<Rightarrow> None
      | Some job \<Rightarrow>
          (case jb_phase job of
             JBegin \<Rightarrow> Some (job_begin (homey_enabled cfg) j job e)
           | JStarting \<Rightarrow> Some (set_job j job (JSaving (sh_thread_id W)) e)
           | JSaving thread_id \<Rightarrow> Some (job_save S j job thread_id e)
           | JTurn thread_id \<Rightarrow> Some (finish_job j job (WorkOk (sh_reply W)) e)
           | JFinished res \<Rightarrow> None))"

text \<open>The task of the request is in a turn that takes longer than the budget.\<close>

definition slow_turn :: "household_engine_config \<Rightarrow> scripted_house_runtime \<Rightarrow> job \<Rightarrow> bool" where
  "slow_turn cfg W job \<longleftrightarrow> reply_budget cfg < sh_delay W \<and> (case jb_phase job of JTurn _ \<Rightarrow> True | _ \<Rightarrow> False)"

definition house_wait_move :: "household_engine_config \<Rightarrow> 's household_store \<Rightarrow> scripted_house_runtime \<Rightarrow> nat \<Rightarrow>
    household_input \<Rightarrow> house_context \<Rightarrow> nat \<Rightarrow> 's engine \<Rightarrow> 's engine option" where
  "house_wait_move cfg S W r input house j e =
     (case en_jobs e j of
        None \<Rightarrow> None
      | Some job \<Rightarrow>
          (case jb_phase job of
             JFinished res \<Rightarrow> Some (set_phase r input (in_time house res) e)
           | _ \<Rightarrow> if slow_turn cfg W job then Some (set_phase r input (Mark house j) e) else house_job_move cfg S W j e))"

definition house_request_move :: "unicode \<Rightarrow> household_engine_config \<Rightarrow> 's household_store \<Rightarrow> scripted_house_runtime \<Rightarrow>
    nat \<Rightarrow> 's engine \<Rightarrow> 's engine option" where
  "house_request_move uc cfg S W r e =
     (case en_requests e r of
        None \<Rightarrow> None
      | Some (input, ph) \<Rightarrow>
          (case ph of
             At p \<Rightarrow> (case respond_step uc (chunk_limit cfg) S input p (en_store e) of
               (ph', s') \<Rightarrow> Some (set_phase r input ph' (e\<lparr>en_store := s'\<rparr>)))
           | Enter house \<Rightarrow> if en_jobs e r = None then Some (enter_step r r input house e) else None
           | Wait house j \<Rightarrow> house_wait_move cfg S W r input house j e
           | Mark house j \<Rightarrow> map_option (\<lambda>job. mark_step S r input house j job e) (en_jobs e j)
           | Done reply \<Rightarrow> None
           | Panicked \<Rightarrow> None))"

definition house_watcher_move :: "'s household_store \<Rightarrow> nat \<Rightarrow> 's engine \<Rightarrow> 's engine option" where
  "house_watcher_move S j e =
     (case (en_watchers e j, en_jobs e j) of
        (Some (house_id, application_id), Some job) \<Rightarrow>
          (case jb_phase job of
             JFinished res \<Rightarrow> Some (watcher_step S j house_id application_id res e)
           | _ \<Rightarrow> None)
      | _ \<Rightarrow> None)"

text \<open>A request makes at most ten steps of its own, its task four.\<close>

definition house_run :: "unicode \<Rightarrow> household_engine_config \<Rightarrow> 's household_store \<Rightarrow> scripted_house_runtime \<Rightarrow> nat \<Rightarrow>
    's engine \<Rightarrow> 's engine" where
  "house_run uc cfg S W r e = moves 14 (house_request_move uc cfg S W r) e"

text \<open>Only as far as the turn of its task.\<close>

definition in_turn :: "nat \<Rightarrow> 's engine \<Rightarrow> bool" where
  "in_turn j e = (case en_jobs e j of Some job \<Rightarrow> (case jb_phase job of JTurn _ \<Rightarrow> True | _ \<Rightarrow> False) | None \<Rightarrow> False)"

definition house_run_to_turn :: "unicode \<Rightarrow> household_engine_config \<Rightarrow> 's household_store \<Rightarrow> scripted_house_runtime \<Rightarrow> nat \<Rightarrow>
    's engine \<Rightarrow> 's engine" where
  "house_run_to_turn uc cfg S W r e =
     moves 14 (\<lambda>e. if in_turn r e then None else house_request_move uc cfg S W r e) e"

text \<open>What a task still does after the reply of its request, and its watcher.\<close>

definition house_finish :: "household_engine_config \<Rightarrow> 's household_store \<Rightarrow> scripted_house_runtime \<Rightarrow> nat \<Rightarrow>
    's engine \<Rightarrow> 's engine" where
  "house_finish cfg S W j e = moves 1 (house_watcher_move S j) (moves 4 (house_job_move cfg S W j) e)"

definition arrived :: "nat \<Rightarrow> household_input \<Rightarrow> 's engine \<Rightarrow> 's engine" where
  "arrived r input e = set_phase r input (At (Resolve FindBinding)) e"

definition house_reply_of :: "'s engine \<Rightarrow> nat \<Rightarrow> household_reply option" where
  "house_reply_of e r = (case en_requests e r of Some (_, Done reply) \<Rightarrow> Some reply | _ \<Rightarrow> None)"

subsection \<open>They are steps of the engine\<close>

text \<open>The runtime of the tests says well-formed strings.\<close>

definition speaks :: "scripted_house_runtime \<Rightarrow> bool" where
  "speaks W \<longleftrightarrow> wf_str (sh_reply W) \<and> wf_str (sh_thread_id W)"

lemma house_job_move_step:
  assumes "house_job_move cfg S W j e = Some e'" and "speaks W"
  shows "engine_step uc cfg S E e e'"
  using assms
  by (auto simp: house_job_move_def speaks_def intro: engine_step.begins engine_step.started engine_step.saved
      engine_step.answered split: option.splits job_phase.splits)

lemma house_wait_move_step:
  assumes "house_wait_move cfg S W r input house j e = Some e'" and "speaks W"
    and "en_requests e r = Some (input, Wait house j)"
  shows "engine_step uc cfg S E e e'"
proof -
  from assms obtain job where job: "en_jobs e j = Some job" by (auto simp: house_wait_move_def split: option.splits)
  show ?thesis
  proof (cases "jb_phase job")
    case (JFinished res)
    with assms(1) job engine_step.finished_in_time [OF assms(3) job JFinished] show ?thesis
      by (simp add: house_wait_move_def)
  qed (use assms job in \<open>auto simp: house_wait_move_def intro: engine_step.deadline house_job_move_step split: if_splits\<close>)
qed

lemma house_request_move_step:
  assumes "house_request_move uc cfg S W r e = Some e'" and "speaks W"
  shows "engine_step uc cfg S E e e'"
proof -
  from assms obtain input ph where r: "en_requests e r = Some (input, ph)"
    by (auto simp: house_request_move_def split: option.splits)
  show ?thesis
  proof (cases ph)
    case (Wait house j)
    with assms r show ?thesis by (auto simp: house_request_move_def intro: house_wait_move_step)
  qed (use assms r in \<open>auto simp: house_request_move_def intro: engine_step.intros split: prod.splits if_splits\<close>)
qed

lemma house_watcher_move_step: "house_watcher_move S j e = Some e' \<Longrightarrow> engine_step uc cfg S E e e'"
  by (auto simp: house_watcher_move_def intro: engine_step.late split: option.splits job_phase.splits)

lemma house_scheduler_steps:
  assumes "speaks W"
  shows "(engine_step uc cfg S E)\<^sup>*\<^sup>* e (house_run uc cfg S W r e)"
    and "(engine_step uc cfg S E)\<^sup>*\<^sup>* e (house_run_to_turn uc cfg S W r e)"
    and "(engine_step uc cfg S E)\<^sup>*\<^sup>* e (house_finish cfg S W r e)"
    and "en_requests e r = None \<Longrightarrow> engine_step uc cfg S E e (arrived r input e)"
proof -
  show "(engine_step uc cfg S E)\<^sup>*\<^sup>* e (house_run uc cfg S W r e)"
    unfolding house_run_def by (rule moves_steps) (rule house_request_move_step [OF _ assms])
  show "(engine_step uc cfg S E)\<^sup>*\<^sup>* e (house_run_to_turn uc cfg S W r e)"
    unfolding house_run_to_turn_def by (rule moves_steps) (auto intro: house_request_move_step [OF _ assms] split: if_splits)
  show "(engine_step uc cfg S E)\<^sup>*\<^sup>* e (house_finish cfg S W r e)"
    unfolding house_finish_def
    by (rule rtranclp_trans [OF moves_steps [OF house_job_move_step [OF _ assms]] moves_steps [OF house_watcher_move_step]])
  show "en_requests e r = None \<Longrightarrow> engine_step uc cfg S E e (arrived r input e)"
    unfolding arrived_def by (rule engine_step.arrive)
qed

end
