(* ===== verification/Question.thy ===== *)
theory Question
  imports Household_Talk House_Run
begin

section \<open>A question that is answered in time\<close>

text \<open>
  The ordinary course of a request on the Postgres store: an admitted device asks an idle house, the runtime answers
  within the budget. The run is the one of the scheduler \<open>house_run\<close>; the database answers every call.
\<close>

lemmas question_defs =
  house_run_def arrived_def moves_numeral house_request_move_def house_wait_move_def house_job_move_def slow_turn_def
  engine_defs pg_household_store_def or_panic_def

text \<open>The calls of the runtime: a turn in the thread of the house, or a thread that is started and then a turn in it.\<close>

definition calls_for :: "household_engine_config \<Rightarrow> scripted_house_runtime \<Rightarrow> house_context \<Rightarrow> rstr \<Rightarrow> runtime_call list" where
  "calls_for cfg W house utterance =
     (case codex_thread_id house of
        Some thread_id \<Rightarrow> [RunTurn house thread_id utterance]
      | None \<Rightarrow> [StartThread house (build_house_instructions house (homey_enabled cfg)), RunTurn house (sh_thread_id W) utterance])"

definition with_thread :: "house_context \<Rightarrow> rstr \<Rightarrow> pg_state \<Rightarrow> pg_state" where
  "with_thread house thread_id s =
     (case pg_houses s (hc_id house) of
        None \<Rightarrow> s
      | Some hr \<Rightarrow> s\<lparr>pg_houses := (pg_houses s)(hc_id house \<mapsto> hr\<lparr>hr_thread := Some thread_id\<rparr>)\<rparr>)"

lemma with_thread_fields [simp]:
  "pg_faults (with_thread h t s) = pg_faults s" "pg_surfaces (with_thread h t s) = pg_surfaces s"
  "pg_now (with_thread h t s) = pg_now s" "surface_fk (with_thread h t s) i a = surface_fk s i a"
  by (simp_all add: with_thread_def surface_fk_def split: option.split)

lemma pg_thread_saved:
  assumes "pg_faults s = []" and "pg_bound i s = Some house" and "codex_thread_id house = None"
  shows "pg_save_thread_id (hc_id house) t s = (Ok (), with_thread house t s)"
  using assms by (auto simp: pg_save_thread_id_def with_db_def pg_bound_iff with_thread_def)

lemma thread_stored:
  assumes "pg_bound i s = Some house" and "codex_thread_id house = None \<or> codex_thread_id house = Some t"
    and "s' = (if codex_thread_id house = None then with_thread house t s else s)"
  shows "Option.bind (pg_houses s' (hc_id house)) hr_thread = Some t"
  using assms by (auto simp: pg_bound_iff with_thread_def)

lemma question_run:
  assumes f: "pg_faults (en_store e) = []" and b: "pg_bound (hi_identity input) (en_store e) = Some house"
    and none: "\<forall>row. pg_conts (en_store e) (hc_id house, si_application_id (hi_identity input)) = Some row \<longrightarrow> \<not> ct_expires row > pg_now (en_store e)"
      "\<forall>row. pg_pending (en_store e) (hc_id house, si_application_id (hi_identity input)) = Some row \<longrightarrow> \<not> pe_expires row > pg_now (en_store e)"
    and idle: "en_locks e (hc_id house) = None" "en_jobs e r = None"
    and asks: "\<not> (hi_new_session input \<and> trim (hi_utterance input) = [])" and time: "sh_delay W \<le> reply_budget cfg"
    and t: "t = (case codex_thread_id house of Some t \<Rightarrow> t | None \<Rightarrow> sh_thread_id W)"
    and s1: "s1 = (if codex_thread_id house = None then with_thread house t (en_store e) else en_store e)"
    and shaped: "shape_and_save (chunk_limit cfg) (pg_household_store env) (hc_id house) (si_application_id (hi_identity input))
        (sh_reply W) s1 = Some (reply, s')"
  shows "house_run uc cfg (pg_household_store env) W r (arrived r input e) =
     e\<lparr>en_store := s', en_requests := (en_requests e)(r \<mapsto> (input, Done reply)),
       en_jobs := (en_jobs e)(r \<mapsto> \<lparr>jb_input = input, jb_house = house, jb_phase = JFinished (WorkOk (sh_reply W)), jb_aborting = False\<rparr>),
       en_locks := (en_locks e)(hc_id house := None), en_calls := en_calls e @ calls_for cfg W house (hi_utterance input)\<rparr>"
proof -
  have resolve: "pg_resolve_step env (hi_identity input) FindBinding (en_store e) = (Ok (Resolved (Bound house)), en_store e)"
    by (simp add: with_db_def f b)
  have take: "pg_take_continuation env (hc_id house) (si_application_id (hi_identity input)) (en_store e) = (Ok None, en_store e)"
    using none(1) f by (auto simp: pg_take_continuation_def with_db_def split: option.split)
  have poll: "pg_poll_pending env (hc_id house) (si_application_id (hi_identity input)) (en_store e) = (Ok NoReply, en_store e)"
    using none(2) f by (auto simp: pg_poll_pending_def with_db_def split: option.split)
  have greets: "(hi_new_session input \<and> trim (hi_utterance input) = []) = False" using asks by simp
  show ?thesis
  proof (cases "codex_thread_id house")
    case None
    have "pg_save_thread_id (hc_id house) (sh_thread_id W) (en_store e) = (Ok (), with_thread house (sh_thread_id W) (en_store e))"
      by (rule pg_thread_saved [OF f b None])
    with None resolve take poll idle time t s1 shaped show ?thesis
      by (simp add: question_defs calls_for_def greets del: pg_resolve_step.simps)
  next
    case (Some u)
    with resolve take poll idle time t s1 shaped show ?thesis
      by (simp add: question_defs calls_for_def greets del: pg_resolve_step.simps)
  qed
qed

text \<open>
  C4. A question to an idle house that the runtime answers within the budget: the engine runs to its reply; the
  runtime is asked for exactly one turn with these words, in the thread of the house, or in one that is started and
  stored just before; the device hears the beginning of the answer, and exactly the rest of it is stored for
  the device, for the next ten minutes; the house is free again.
\<close>

theorem question_in_time:
  assumes laws: "pg_env_laws env" and shaper: "reply_shaper_new (chunk_limit cfg) = Some shaper"
    and W: "speaks W" "storable env (sh_reply W)" "sh_delay W \<le> reply_budget cfg"
    and f: "pg_faults (en_store e) = []" and b: "pg_bound (hi_identity input) (en_store e) = Some house"
    and none: "\<forall>row. pg_conts (en_store e) (hc_id house, si_application_id (hi_identity input)) = Some row \<longrightarrow> \<not> ct_expires row > pg_now (en_store e)"
      "\<forall>row. pg_pending (en_store e) (hc_id house, si_application_id (hi_identity input)) = Some row \<longrightarrow> \<not> pe_expires row > pg_now (en_store e)"
    and idle: "en_locks e (hc_id house) = None" "en_jobs e r = None" "en_requests e r = None"
    and asks: "\<not> (hi_new_session input \<and> trim (hi_utterance input) = [])"
  shows "\<exists>e' d ds thread_id. (bridge_step env uc cfg)\<^sup>*\<^sup>* e e' \<and>
           en_requests e' r = Some (input, Done (Say (d @ (if ds = [] then [] else CONTINUATION_SUFFIX)))) \<and>
           d @ concat ds = sh_reply W \<and>
           (\<forall>t < pg_now (en_store e) + CONTINUATION_TTL_SECONDS.
              live_chunks env t (pg_conts (en_store e') (hc_id house, si_application_id (hi_identity input))) =
                (if ds = [] then None else Some ds)) \<and>
           en_calls e' = en_calls e @ calls_for cfg W house (hi_utterance input) \<and>
           RunTurn house thread_id (hi_utterance input) \<in> set (calls_for cfg W house (hi_utterance input)) \<and>
           v_thread (pg_view env (en_store e')) (hc_id house) = Some thread_id \<and>
           en_locks e' (hc_id house) = None"
proof -
  let ?a = "si_application_id (hi_identity input)"
  define thread_id where "thread_id = (case codex_thread_id house of Some t \<Rightarrow> t | None \<Rightarrow> sh_thread_id W)"
  define s1 where "s1 = (if codex_thread_id house = None then with_thread house thread_id (en_store e) else en_store e)"
  have limit: "chunk_limit cfg > 12" using shaper by (simp split: if_splits)
  obtain d ds where split: "shaper_split (chunk_limit cfg) (sh_reply W) = Some
        \<lparr>spoken = d @ (if ds = [] then [] else CONTINUATION_SUFFIX), remaining = ds\<rparr>"
    and d: "d @ concat ds = sh_reply W" "\<forall>c \<in> set ds. c \<noteq> []"
    using shaper_split_shape [OF limit, of "sh_reply W"] by blast
  have s: "pg_faults s1 = []" "surface_fk s1 (hc_id house) ?a" "pg_now s1 = pg_now (en_store e)"
    using f pg_bound_fk [OF b] by (simp_all add: s1_def)
  have wf: "wf_str (sh_reply W)" using W(1) by (simp add: speaks_def)
  obtain s' where s': "shape_and_save (chunk_limit cfg) (pg_household_store env) (hc_id house) ?a (sh_reply W) s1 =
      Some (Say (d @ (if ds = [] then [] else CONTINUATION_SUFFIX)), s')" "same_tables s1 s'"
    "\<And>t. t < pg_now s1 + CONTINUATION_TTL_SECONDS \<Longrightarrow>
       live_chunks env t (pg_conts s' (hc_id house, ?a)) = (if ds = [] then None else Some ds)"
    by (rule shape_calm [OF laws s(1,2) wf W(2) split d]) blast
  define e' where "e' = house_run uc cfg (pg_household_store env) W r (arrived r input e)"
  have run: "e' = e\<lparr>en_store := s', en_requests := (en_requests e)(r \<mapsto> (input, Done (Say (d @ (if ds = [] then [] else CONTINUATION_SUFFIX))))),
       en_jobs := (en_jobs e)(r \<mapsto> \<lparr>jb_input = input, jb_house = house, jb_phase = JFinished (WorkOk (sh_reply W)), jb_aborting = False\<rparr>),
       en_locks := (en_locks e)(hc_id house := None), en_calls := en_calls e @ calls_for cfg W house (hi_utterance input)\<rparr>"
    unfolding e'_def by (rule question_run [OF f b none idle(1,2) asks W(3) thread_id_def s1_def s'(1)])
  have "(bridge_step env uc cfg)\<^sup>*\<^sup>* e e'"
    unfolding e'_def
    by (rule converse_rtranclp_into_rtranclp [OF house_scheduler_steps(4) [OF W(1) idle(3)] house_scheduler_steps(1) [OF W(1)]])
  moreover have "v_thread (pg_view env s') (hc_id house) = Some thread_id"
  proof -
    have "Option.bind (pg_houses s1 (hc_id house)) hr_thread = Some thread_id"
      by (rule thread_stored [OF b _ s1_def]) (simp add: thread_id_def split: option.split)
    with s'(2) show ?thesis by (simp add: same_tables_def)
  qed
  moreover have "RunTurn house thread_id (hi_utterance input) \<in> set (calls_for cfg W house (hi_utterance input))"
    by (simp add: calls_for_def thread_id_def split: option.split)
  moreover have "en_requests e' r = Some (input, Done (Say (d @ (if ds = [] then [] else CONTINUATION_SUFFIX))))"
    "en_store e' = s'" "en_calls e' = en_calls e @ calls_for cfg W house (hi_utterance input)" "en_locks e' (hc_id house) = None"
    by (simp_all add: run)
  ultimately show ?thesis using d(1) s'(3) s(3) by metis
qed

theorem question_in_time_witness:
  "\<exists>e' d ds. (bridge_step demo_env basic_unicode demo_cfg)\<^sup>*\<^sup>* (engine_new demo_bound) e' \<and>
     en_requests e' 7 = Some (demo_input, Done (Say (d @ (if ds = [] then [] else CONTINUATION_SUFFIX)))) \<and>
     d @ concat ds = asc ''Yes.'' \<and> en_locks e' 1 = None"
proof -
  let ?W = "runtime_replying (asc ''Yes.'')"
  have W: "speaks ?W" "storable demo_env (sh_reply ?W)" "sh_delay ?W \<le> reply_budget demo_cfg"
    using demo_storable by (simp_all add: speaks_def runtime_replying_def asc_def wf_str_def is_scalar_def)
  have s: "pg_faults (en_store (engine_new demo_bound)) = []"
    "pg_bound (hi_identity demo_input) (en_store (engine_new demo_bound)) = Some demo_house"
    "\<forall>row. pg_conts (en_store (engine_new demo_bound)) (hc_id demo_house, si_application_id (hi_identity demo_input)) = Some row \<longrightarrow>
       \<not> ct_expires row > pg_now (en_store (engine_new demo_bound))"
    "\<forall>row. pg_pending (en_store (engine_new demo_bound)) (hc_id demo_house, si_application_id (hi_identity demo_input)) = Some row \<longrightarrow>
       \<not> pe_expires row > pg_now (en_store (engine_new demo_bound))"
    using demo_bound_house by (simp_all add: engine_new_def demo_bound_fields)
  have idle: "en_locks (engine_new demo_bound) (hc_id demo_house) = None" "en_jobs (engine_new demo_bound) 7 = None"
    "en_requests (engine_new demo_bound) 7 = None" "\<not> (hi_new_session demo_input \<and> trim (hi_utterance demo_input) = [])"
    by (simp_all add: engine_new_def demo_input_def)
  obtain e' d ds where "(bridge_step demo_env basic_unicode demo_cfg)\<^sup>*\<^sup>* (engine_new demo_bound) e'"
    "en_requests e' 7 = Some (demo_input, Done (Say (d @ (if ds = [] then [] else CONTINUATION_SUFFIX))))"
    "d @ concat ds = sh_reply ?W" "en_locks e' (hc_id demo_house) = None"
    using question_in_time [OF demo_pg.pg_env_laws_axioms demo_shaper W s idle, of basic_unicode] by blast
  then show ?thesis
    by (intro exI [of _ e'] exI [of _ d] exI [of _ ds]) (simp add: runtime_replying_def demo_house_def)
qed

end
