(* ===== verification/Dialogue_System.thy ===== *)
theory Dialogue_System
  imports Dialogue_Engine
begin

section \<open>Properties of the dialogue engine\<close>

text \<open>
  What holds of every interleaving of requests, reply tasks and summarisers of the dialogue
  engine, and of its summaries over the Postgres store.
\<close>

subsection \<open>The state of the dialogue\<close>

text \<open>
  C31. Whatever is said and in whatever order, the active profile is one of the family, the
  active mode one of the configured modes and the chosen window between one and fifty
  messages; so a question always finds its speaker, and the window that goes to the store is
  the chosen or the configured one.
\<close>

theorem dialogue_state_wellformed:
  assumes "dlg_reachable L ei E s0 d"
  shows "active_profile (dg_state d) \<in> roster_names (ei_roster ei) \<and>
         (\<forall>m. ds_mode (dg_state d) = Some m \<longrightarrow> m \<in> md_name ` set (ei_modes ei)) \<and>
         (\<forall>n. window_override (dg_state d) = Some n \<longrightarrow> n \<in> {1..50}) \<and>
         (\<exists>c. ask_step ei q tier (dg_state d) = Calling (LoadSummary c) \<and>
              roster_get (ei_roster ei) (active_profile (dg_state d)) = Some (ac_profile c) \<and>
              ac_window c \<in> insert (context_window (ei_config ei)) {1..50})"
proof -
  have ok: "state_ok (ei_roster ei) (ei_modes ei) (dg_state d)" by (rule reachable_state_ok [OF assms])
  then obtain p where "roster_get (ei_roster ei) (active_profile (dg_state d)) = Some p"
    using roster_get_iff unfolding state_ok_def by metis
  with ok show ?thesis by (auto simp: ask_step_def state_ok_def window_of_def split: option.splits)
qed

theorem dialogue_state_wellformed_witness:
  "\<exists>d. demo_reachable d \<and> active_profile (dg_state d) \<in> roster_names (ei_roster demo_engine)"
proof -
  obtain d where "demo_reachable d" using demo_start by blast
  with dialogue_state_wellformed [OF this, of undefined None] show ?thesis by blast
qed

subsection \<open>Answers\<close>

text \<open>
  C30. Nobody hears the answer to somebody else's question: a request is answered with what
  the engine itself says, or with the reply of a task that a request of the same user
  started; a deferred answer waits only for that user.
\<close>

theorem answers_reach_their_asker:
  assumes "dlg_reachable L ei E s0 d"
  shows "(dg_requests d r = Some ((user, utterance), Answered x) \<longrightarrow>
            own_words L ei x \<or>
            (\<exists>j t. dg_tasks d j = Some t \<and> tk_user t = user \<and> tk_phase t \<in> {TSent x, TDone x})) \<and>
         (dg_pending d user = Some (PReady x) \<longrightarrow>
            (\<exists>j t. dg_tasks d j = Some t \<and> tk_user t = user \<and> tk_phase t \<in> {TSent x, TDone x}))"
  using reachable_answers [OF assms] unfolding ready_ok_def answers_ok_def replied_def
  by (metis fst_conv insertI1 insertI2)

theorem answers_reach_their_asker_witness:
  "\<exists>d. demo_reachable d \<and> dg_requests d 0 = Some ((asc ''u'', asc ''2+2?''), Answered (asc ''4'')) \<and>
     (own_words demo_libs demo_engine (asc ''4'') \<or>
      (\<exists>j t. dg_tasks d j = Some t \<and> tk_user t = asc ''u'' \<and> tk_phase t \<in> {TSent (asc ''4''), TDone (asc ''4'')}))"
proof -
  obtain d where d: "demo_reachable d" "dg_requests d 0 = Some ((asc ''u'', asc ''2+2?''), Answered (asc ''4''))"
    using demo_answered by blast
  from answers_reach_their_asker [OF d(1)] d show ?thesis by blast
qed

text \<open>
  C32. Every request is answered after at most nine steps of its own, whatever the provider,
  the store and the other requests do: a request that is not answered can take a step
  that brings it closer, and no step of anything takes it further away.
\<close>

theorem every_question_ends:
  assumes "dlg_reachable L ei E s0 d" and "dg_requests d r = Some (i, ph)"
  shows "dlg_rank ph \<le> 9 \<and>
         (dlg_rank ph = 0 \<longleftrightarrow> (\<exists>x. ph = Answered x)) \<and>
         (0 < dlg_rank ph \<longrightarrow>
            (\<exists>d' ph'. dlg_step L ei E d d' \<and> dg_requests d' r = Some (i, ph') \<and> dlg_rank ph' < dlg_rank ph)) \<and>
         (\<forall>d'. dlg_step L ei E d d' \<longrightarrow>
            (\<exists>ph'. dg_requests d' r = Some (i, ph') \<and> (ph' = ph \<or> dlg_rank ph' < dlg_rank ph)))"
proof -
  obtain n where "dg_tasks d n = None" by (rule reachable_free [OF assms(1)])
  moreover have "waiters_ok (dg_requests d) (dg_tasks d)" using reachable_waiters [OF assms(1)] by simp
  ultimately have "0 < dlg_rank ph \<longrightarrow>
      (\<exists>d' ph'. dlg_step L ei E d d' \<and> dg_requests d' r = Some (i, ph') \<and> dlg_rank ph' < dlg_rank ph)"
    using dlg_progress [OF assms(2)] by blast
  moreover have "dlg_rank ph = 0 \<longleftrightarrow> (\<exists>x. ph = Answered x)"
    by (induction ph rule: dlg_rank.induct) simp_all
  ultimately show ?thesis using dlg_rank_le dlg_step_rank [OF _ assms(2)] by blast
qed

theorem every_question_ends_witness:
  "\<exists>d d' j ph'. demo_reachable d \<and> dg_requests d 0 = Some ((asc ''u'', asc ''2+2?''), Waiting j) \<and>
     dlg_step demo_libs demo_engine (\<lambda>_ _. False) d d' \<and>
     dg_requests d' 0 = Some ((asc ''u'', asc ''2+2?''), ph') \<and> dlg_rank ph' < 2"
proof -
  obtain d j where d: "demo_reachable d" "dg_requests d 0 = Some ((asc ''u'', asc ''2+2?''), Waiting j)"
    using demo_waiting by blast
  from every_question_ends [OF d] d show ?thesis by auto
qed

subsection \<open>Answers after the deadline\<close>

text \<open>
  A ready answer and its user: the earlier requests of the user are answered and the earlier tasks over; the request
  \<open>r\<close>, once it is there, looks into the map and takes the answer out.
\<close>

definition taking :: "nat \<Rightarrow> rstr \<Rightarrow> rstr \<Rightarrow> 's dialogue \<Rightarrow> bool" where
  "taking r u x d \<longleftrightarrow>
     ((\<forall>utterance ph. dg_requests d r \<noteq> Some ((u, utterance), ph)) \<and> dg_pending d u = Some (PReady x)) \<or>
     (\<exists>utterance ph. dg_requests d r = Some ((u, utterance), ph) \<and>
        (ph = Answered x \<or> ph \<in> {Polling, Removing PeekReady} \<and> dg_pending d u = Some (PReady x)))"

definition idle_but :: "nat \<Rightarrow> rstr \<Rightarrow> 's dialogue \<Rightarrow> bool" where
  "idle_but r u d \<longleftrightarrow>
     (\<forall>q utterance ph. dg_requests d q = Some ((u, utterance), ph) \<longrightarrow> q \<noteq> r \<longrightarrow> (\<exists>y. ph = Answered y)) \<and>
     (\<forall>k t. dg_tasks d k = Some t \<longrightarrow> tk_user t = u \<longrightarrow> task_ended (tk_phase t))"

text \<open>No request of the user came since \<open>d\<close>, but \<open>r\<close>.\<close>

definition first_since :: "nat \<Rightarrow> rstr \<Rightarrow> 's dialogue \<Rightarrow> 's dialogue \<Rightarrow> bool" where
  "first_since r u d d' \<longleftrightarrow>
     (\<forall>q utterance ph. dg_requests d' q = Some ((u, utterance), ph) \<longrightarrow> q = r \<or> dg_requests d q \<noteq> None)"

lemma requests_stay: "(dlg_step L ei E)\<^sup>*\<^sup>* d d' \<Longrightarrow> dg_requests d q = Some (i, ph) \<Longrightarrow> \<exists>ph'. dg_requests d' q = Some (i, ph')"
proof (induction rule: rtranclp_induct)
  case (step d' d'')
  then show ?case using dlg_step_rank by metis
qed blast

lemma first_since_before:
  assumes "first_since r u d d''" and "dlg_step L ei E d' d''"
  shows "first_since r u d d'"
  unfolding first_since_def
proof (intro allI impI)
  fix q utterance ph
  assume "dg_requests d' q = Some ((u, utterance), ph)"
  with dlg_step_rank [OF assms(2)] obtain ph' where "dg_requests d'' q = Some ((u, utterance), ph')" by blast
  with assms(1) show "q = r \<or> dg_requests d q \<noteq> None" unfolding first_since_def by blast
qed

text \<open>A request of the user that is not \<open>r\<close> takes no step; neither does a task of the user.\<close>

lemma taking_frame:
  assumes "taking r u x d" and "dg_requests d' r = dg_requests d r" and "dg_pending d' u = dg_pending d u"
  shows "taking r u x d'"
  using assms by (simp add: taking_def)

lemma taking_step:
  assumes step: "dlg_step L ei E d d'" and take: "taking r u x d" and idle: "idle_but r u d"
    and new: "\<forall>q utterance ph. dg_requests d' q = Some ((u, utterance), ph) \<longrightarrow> q \<noteq> r \<longrightarrow> dg_requests d q \<noteq> None"
  shows "taking r u x d' \<and> idle_but r u d'"
proof -
  have act: "q = r \<and> ph \<in> {Polling, Removing PeekReady} \<and> dg_pending d u = Some (PReady x)"
    if "dg_requests d q = Some ((u, utterance), ph)" "\<nexists>y. ph = Answered y" for q utterance ph
  proof -
    have "q = r" using that idle unfolding idle_but_def by metis
    with that take show ?thesis unfolding taking_def by auto
  qed
  have task: "task_ended (tk_phase t)" if "dg_tasks d k = Some t" "tk_user t = u" for k t
    using that idle unfolding idle_but_def by blast
  have put: "taking r u x (put_task k t ph e) \<and> idle_but r u (put_task k t ph e)"
    if "dg_tasks d k = Some t" "\<not> task_ended (tk_phase t)" "dg_requests e = dg_requests d" "dg_tasks e = dg_tasks d"
      "dg_pending e = dg_pending d" for k t ph and e :: "'s dialogue"
    using that task [of k t] take idle by (auto simp: taking_def idle_but_def put_task_def)
  from step show ?thesis
  proof (cases rule: dlg_step.cases)
    case (arrive q input)
    with take idle new show ?thesis
      by (auto simp: taking_def idle_but_def put_request_def split: if_splits)
  next
    case (peek q input)
    show ?thesis
    proof (cases "fst input = u")
      case True
      with peek act [of q "snd input" Polling] have "q = r" "dg_pending d u = Some (PReady x)"
        by (auto simp: prod_eq_iff)
      with peek True idle show ?thesis
        by (cases input) (auto simp: taking_def idle_but_def put_request_def pending_get_def after_get_def)
    qed (use peek take idle in \<open>cases input; auto simp: taking_def idle_but_def put_request_def\<close>)
  next
    case (remove q input p res m)
    show ?thesis
    proof (cases "fst input = u")
      case True
      with remove act [of q "snd input" "Removing p"] have "q = r" "p = PeekReady" "dg_pending d u = Some (PReady x)"
        by (auto simp: prod_eq_iff)
      with remove True idle show ?thesis
        by (cases input) (auto simp: taking_def idle_but_def put_request_def pending_remove_def after_poll_def)
    next
      case False
      then have "m u = dg_pending d u" using pending_remove_cases [OF remove(3)] by auto
      with False remove take idle show ?thesis by (cases input) (auto simp: taking_def idle_but_def put_request_def)
    qed
  next
    case (dispatch q input ph st)
    have "fst input \<noteq> u" using act [of q "snd input" Dispatching] dispatch(2) by (cases input) auto
    with dispatch take idle show ?thesis by (cases input) (auto simp: taking_def idle_but_def put_request_def)
  next
    case (asks q input question tier)
    have "fst input \<noteq> u" using act [of q "snd input" "Asking question tier"] asks(2) by (cases input) auto
    with asks take idle show ?thesis by (cases input) (auto simp: taking_def idle_but_def put_request_def)
  next
    case (store_call q input p ph s')
    have "fst input \<noteq> u" using act [of q "snd input" "Calling p"] store_call(2) by (cases input) auto
    with store_call take idle show ?thesis by (cases input) (auto simp: taking_def idle_but_def put_request_def)
  next
    case (spawn q input a j)
    have "fst input \<noteq> u" using act [of q "snd input" "Spawning a"] spawn(2) by (cases input) auto
    with spawn take idle show ?thesis
      by (cases input) (auto simp: taking_def idle_but_def spawn_task_def put_request_def pending_mark_thinking_def)
  next
    case (received q input j t reply)
    have "fst input \<noteq> u" using act [of q "snd input" "Waiting j"] received(2) by (cases input) auto
    with received take idle show ?thesis
      by (cases input) (auto simp: taking_def idle_but_def reply_in_time_def put_request_def pending_clear_def)
  next
    case (closed q input j t)
    have "fst input \<noteq> u" using act [of q "snd input" "Waiting j"] closed(2) by (cases input) auto
    with closed take idle show ?thesis
      by (cases input) (auto simp: taking_def idle_but_def reply_in_time_def put_request_def pending_clear_def)
  next
    case (deadline q input j t)
    have "fst input \<noteq> u" using act [of q "snd input" "Waiting j"] deadline(2) by (cases input) auto
    with deadline take idle show ?thesis by (cases input) (auto simp: taking_def idle_but_def put_request_def)
  next
    case (dropped q input j t)
    have "fst input \<noteq> u" using act [of q "snd input" "Expired j"] dropped(2) by (cases input) auto
    with dropped take idle task [of j t] show ?thesis
      by (cases input) (auto simp: taking_def idle_but_def drop_receiver_def put_request_def)
  next
    case (completes j t reply)
    then have "tk_user t \<noteq> u" using task [of j t] by (auto simp: task_ended_def)
    with completes take idle show ?thesis
      by (auto simp: taking_def idle_but_def complete_step_def put_task_def pending_complete_def split: option.splits)
  next
    case (recorded j t c k)
    then have "tk_user t \<noteq> u" using task [of j t] by (auto simp: task_ended_def)
    with recorded take idle show ?thesis
      by (auto simp: taking_def idle_but_def record_step_def put_task_def put_summarizer_def split: prod.splits)
  next
    case (sends j t reply)
    with put [of j t d] show ?thesis by (simp add: send_step_def)
  next
    case (chat j t)
    with put [of j t "call_provider p q d" for p q] show ?thesis by (simp add: call_provider_def)
  next
    case (completed j t c)
    with put [of j t d] show ?thesis by simp
  next
    case (failed j t err)
    with put [of j t d] show ?thesis by simp
  next
    case (task_panics j t)
    with put [of j t d] show ?thesis by simp
  qed (use take idle in \<open>auto simp: taking_def idle_but_def put_summarizer_def call_provider_def\<close>)
qed

lemma taking_run:
  assumes "(dlg_step L ei E)\<^sup>*\<^sup>* d1 d'" and "taking r u x d1" and "idle_but r u d1" and "dg_requests d1 = dg_requests d"
    and "first_since r u d d'"
  shows "taking r u x d' \<and> idle_but r u d'"
  using assms(1,5)
proof (induction rule: rtranclp_induct)
  case (step d' d'')
  have fs: "first_since r u d d'" by (rule first_since_before [OF step(4,2)])
  have "\<forall>q utterance ph. dg_requests d'' q = Some ((u, utterance), ph) \<longrightarrow> q \<noteq> r \<longrightarrow> dg_requests d' q \<noteq> None"
  proof (intro allI impI)
    fix q utterance ph
    assume "dg_requests d'' q = Some ((u, utterance), ph)" "q \<noteq> r"
    with step(4) have "dg_requests d1 q \<noteq> None" using assms(4) unfolding first_since_def by metis
    with requests_stay [OF step(1)] show "dg_requests d' q \<noteq> None" by (metis not_None_eq old.prod.exhaust)
  qed
  with taking_step [OF step(2)] step(3) [OF fs] show ?case by blast
qed (use assms(2,3) in blast)

lemma taking_ends:
  assumes "taking r u x d" and "dg_requests d r = Some ((u, utterance), ph)"
  shows "\<exists>d'. (dlg_step L ei E)\<^sup>*\<^sup>* d d' \<and> dg_requests d' r = Some ((u, utterance), Answered x)"
proof -
  let ?i = "(u, utterance)"
  have remove: "\<exists>d'. dlg_step L ei E d0 d' \<and> dg_requests d' r = Some (?i, Answered x)"
    if "dg_requests d0 r = Some (?i, Removing PeekReady)" "dg_pending d0 u = Some (PReady x)" for d0
  proof -
    have "pending_remove PeekReady (fst ?i) (dg_pending d0) = (PollAnswer x, (dg_pending d0)(u := None))"
      using that(2) by (simp add: pending_remove_def)
    from dlg_step.remove [OF that(1) this, of L ei E] show ?thesis by (auto simp: put_request_def after_poll_def)
  qed
  from assms consider "ph = Answered x" | "ph = Removing PeekReady" "dg_pending d u = Some (PReady x)"
    | "ph = Polling" "dg_pending d u = Some (PReady x)"
    by (auto simp: taking_def)
  then show ?thesis
  proof cases
    case 1
    with assms(2) show ?thesis by blast
  next
    case 2
    with assms(2) remove [of d] show ?thesis by auto
  next
    case 3
    define d1 where "d1 = put_request r ?i (Removing PeekReady) d"
    have "dlg_step L ei E d d1"
      using peek [of d r ?i] 3 assms(2) by (simp add: d1_def pending_get_def after_get_def)
    moreover obtain d' where "dlg_step L ei E d1 d'" "dg_requests d' r = Some (?i, Answered x)"
      using remove [of d1] 3(2) by (auto simp: d1_def put_request_def)
    ultimately show ?thesis by (meson rtranclp_2)
  qed
qed

text \<open>
  C35. An answer that comes after the receiver is gone, while the map still has an entry of its user and nothing else
  of the user is under way, waits for the user: the task puts it into the map, and from then on, whatever
  anybody else does and however much time passes, it stays there until the next request of the user, and that request is
  answered with it and with nothing else, by steps of its own.
\<close>

theorem late_answer_delivered:
  assumes t: "dg_tasks d j = Some t" "tk_phase t = TSend reply" "\<not> tk_open t" "tk_user t = u"
    and entry: "dg_pending d u \<noteq> None"
    and others: "\<forall>k t'. dg_tasks d k = Some t' \<longrightarrow> tk_user t' = u \<longrightarrow> k \<noteq> j \<longrightarrow> task_ended (tk_phase t')"
    and earlier: "\<forall>q utterance ph. dg_requests d q = Some ((u, utterance), ph) \<longrightarrow> (\<exists>y. ph = Answered y)"
  shows "\<exists>d1. (dlg_step L ei E)\<^sup>*\<^sup>* d d1 \<and> dg_requests d1 = dg_requests d \<and>
    (\<forall>d' r. (dlg_step L ei E)\<^sup>*\<^sup>* d1 d' \<longrightarrow> dg_requests d r = None \<longrightarrow> first_since r u d d' \<longrightarrow>
       ((\<forall>utterance ph. dg_requests d' r \<noteq> Some ((u, utterance), ph)) \<longrightarrow> dg_pending d' u = Some (PReady reply)) \<and>
       (\<forall>utterance ph. dg_requests d' r = Some ((u, utterance), ph) \<longrightarrow>
          (ph = Answered reply \<or> ph \<in> {Polling, Removing PeekReady} \<and> dg_pending d' u = Some (PReady reply)) \<and>
          (\<exists>d''. (dlg_step L ei E)\<^sup>*\<^sup>* d' d'' \<and> dg_requests d'' r = Some ((u, utterance), Answered reply))))"
proof -
  define d0 where "d0 = send_step j t reply d"
  define d1 where "d1 = complete_step j (t\<lparr>tk_phase := TLate reply\<rparr>) reply d0"
  have "dlg_step L ei E d d0" using sends [OF t(1,2)] by (simp add: d0_def)
  moreover have "dlg_step L ei E d0 d1"
    unfolding d1_def by (rule completes) (use t(3) in \<open>simp_all add: d0_def send_step_def put_task_def\<close>)
  ultimately have run: "(dlg_step L ei E)\<^sup>*\<^sup>* d d1" by (rule rtranclp_2)
  have d1: "dg_requests d1 = dg_requests d" "dg_pending d1 u = Some (PReady reply)"
    "dg_tasks d1 = (dg_tasks d)(j \<mapsto> t\<lparr>tk_phase := TDone reply\<rparr>)"
    using t entry by (auto simp: d1_def d0_def dlg_defs pending_complete_def split: option.splits)
  have start: "taking r u reply d1" "idle_but r u d1" if "dg_requests d r = None" for r
    using that d1 others earlier by (auto simp: taking_def idle_but_def task_ended_def split: if_splits)
  show ?thesis
  proof (rule exI [of _ d1], intro conjI allI impI)
    fix d' r assume "(dlg_step L ei E)\<^sup>*\<^sup>* d1 d'" "dg_requests d r = None" "first_since r u d d'"
    with start d1(1) taking_run have taking: "taking r u reply d'" by blast
    show "\<forall>utterance ph. dg_requests d' r \<noteq> Some ((u, utterance), ph) \<Longrightarrow> dg_pending d' u = Some (PReady reply)"
      using taking by (auto simp: taking_def)
    fix utterance ph assume r: "dg_requests d' r = Some ((u, utterance), ph)"
    with taking show "ph = Answered reply \<or> ph \<in> {Polling, Removing PeekReady} \<and> dg_pending d' u = Some (PReady reply)"
      by (auto simp: taking_def)
    show "\<exists>d''. (dlg_step L ei E)\<^sup>*\<^sup>* d' d'' \<and> dg_requests d'' r = Some ((u, utterance), Answered reply)"
      by (rule taking_ends [OF taking r])
  qed (use run d1(1) in blast)+
qed

text \<open>A day later, on the model of the installation.\<close>

theorem late_answer_delivered_witness:
  "\<exists>d d' r. demo_reachable d \<and> (dlg_step demo_libs demo_engine (\<lambda>_ _. False))\<^sup>*\<^sup>* d d' \<and> dg_now d + 86400 * 10 ^ 9 \<le> dg_now d' \<and>
     dg_requests d' r = Some ((asc ''u'', asc ''?''), Polling) \<and>
     (\<exists>d''. (dlg_step demo_libs demo_engine (\<lambda>_ _. False))\<^sup>*\<^sup>* d' d'' \<and>
        dg_requests d'' r = Some ((asc ''u'', asc ''?''), Answered (asc ''4'')))"
proof -
  let ?R = "dlg_step demo_libs demo_engine (\<lambda>_ _. False)"
  obtain d j t x where d: "demo_reachable d" "dg_requests d = [0 \<mapsto> ((asc ''u'', asc ''2+2?''), Answered x)]"
    "dg_tasks d = [j \<mapsto> t]" "tk_user t = asc ''u''" "\<not> tk_open t" "tk_phase t = TSend (asc ''4'')" "dg_pending d (asc ''u'') \<noteq> None"
    using demo_late by blast
  have "dg_tasks d j = Some t"
    "\<forall>k t'. dg_tasks d k = Some t' \<longrightarrow> tk_user t' = asc ''u'' \<longrightarrow> k \<noteq> j \<longrightarrow> task_ended (tk_phase t')"
    "\<forall>q utterance ph. dg_requests d q = Some ((asc ''u'', utterance), ph) \<longrightarrow> (\<exists>y. ph = Answered y)"
    using d(2,3) by (auto split: if_splits)
  note late_answer_delivered [OF this(1) d(6,5,4,7) this(2,3), of demo_libs demo_engine "\<lambda>_ _. False"]
  then obtain d1 where run: "?R\<^sup>*\<^sup>* d d1" and d1: "dg_requests d1 = dg_requests d"
    and told: "\<And>d' r utterance ph. ?R\<^sup>*\<^sup>* d1 d' \<Longrightarrow> dg_requests d r = None \<Longrightarrow> first_since r (asc ''u'') d d' \<Longrightarrow>
      dg_requests d' r = Some ((asc ''u'', utterance), ph) \<Longrightarrow>
      \<exists>d''. ?R\<^sup>*\<^sup>* d' d'' \<and> dg_requests d'' r = Some ((asc ''u'', utterance), Answered (asc ''4''))"
    by blast
  define d2 where "d2 = d1\<lparr>dg_now := max (dg_now d1) (dg_now d + 86400 * 10 ^ 9), dg_utc := 0\<rparr>"
  define d3 where "d3 = put_request 1 (asc ''u'', asc ''?'') Polling d2"
  have "?R d1 d2" "?R d2 d3"
    unfolding d2_def d3_def by (rule time, simp) (rule arrive, simp add: d1 d(2))
  then have "?R\<^sup>*\<^sup>* d1 d3" by (rule rtranclp_2)
  then have all: "?R\<^sup>*\<^sup>* d d3" using run by auto
  have r3: "dg_requests d3 = (dg_requests d)(1 \<mapsto> ((asc ''u'', asc ''?''), Polling))"
    by (simp add: d3_def d2_def d1 put_request_def)
  then have "first_since 1 (asc ''u'') d d3" by (auto simp: first_since_def)
  with \<open>?R\<^sup>*\<^sup>* d1 d3\<close> r3 have "\<exists>d''. ?R\<^sup>*\<^sup>* d3 d'' \<and> dg_requests d'' 1 = Some ((asc ''u'', asc ''?''), Answered (asc ''4''))"
    using told [of d3 1 "asc ''?''" Polling] d(2) by simp
  moreover have "dg_now d + 86400 * 10 ^ 9 \<le> dg_now d3" by (simp add: d3_def d2_def put_request_def)
  ultimately show ?thesis using d(1) all r3 by (intro exI [of _ d] exI [of _ d3] exI [of _ 1]) simp
qed

text \<open>A task whose reply is in the channel of a request that is gone stays there.\<close>

definition stranded :: "nat \<Rightarrow> reply_task \<Rightarrow> 's dialogue \<Rightarrow> bool" where
  "stranded j t d \<longleftrightarrow> dg_tasks d j = Some t \<and> task_ended (tk_phase t) \<and>
     (\<forall>r i ph. dg_requests d r = Some (i, ph) \<longrightarrow> \<not> waits_for ph j)"

lemma stranded_step:
  assumes "dlg_step L ei E d d'" and "stranded j t d"
  shows "stranded j t d'"
  using assms
proof (cases rule: dlg_step.cases)
  case (dispatch r input ph st)
  with assms(2) dispatch_no_wait [OF dispatch(3)] show ?thesis by (auto simp: stranded_def dlg_defs)
next
  case (store_call r input p ph s')
  with assms(2) store_no_wait [OF store_call(3)] show ?thesis by (auto simp: stranded_def dlg_defs)
next
  case (deadline r input k tk)
  then have "k \<noteq> j" using assms(2) unfolding stranded_def by (metis waits_for_simps(1))
  with deadline assms(2) show ?thesis by (auto simp: stranded_def dlg_defs)
next
  case (dropped r input k tk)
  then have "k \<noteq> j" using assms(2) unfolding stranded_def by (metis waits_for_simps(2))
  with dropped assms(2) show ?thesis by (auto simp: stranded_def dlg_defs)
qed (use assms(2) in \<open>auto simp: stranded_def dlg_defs split: prod.splits\<close>)

lemma stranded_forever: "(dlg_step L ei E)\<^sup>*\<^sup>* d d' \<Longrightarrow> stranded j t d \<Longrightarrow> stranded j t d'"
  by (induction rule: rtranclp_induct) (auto intro: stranded_step)

text \<open>
  C36. An answer can be lost. When the deadline of a request has passed and its task puts the
  reply into the channel before the receiver is dropped, sending succeeds, so the reply is
  not put into the map; the user was told to ask again, the map keeps saying that
  the engine thinks, and the reply stays in the channel for ever: no later request waits for
  this task, and the task does nothing more.
\<close>

theorem answer_can_be_lost:
  assumes "dlg_reachable L ei E s0 d" and "dg_requests d r = Some (i, Expired j)"
    and "dg_tasks d j = Some t" and "tk_phase t = TSend reply"
  shows "\<exists>d'. (dlg_step L ei E)\<^sup>*\<^sup>* d d' \<and> dg_requests d' r = Some (i, Answered PHRASE_THINKING_STARTED) \<and>
           dg_pending d' = dg_pending d \<and>
           (\<forall>d''. (dlg_step L ei E)\<^sup>*\<^sup>* d' d'' \<longrightarrow>
              dg_tasks d'' j = Some (t\<lparr>tk_phase := TSent reply, tk_open := False\<rparr>) \<and>
              (\<forall>r2 i2 ph2. dg_requests d'' r2 = Some (i2, ph2) \<longrightarrow> \<not> waits_for ph2 j))"
proof -
  have w: "waiters_ok (dg_requests d) (dg_tasks d)" using reachable_waiters [OF assms(1)] by simp
  then have open1: "tk_open t" using waiters_task [OF w assms(2)] assms(3) by fastforce
  have only: "r2 = r" if "dg_requests d r2 = Some (i2, ph2)" "waits_for ph2 j" for r2 i2 ph2
    using w that assms(2) waits_for_simps(2) unfolding waiters_ok_def by metis
  define d1 where "d1 = send_step j t reply d"
  let ?t = "t\<lparr>tk_phase := TSent reply\<rparr>"
  have 1: "dlg_step L ei E d d1" "dg_requests d1 = dg_requests d" "dg_tasks d1 j = Some ?t" "dg_pending d1 = dg_pending d"
    using sends [OF assms(3,4)] open1 by (simp_all add: d1_def dlg_defs)
  define d2 where "d2 = drop_receiver r i j ?t d1"
  have 2: "dlg_step L ei E d1 d2" "dg_requests d2 r = Some (i, Answered PHRASE_THINKING_STARTED)"
    "dg_pending d2 = dg_pending d" "dg_tasks d2 j = Some (?t\<lparr>tk_open := False\<rparr>)"
    using dropped [of d1 r i j ?t] 1 assms(2) by (simp_all add: d2_def dlg_defs)
  have "\<not> waits_for ph2 j" if "dg_requests d2 r2 = Some (i2, ph2)" for r2 i2 ph2
  proof (cases "r2 = r")
    case False
    with that 1(2) have "dg_requests d r2 = Some (i2, ph2)" by (simp add: d2_def dlg_defs)
    with only False show ?thesis by blast
  qed (use that 2(2) in auto)
  with 2(4) have 3: "stranded j (?t\<lparr>tk_open := False\<rparr>) d2" by (simp add: stranded_def)
  have "(dlg_step L ei E)\<^sup>*\<^sup>* d d2" using 1(1) 2(1) by auto
  moreover have "stranded j (?t\<lparr>tk_open := False\<rparr>) d''" if "(dlg_step L ei E)\<^sup>*\<^sup>* d2 d''" for d''
    by (rule stranded_forever [OF that 3])
  ultimately show ?thesis
    using 2(2,3) unfolding stranded_def by (intro exI [of _ d2]) simp
qed

theorem answer_can_be_lost_witness:
  "\<exists>d d' i j t. demo_reachable d \<and> dg_requests d 0 = Some (i, Expired j) \<and> dg_tasks d j = Some t \<and>
     tk_phase t = TSend (asc ''4'') \<and> (dlg_step demo_libs demo_engine (\<lambda>_ _. False))\<^sup>*\<^sup>* d d' \<and>
     dg_requests d' 0 = Some (i, Answered PHRASE_THINKING_STARTED)"
proof -
  obtain d j t where d: "demo_reachable d" "dg_requests d 0 = Some ((asc ''u'', asc ''2+2?''), Expired j)"
    "dg_tasks d j = Some t" "tk_phase t = TSend (asc ''4'')"
    using demo_expired by blast
  from answer_can_be_lost [OF d] d show ?thesis by blast
qed

subsection \<open>What the model is asked\<close>

text \<open>
  C33. With the Postgres store, when both reads succeed, a question goes to the model of the
  asked tier as the system prompt of its speaker with the speaker's own summary, then
  the last messages of the speaker's own history in their order, as many as the window has,
  then the question; no message of another profile is among them.
\<close>

theorem question_in_context:
  assumes "ei_store ei = pg_store" and "conv_pg_inv s" and "ac_window c < 2 ^ 63"
    and "pgc_summary (ac_name c) s = (Ok su, s1)" and "pgc_recent_messages (ac_name c) (ac_window c) s1 = (Ok ms, s2)"
  shows "\<exists>a. store_step L ei utc (LoadSummary c) s = (Calling (LoadHistory c su), s1) \<and>
             store_step L ei utc2 (LoadHistory c su) s1 = (Spawning a, s2) \<and>
             conv_pg_view s2 = conv_pg_view s \<and>
             su = cv_summaries (conv_pg_view s) (ac_name c) \<and>
             ak_preset a = registry_get (ei_models ei) (ac_tier c) \<and>
             cr_messages (chat_request_of a) =
               chat_system (build_system_prompt (lib_calendar L)
                 \<lparr>pc_today = local_date (ei_config ei) utc2, pc_profile = ac_profile c, pc_roster = ei_roster ei,
                  pc_mode = ac_mode c, pc_summary = map_option su_content su\<rparr>) #
               map (\<lambda>r. chat_of (message_of r)) (last_n (ac_window c) (profile_log (ac_name c) (conv_pg_view s))) @
               [chat_user (ac_question c)]"
proof -
  have "reads conv_pg_inv conv_pg_view (\<lambda>v. cv_summaries v (ac_name c)) (Ok su) s s1"
    using conv_pg.summary_law [OF assms(2), of "ac_name c"] assms(4) by (simp add: pg_store_def)
  then have 1: "conv_pg_inv s1" "conv_pg_view s1 = conv_pg_view s" "su = cv_summaries (conv_pg_view s) (ac_name c)"
    by (simp_all add: reads_def)
  have "reads conv_pg_inv conv_pg_view (\<lambda>v. map message_of (last_n (ac_window c) (profile_log (ac_name c) v))) (Ok ms) s1 s2"
    using conv_pg.recent_law [OF 1(1) assms(3), of "ac_name c"] assms(5) by (simp add: pg_store_def)
  then have "ms = map message_of (last_n (ac_window c) (profile_log (ac_name c) (conv_pg_view s)))"
    "conv_pg_view s2 = conv_pg_view s"
    using 1(2) by (simp_all add: reads_def)
  with 1(3) assms(1,4,5) show ?thesis
    by (simp add: pg_store_def unwrap_or_def ask_messages_def chat_request_of_def comp_def)
qed

definition demo_context :: ask_context where
  "demo_context = \<lparr>ac_question = asc ''?'', ac_tier = Fast, ac_profile = demo_profile, ac_name = asc ''p'', ac_mode = None, ac_window = 2\<rparr>"

theorem question_in_context_witness:
  "\<exists>a s2. store_step demo_libs demo_engine 0 (LoadHistory demo_context None) demo_tables = (Spawning a, s2) \<and>
     length (cr_messages (chat_request_of a)) = 4"
proof -
  have su: "pgc_summary (ac_name demo_context) demo_tables = (Ok None, demo_tables)"
    by (simp add: pgc_summary_def conv_db_def demo_tables_def pgc_record_exchange_def)
  have "as_i64 2 = 2" by (simp add: as_i64_def)
  then obtain ms where ms: "pgc_recent_messages (ac_name demo_context) (ac_window demo_context) demo_tables = (Ok ms, demo_tables)"
    by (simp add: pgc_recent_messages_def conv_db_def demo_tables_def pgc_record_exchange_def demo_context_def)
  have log: "length (profile_log (ac_name demo_context) (conv_pg_view demo_tables)) = 2"
    by (simp add: demo_tables_def pgc_record_exchange_def conv_db_def conv_pg_view_def profile_log_def
        by_id_def abs_row_def demo_exchange_def demo_context_def)
  have e: "ei_store demo_engine = pg_store" by (simp add: demo_engine_def)
  have w: "ac_window demo_context < 2 ^ 63" by (simp add: demo_context_def)
  from question_in_context [OF e demo_tables_inv w su ms, of demo_libs 0 0] log show ?thesis
    by (auto simp: demo_context_def)
qed

subsection \<open>Summaries\<close>

lemma covers_until_max:
  assumes "rows \<noteq> []"
  shows "covers_until rows \<in> fst ` set rows \<and> (\<forall>x \<in> set rows. fst x \<le> covers_until rows)"
proof -
  have "foldr (\<lambda>x y. max (fst x) y) xs m \<in> insert m (fst ` set xs) \<and>
      (\<forall>x \<in> set xs. fst x \<le> foldr (\<lambda>x y. max (fst x) y) xs m) \<and> m \<le> foldr (\<lambda>x y. max (fst x) y) xs m"
    for xs :: "(i64 \<times> stored_message) list" and m
    by (induction xs) (auto simp: max_def)
  from this [of "tl rows" "fst (hd rows)"] assms show ?thesis
    by (cases rows) (auto simp: covers_until_def)
qed

lemma filter_after_prefix:
  assumes "sorted_wrt (<) (map f xs)" and "0 < n" and "n \<le> length xs"
    and "c \<in> f ` set (take n xs)" and "\<forall>x \<in> set (take n xs). f x \<le> (c :: int)"
  shows "filter (\<lambda>x. c < f x) xs = drop n xs"
proof -
  have "sorted_wrt (<) (map f (take n xs) @ map f (drop n xs))"
    using assms(1) by (metis append_take_drop_id map_append)
  then have "\<forall>x \<in> set (take n xs). \<forall>y \<in> set (drop n xs). f x < f y" by (auto simp: sorted_wrt_append)
  with assms(4) have "filter (\<lambda>x. c < f x) (drop n xs) = drop n xs" by (auto simp: filter_id_conv)
  moreover have "filter (\<lambda>x. c < f x) (take n xs) = []" using assms(5) by (auto simp: filter_empty_conv)
  ultimately show ?thesis by (metis append_Nil append_take_drop_id filter_append)
qed

lemma newer_sorted:
  "conv_pg_inv s \<Longrightarrow> sorted_wrt (<) (map row_id (newer p (conv_pg_view s)))"
  using conv_pg.log_sorted [of s] by (simp add: newer_def profile_log_def sorted_wrt_map sorted_wrt_filter)

lemma summarizer_load:
  assumes "ei_store ei = pg_store" and "conv_pg_inv s" and "summarize_step ei p (SLoad k) st s = (SPrevious rows, s1)"
  shows "conv_pg_inv s1 \<and> conv_pg_view s1 = conv_pg_view s \<and> k \<le> length rows \<and>
         rows = drop_last k (map (\<lambda>r. (row_id r, message_of r)) (newer p (conv_pg_view s)))"
proof -
  obtain r where "unsummarized pg_store p k s = (r, s1)" "r = Ok rows" "k \<le> length rows"
    using assms(1,3) by (auto split: prod.splits sum.splits if_splits)
  with conv_pg.unsummarized_law [OF assms(2)] show ?thesis by (auto simp: reads_def)
qed

lemma upsert_view:
  "conv_pg_inv s \<Longrightarrow> pgc_upsert_summary p su s = (Ok (), s2) \<Longrightarrow>
   conv_pg_view s2 = (conv_pg_view s)\<lparr>cv_summaries := (cv_summaries (conv_pg_view s))(p \<mapsto> su)\<rparr>"
  using conv_pg.upsert_law [of s p su "Ok ()" s2] by (simp add: pg_store_def writes_def)

text \<open>What else befalls the tables: the clock, and calls that will fail.\<close>

inductive conv_other :: "conv_tables \<Rightarrow> conv_tables \<Rightarrow> bool" where
  clock: "conv_other s (s\<lparr>ct_now := now\<rparr>)"
| outage: "conv_other s (s\<lparr>ct_faults := fs\<rparr>)"

text \<open>A step at which a request erases the history of the profile.\<close>

definition forgets :: "rstr \<Rightarrow> 's dialogue \<Rightarrow> 's dialogue \<Rightarrow> bool" where
  "forgets p d d' \<longleftrightarrow> (\<exists>q i. dg_requests d q = Some (i, Calling (ForgetProfile p)) \<and> dg_requests d' q \<noteq> dg_requests d q)"

abbreviation keeps_step :: "libraries \<Rightarrow> conv_tables engine_inner \<Rightarrow> rstr \<Rightarrow> conv_tables dialogue \<Rightarrow> conv_tables dialogue \<Rightarrow> bool" where
  "keeps_step L ei p d d' \<equiv> dlg_step L ei conv_other d d' \<and> \<not> forgets p d d'"

definition grown :: "rstr \<Rightarrow> conv_tables \<Rightarrow> conv_tables \<Rightarrow> bool" where
  "grown p s s' \<longleftrightarrow> conv_pg_inv s' \<and> (\<exists>new. profile_log p (conv_pg_view s') = profile_log p (conv_pg_view s) @ new)"

lemma grown_same: "conv_pg_inv s' \<Longrightarrow> cv_log (conv_pg_view s') = cv_log (conv_pg_view s) \<Longrightarrow> grown p s s'"
  by (simp add: grown_def profile_log_def)

lemma grown_trans: "grown p s s1 \<Longrightarrow> grown p s1 s2 \<Longrightarrow> grown p s s2"
  by (auto simp: grown_def)

lemma grown_reads: "reads conv_pg_inv conv_pg_view f r s s' \<Longrightarrow> grown p s s'"
  by (rule grown_same) (simp_all add: reads_def)

lemma grown_writes:
  assumes "writes conv_pg_inv conv_pg_view upd r s s'"
    and "\<exists>new. profile_log p (upd (conv_pg_view s)) = profile_log p (conv_pg_view s) @ new"
  shows "grown p s s'"
  using assms by (cases r) (simp_all add: writes_def grown_def)

lemma store_step_grows:
  assumes "ei_store ei = pg_store" and inv: "conv_pg_inv s" and "store_step L ei utc pt s = (ph, s')" and "pt \<noteq> ForgetProfile p"
  shows "grown p s s'"
proof (cases pt)
  case (ForgetProfile q)
  obtain r where "clear_profile pg_store q s = (r, s')"
    using assms(1,3) ForgetProfile by (auto split: prod.splits sum.splits)
  from conv_pg.clear_law [OF inv this] show ?thesis
  proof (rule grown_writes)
    have "q \<noteq> p" using assms(4) ForgetProfile by blast
    then have "profile_log p (view_clear q (conv_pg_view s)) = profile_log p (conv_pg_view s)"
      by (auto simp: profile_log_def view_clear_def intro!: filter_cong)
    then show "\<exists>new. profile_log p (view_clear q (conv_pg_view s)) = profile_log p (conv_pg_view s) @ new" by simp
  qed
next
  case (UsageToday a b)
  with assms(1,3) conv_pg.usage_law [OF inv] show ?thesis by (auto split: prod.splits intro: grown_reads)
next
  case (UsageMonth a b)
  with assms(1,3) conv_pg.usage_law [OF inv] show ?thesis by (auto split: prod.splits intro: grown_reads)
next
  case (LoadSummary c)
  with assms(1,3) conv_pg.summary_law [OF inv] show ?thesis by (auto split: prod.splits intro: grown_reads)
next
  case (LoadHistory c su)
  obtain r where r: "pgc_recent_messages (ac_name c) (ac_window c) s = (r, s')"
    using assms(1,3) LoadHistory by (auto simp: pg_store_def split: prod.splits)
  then have "ct_messages s' = ct_messages s \<and> ct_next_id s' = ct_next_id s"
    by (auto simp: pgc_recent_messages_def conv_db_def Let_def split: list.splits option.splits if_splits)
  then show ?thesis using inv by (auto simp: conv_pg_inv_def conv_pg_view_def intro!: grown_same)
qed

lemma summarize_step_grows:
  assumes "ei_store ei = pg_store" and inv: "conv_pg_inv s" and "summarize_step ei q ph st s = (ph', s')"
  shows "grown p s s'"
proof -
  have same: "grown p s s" using inv by (rule grown_same) simp
  show ?thesis
  proof (cases ph)
    case (SLoad k)
    obtain r where "unsummarized pg_store q k s = (r, s')"
      using assms(1,3) SLoad by (auto split: prod.splits sum.splits)
    from conv_pg.unsummarized_law [OF inv this] show ?thesis by (rule grown_reads)
  next
    case (SPrevious rows)
    with assms(1,3) conv_pg.summary_law [OF inv] show ?thesis by (auto split: prod.splits intro: grown_reads)
  next
    case (SUpsert su)
    obtain r where "upsert_summary pg_store q su s = (r, s')" using assms(1,3) SUpsert by (auto split: prod.splits)
    from conv_pg.upsert_law [OF inv this] show ?thesis by (rule grown_writes) (simp add: profile_log_def)
  qed (use same assms(3) in simp_all)
qed

lemma record_grows:
  assumes "conv_pg_inv s" and "record_exchange pg_store x s = (r, s')"
  shows "grown p s s'"
proof -
  obtain i j t where "writes conv_pg_inv conv_pg_view (view_record x i j t) r s s'"
    using conv_pg.record_law [OF assms] by blast
  then show ?thesis by (rule grown_writes) (simp add: profile_log_def view_record_def)
qed

lemma log_grows:
  assumes pg: "ei_store ei = pg_store" and inv: "conv_pg_inv (dg_store d)" and step: "keeps_step L ei p d d'"
  shows "grown p (dg_store d) (dg_store d')"
proof -
  have same: "grown p (dg_store d) (dg_store d)" using inv by (rule grown_same) simp
  have "dlg_step L ei conv_other d d'" using step by blast
  then show ?thesis
  proof (cases rule: dlg_step.cases)
    case (store_call r input pt ph s')
    have "pt \<noteq> ForgetProfile p"
    proof
      assume pt: "pt = ForgetProfile p"
      have "ph \<noteq> Calling pt"
        using store_call(3) pt by (auto split: prod.splits sum.splits)
      then have "dg_requests d' r \<noteq> dg_requests d r" using store_call(1,2) by (simp add: put_request_def)
      with store_call(2) pt have "forgets p d d'" unfolding forgets_def by blast
      with step show False by blast
    qed
    from store_step_grows [OF pg inv store_call(3) this] store_call(1) show ?thesis by (simp add: put_request_def)
  next
    case (recorded j t c k)
    with pg record_grows [OF inv] show ?thesis
      by (auto simp: record_step_def put_task_def put_summarizer_def split: prod.splits)
  next
    case (summarizes k q ph ph' s')
    from summarize_step_grows [OF pg inv summarizes(3)] summarizes(1) show ?thesis by (simp add: put_summarizer_def)
  next
    case (environment s')
    from environment(2) have "ct_messages s' = ct_messages (dg_store d)" "ct_next_id s' = ct_next_id (dg_store d)"
      by (auto elim: conv_other.cases)
    with inv environment(1) show ?thesis by (auto simp: conv_pg_inv_def conv_pg_view_def intro!: grown_same)
  qed (use same in \<open>simp_all add: dlg_defs\<close>)
qed

text \<open>A summariser keeps the messages it was given.\<close>

definition summarizing :: "nat \<Rightarrow> rstr \<Rightarrow> (i64 \<times> stored_message) list \<Rightarrow> 's dialogue \<Rightarrow> bool" where
  "summarizing k p rows d \<longleftrightarrow> (\<exists>ph. dg_summarizers d k = Some (p, ph) \<and>
     (ph \<in> {SPrevious rows, SWaiting rows, SDone} \<or> (\<exists>previous. ph = SChat rows previous) \<or>
      (\<exists>content. ph = SUpsert \<lparr>su_content = content, covers_until_message_id = covers_until rows\<rparr>)))"

lemma summarizing_step:
  assumes "dlg_step L ei E d d'" and "summarizing k p rows d"
  shows "summarizing k p rows d'"
  using assms
proof (cases rule: dlg_step.cases)
  case (summarizes k2 q ph ph' s')
  show ?thesis
  proof (cases "k2 = k")
    case True
    with summarizes assms(2) show ?thesis
      by (auto simp: summarizing_def put_summarizer_def split: prod.splits sum.splits)
  qed (use summarizes assms(2) in \<open>auto simp: summarizing_def put_summarizer_def\<close>)
qed (auto simp: summarizing_def dlg_defs split: prod.splits)

lemma summarizing_run:
  assumes "(keeps_step L ei p)\<^sup>*\<^sup>* d d'" and "ei_store ei = pg_store" and "conv_pg_inv (dg_store d)" and "summarizing k p rows d"
  shows "summarizing k p rows d' \<and> grown p (dg_store d) (dg_store d')"
  using assms(1)
proof (induction rule: rtranclp_induct)
  case base
  show ?case using assms(3,4) by (auto intro: grown_same)
next
  case (step d' d'')
  then have "conv_pg_inv (dg_store d')" by (simp add: grown_def)
  with step summarizing_step log_grows [OF assms(2)] show ?case by (meson grown_trans)
qed

text \<open>
  C34. A summary takes exactly what had left the window. A summariser that was given messages stores, whatever other
  requests, tasks and summarisers do while it is at the model, a summary that covers exactly the messages it was given: these
  and the window at the time it loaded them are what came after the summary of that time; and once it is stored, what
  comes after it is that window and the messages recorded meanwhile, so nothing is skipped. The one condition is
  that the profile was not erased in between (then the summary comes back, as shown below). Two summarisers that load
  at the same time are given the same messages, so these may be summarised twice.
\<close>

theorem summary_keeps_window:
  assumes pg: "ei_store ei = pg_store" and inv: "conv_pg_inv (dg_store d)"
    and load: "dg_summarizers d k = Some (p, SLoad w)" "summarize_step ei p (SLoad w) (dg_state d) (dg_store d) = (SPrevious rows, s1)"
      "d1 = put_summarizer k p (SPrevious rows) (d\<lparr>dg_store := s1\<rparr>)" "rows \<noteq> []"
    and run: "(\<lambda>x y. dlg_step L ei conv_other x y \<and> \<not> forgets p x y)\<^sup>*\<^sup>* d1 d2"
    and upsert: "dg_summarizers d2 k = Some (p, SUpsert su)" "pgc_upsert_summary p su (dg_store d2) = (Ok (), s3)"
  shows "\<exists>new. dlg_step L ei conv_other d d1 \<and> w \<le> length rows \<and> covers_until_message_id su = covers_until rows \<and>
           map snd rows @ map message_of (last_n w (newer p (conv_pg_view (dg_store d)))) =
             map message_of (newer p (conv_pg_view (dg_store d))) \<and>
           profile_log p (conv_pg_view s3) = profile_log p (conv_pg_view (dg_store d)) @ new \<and>
           newer p (conv_pg_view s3) = last_n w (newer p (conv_pg_view (dg_store d))) @ new"
proof -
  let ?v = "conv_pg_view (dg_store d)"
  let ?N = "newer p ?v"
  let ?m = "length ?N - w"
  have step: "dlg_step L ei conv_other d d1" unfolding load(3) by (rule summarizes [OF load(1,2)])
  have l: "conv_pg_inv s1" "conv_pg_view s1 = ?v" "w \<le> length rows"
    "rows = drop_last w (map (\<lambda>r. (row_id r, message_of r)) ?N)"
    using summarizer_load [OF pg inv load(2)] by blast+
  have "summarizing k p rows d1" "dg_store d1 = s1" by (simp_all add: load(3) summarizing_def put_summarizer_def)
  with l(1) have kept: "summarizing k p rows d2" "grown p s1 (dg_store d2)"
    using summarizing_run [OF run pg, of k rows] by simp_all
  then have su: "covers_until_message_id su = covers_until rows"
    using upsert(1) by (auto simp: summarizing_def)
  obtain new where i2: "conv_pg_inv (dg_store d2)"
    and log: "profile_log p (conv_pg_view (dg_store d2)) = profile_log p ?v @ new"
    using kept(2) l(2) by (auto simp: grown_def)
  have v3: "conv_pg_view s3 = (conv_pg_view (dg_store d2))\<lparr>cv_summaries := (cv_summaries (conv_pg_view (dg_store d2)))(p \<mapsto> su)\<rparr>"
    by (rule upsert_view [OF i2 upsert(2)])
  have rows: "rows = map (\<lambda>r. (row_id r, message_of r)) (take ?m ?N)"
    by (simp add: l(4) drop_last_def take_map)
  have m: "0 < ?m" using load(4) rows by (cases ?m) simp_all
  have c: "covers_until rows \<in> row_id ` set (take ?m ?N)" "\<forall>r \<in> set (take ?m ?N). row_id r \<le> covers_until rows"
    using covers_until_max [OF load(4)] unfolding rows by (auto simp: image_image)
  then have above: "covered p ?v < covers_until rows" "covers_until rows \<in> row_id ` set (profile_log p ?v)"
    by (auto simp: newer_def dest!: in_set_takeD)
  have "sorted_wrt (<) (map row_id (profile_log p ?v @ new))"
    using conv_pg.log_sorted [OF i2] unfolding log [symmetric]
    by (simp add: profile_log_def sorted_wrt_map sorted_wrt_filter)
  then have new: "filter (\<lambda>r. covers_until rows < row_id r) new = new"
    using above(2) by (auto simp: sorted_wrt_append filter_id_conv)
  have "newer p (conv_pg_view s3) = filter (\<lambda>r. covers_until rows < row_id r) (profile_log p ?v @ new)"
    using log by (simp add: v3 newer_def covered_def su profile_log_def)
  also have "\<dots> = filter (\<lambda>r. covers_until rows < row_id r) ?N @ new"
    using above(1) new by (auto simp: newer_def intro!: filter_cong)
  also have "\<dots> = drop ?m ?N @ new"
    using filter_after_prefix [OF newer_sorted [OF inv] m _ c] by simp
  finally have "newer p (conv_pg_view s3) = last_n w ?N @ new" by (simp add: last_n_def)
  moreover have "map snd rows = map message_of (take ?m ?N)" by (simp add: rows comp_def)
  then have "map snd rows @ map message_of (last_n w ?N) = map message_of ?N"
    using dropLast_last_n [of ?N w] by (metis map_append)
  moreover have "profile_log p (conv_pg_view s3) = profile_log p ?v @ new" using log by (simp add: v3 profile_log_def)
  ultimately show ?thesis using step l(3) su by blast
qed

definition demo_state :: dialogue_state where
  "demo_state = \<lparr>active_profile = asc ''p'', ds_mode = None, ds_model_tier = Fast, window_override = Some 1\<rparr>"

text \<open>Two messages and a summary that covers them.\<close>

definition demo_covered :: conv_tables where
  "demo_covered = demo_tables\<lparr>ct_summaries := [asc ''p'' \<mapsto> \<lparr>su_content = asc ''s'', covers_until_message_id = 2\<rparr>]\<rparr>"

lemmas demo_store_simps = demo_tables_def pgc_record_exchange_def conv_db_def conv_pg_view_def newer_def profile_log_def
  covered_def by_id_def abs_row_def demo_exchange_def

lemma demo_engine_store: "ei_store demo_engine = pg_store"
  by (simp add: demo_engine_def)

definition demo_summarizing :: "conv_tables dialogue" where
  "demo_summarizing =
     \<lparr>dg_store = demo_tables, dg_state = demo_state, dg_pending = Map.empty, dg_requests = Map.empty, dg_tasks = Map.empty,
      dg_summarizers = [0 \<mapsto> (asc ''p'', SLoad 1)], dg_calls = [], dg_now = 0, dg_utc = 0\<rparr>"

lemma run_without: "S a b \<Longrightarrow> (\<lambda>x y. S x y \<and> \<not> Q x y)\<^sup>*\<^sup>* b c \<Longrightarrow> S\<^sup>*\<^sup>* a c"
  using rtranclp_mono [of "\<lambda>x y. S x y \<and> \<not> Q x y" S] by (auto intro: converse_rtranclp_into_rtranclp)

theorem summary_keeps_window_witness:
  "\<exists>d2 s3. (dlg_step demo_libs demo_engine conv_other)\<^sup>*\<^sup>* demo_summarizing d2 \<and>
     pgc_upsert_summary (asc ''p'') \<lparr>su_content = asc ''s'', covers_until_message_id = 1\<rparr> (dg_store d2) = (Ok (), s3) \<and>
     length (newer (asc ''p'') (conv_pg_view s3)) = 1"
proof -
  let ?p = "asc ''p''"
  let ?S = "\<lambda>x y. dlg_step demo_libs demo_engine conv_other x y \<and> \<not> forgets ?p x y"
  let ?su = "\<lparr>su_content = asc ''s'', covers_until_message_id = 1\<rparr>"
  let ?c = "\<lparr>cc_text = asc ''s'', cc_usage = \<lparr>prompt_tokens = 0, completion_tokens = 0\<rparr>\<rparr>"
  define rows where "rows = [(1 :: int, \<lparr>sm_role = RoleUser, sm_content = er_user_text demo_exchange\<rparr>)]"
  have rows: "summarize_step demo_engine ?p (SLoad 1) demo_state demo_tables = (SPrevious rows, demo_tables)"
    "rows \<noteq> []" "covers_until rows = 1"
    by (simp_all add: rows_def demo_engine_store pg_store_def pgc_unsummarized_def demo_store_simps drop_last_def
        covers_until_def row_message_def role_from_str_def asc_def)
  define d1 where "d1 = put_summarizer 0 ?p (SPrevious rows) (demo_summarizing\<lparr>dg_store := demo_tables\<rparr>)"
  define d2 where "d2 = put_summarizer 0 ?p (SChat rows []) (d1\<lparr>dg_store := demo_tables\<rparr>)"
  define d3 where "d3 = put_summarizer 0 ?p (SWaiting rows)
    (call_provider (mp_provider (registry_get (ei_models demo_engine) Fast)) (summary_request demo_engine rows []) d2)"
  define d4 where "d4 = put_summarizer 0 ?p (SUpsert ?su) d3"
  have d: "dg_requests d1 = Map.empty" "dg_requests d2 = Map.empty" "dg_requests d3 = Map.empty" "dg_store d1 = demo_tables"
    "dg_summarizers d1 0 = Some (?p, SPrevious rows)" "dg_summarizers d2 0 = Some (?p, SChat rows [])"
    "dg_summarizers d3 0 = Some (?p, SWaiting rows)" "dg_summarizers d4 0 = Some (?p, SUpsert ?su)" "dg_store d4 = demo_tables"
    by (simp_all add: d1_def d2_def d3_def d4_def put_summarizer_def call_provider_def demo_summarizing_def)
  have previous: "summarize_step demo_engine ?p (SPrevious rows) (dg_state d1) (dg_store d1) = (SChat rows [], demo_tables)"
    by (simp add: d(4) demo_engine_store pg_store_def pgc_summary_def demo_tables_def pgc_record_exchange_def conv_db_def)
  have "?S d1 d2" using summarizes [OF d(5) previous] by (simp add: d2_def forgets_def d(1))
  moreover have "?S d2 d3" using summary_chat [OF d(6)] by (simp add: d3_def forgets_def d(2))
  moreover have "?S d3 d4" using summary_completed [OF d(7), of demo_libs demo_engine conv_other ?c] rows(3)
    by (simp add: d4_def forgets_def d(3))
  ultimately have run: "?S\<^sup>*\<^sup>* d1 d4" by (rule rtranclp_3)
  obtain s3 where s3: "pgc_upsert_summary ?p ?su (dg_store d4) = (Ok (), s3)"
    by (simp add: d(9) pgc_upsert_summary_def demo_tables_def pgc_record_exchange_def conv_db_def)
  have fields: "dg_store demo_summarizing = demo_tables" "dg_state demo_summarizing = demo_state"
    "dg_summarizers demo_summarizing 0 = Some (?p, SLoad 1)" by (simp_all add: demo_summarizing_def)
  then have start: "conv_pg_inv (dg_store demo_summarizing)"
    "summarize_step demo_engine ?p (SLoad 1) (dg_state demo_summarizing) (dg_store demo_summarizing) = (SPrevious rows, demo_tables)"
    using rows(1) demo_tables_inv by simp_all
  have "conv_pg_view s3 = (conv_pg_view demo_tables)\<lparr>cv_summaries := (cv_summaries (conv_pg_view demo_tables))(?p \<mapsto> ?su)\<rparr>"
    using upsert_view [OF _ s3] demo_tables_inv d(9) by simp
  then have log: "length (profile_log ?p (conv_pg_view s3)) = 2" "length (newer ?p (conv_pg_view demo_tables)) = 2"
    "length (profile_log ?p (conv_pg_view demo_tables)) = 2"
    by (simp_all add: demo_store_simps)
  from summary_keeps_window [OF demo_engine_store start(1) fields(3) start(2) d1_def rows(2) run d(8) s3] obtain new where
    step: "dlg_step demo_libs demo_engine conv_other demo_summarizing d1" and
    "profile_log ?p (conv_pg_view s3) = profile_log ?p (conv_pg_view (dg_store demo_summarizing)) @ new"
    "newer ?p (conv_pg_view s3) = last_n 1 (newer ?p (conv_pg_view (dg_store demo_summarizing))) @ new" by blast
  then have "length (newer ?p (conv_pg_view s3)) = 1" using log fields(1) by (simp add: last_n_def)
  moreover have "(dlg_step demo_libs demo_engine conv_other)\<^sup>*\<^sup>* demo_summarizing d4"
    using step run by (rule run_without)
  ultimately show ?thesis using s3 by blast
qed

text \<open>
  With a window of zero a summariser runs even when nothing is new, and what it stores
  covers nothing: the whole history counts as new again and goes to the next summary
  once more, on top of the summary that already has it.
\<close>

theorem empty_summary_resets:
  assumes "ei_store ei = pg_store" and "conv_pg_inv s" and "ct_faults s = []" and "newer p (conv_pg_view s) = []"
    and "\<forall>r \<in> set (cv_log (conv_pg_view s)). 0 < row_id r"
  shows "summarize_step ei p (SLoad 0) st s = (SPrevious [], s) \<and>
         (\<exists>s2. pgc_upsert_summary p \<lparr>su_content = content, covers_until_message_id = covers_until []\<rparr> s = (Ok (), s2) \<and>
               newer p (conv_pg_view s2) = profile_log p (conv_pg_view s))"
proof -
  obtain r s1 where u: "pgc_unsummarized p 0 s = (r, s1)" by fastforce
  then have "s1 = s" "\<exists>x. r = Ok x" using assms(3) by (auto simp: pgc_unsummarized_def conv_db_def)
  with conv_pg.unsummarized_law [OF assms(2), of p 0 r s1] u assms(4) have "r = Ok []" "s1 = s"
    by (auto simp: pg_store_def reads_def drop_last_def)
  with u have "summarize_step ei p (SLoad 0) st s = (SPrevious [], s)" using assms(1) by (simp add: pg_store_def)
  moreover obtain s2 where s2: "pgc_upsert_summary p \<lparr>su_content = content, covers_until_message_id = covers_until []\<rparr> s = (Ok (), s2)"
    using assms(3) by (simp add: pgc_upsert_summary_def conv_db_def)
  moreover have "newer p (conv_pg_view s2) = profile_log p (conv_pg_view s)"
    using assms(5) upsert_view [OF assms(2) s2]
    by (auto simp: newer_def covered_def profile_log_def covers_until_def intro!: filter_cong)
  ultimately show ?thesis by blast
qed

theorem empty_summary_resets_witness:
  "\<exists>s2. pgc_upsert_summary (asc ''p'') \<lparr>su_content = asc ''s'', covers_until_message_id = covers_until []\<rparr> demo_covered = (Ok (), s2) \<and>
     newer (asc ''p'') (conv_pg_view demo_covered) = [] \<and> length (newer (asc ''p'') (conv_pg_view s2)) = 2"
proof -
  have i: "conv_pg_inv demo_covered" using demo_tables_inv by (simp add: demo_covered_def conv_pg_inv_def)
  have n: "newer (asc ''p'') (conv_pg_view demo_covered) = []" "length (profile_log (asc ''p'') (conv_pg_view demo_covered)) = 2"
    "\<forall>r \<in> set (cv_log (conv_pg_view demo_covered)). 0 < row_id r" "ct_faults demo_covered = []"
    by (simp_all add: demo_covered_def demo_store_simps)
  from empty_summary_resets [OF demo_engine_store i n(4,1,3), of demo_state "asc ''s''"] n show ?thesis by auto
qed

lemma forgot_is_no_error: "cyr ''Ws#, zabyla na{ razgowor. Na~inaem s ~istogo lista.'' \<noteq> PHRASE_INTERNAL_ERROR"
  by code_simp

text \<open>
  C38. What was forgotten can come back. A summariser that has the history of a profile at
  the model while a member says \<^emph>\<open>forget\<close> stores its summary after the profile was cleared:
  the member was told that everything is forgotten, and the summary of the erased messages
  is there for the next question.
\<close>

theorem forgotten_summary_returns:
  assumes "ei_store ei = pg_store" and "conv_pg_inv (dg_store d)" and "ct_faults (dg_store d) = []"
    and "dg_requests d r = Some (i, Calling (ForgetProfile p))" and "dg_summarizers d k = Some (p, SWaiting rows)"
  shows "\<exists>d'. (dlg_step L ei E)\<^sup>*\<^sup>* d d' \<and>
           dg_requests d' r = Some (i, fst (store_step L ei (dg_utc d) (ForgetProfile p) (dg_store d))) \<and>
           fst (store_step L ei (dg_utc d) (ForgetProfile p) (dg_store d)) \<noteq> Answered PHRASE_INTERNAL_ERROR \<and>
           profile_log p (conv_pg_view (dg_store d')) = [] \<and>
           cv_summaries (conv_pg_view (dg_store d')) p =
             Some \<lparr>su_content = cc_text (c :: chat_completion), covers_until_message_id = covers_until rows\<rparr>"
proof -
  let ?su = "\<lparr>su_content = cc_text c, covers_until_message_id = covers_until rows\<rparr>"
  obtain s1 where clear: "pgc_clear_profile p (dg_store d) = (Ok (), s1)" "ct_faults s1 = []"
    using assms(3) by (simp add: pgc_clear_profile_def conv_db_def)
  then have v1: "conv_pg_inv s1" "conv_pg_view s1 = view_clear p (conv_pg_view (dg_store d))"
    using conv_pg.clear_law [OF assms(2), of p "Ok ()" s1] by (simp_all add: pg_store_def writes_def)
  obtain ph where ph: "store_step L ei (dg_utc d) (ForgetProfile p) (dg_store d) = (ph, s1)" "ph \<noteq> Answered PHRASE_INTERNAL_ERROR"
    using clear(1) assms(1) by (simp add: pg_store_def forgot_is_no_error)
  obtain s2 where up: "pgc_upsert_summary p ?su s1 = (Ok (), s2)"
    using clear(2) by (simp add: pgc_upsert_summary_def conv_db_def)
  define d1 where "d1 = put_request r i ph (d\<lparr>dg_store := s1\<rparr>)"
  have 1: "dlg_step L ei E d d1" "dg_summarizers d1 k = Some (p, SWaiting rows)" "dg_requests d1 r = Some (i, ph)" "dg_store d1 = s1"
    using store_call [OF assms(4) ph(1)] assms(5) by (simp_all add: d1_def dlg_defs)
  define d2 where "d2 = put_summarizer k p (SUpsert ?su) d1"
  have 2: "dlg_step L ei E d1 d2" "dg_summarizers d2 k = Some (p, SUpsert ?su)" "dg_requests d2 r = Some (i, ph)" "dg_store d2 = s1"
    using summary_completed [OF 1(2), of L ei E c] 1 by (simp_all add: d2_def dlg_defs)
  have "summarize_step ei p (SUpsert ?su) (dg_state d2) (dg_store d2) = (SDone, s2)"
    using up assms(1) 2(4) by (simp add: pg_store_def)
  from summarizes [OF 2(2) this]
  have 3: "dlg_step L ei E d2 (put_summarizer k p SDone (d2\<lparr>dg_store := s2\<rparr>))" .
  have "(dlg_step L ei E)\<^sup>*\<^sup>* d (put_summarizer k p SDone (d2\<lparr>dg_store := s2\<rparr>))"
    using 1(1) 2(1) 3 by (rule rtranclp_3)
  then show ?thesis
    using 2(3) ph upsert_view [OF v1(1) up] v1(2)
    by (intro exI [of _ "put_summarizer k p SDone (d2\<lparr>dg_store := s2\<rparr>)"])
       (simp add: dlg_defs view_clear_def profile_log_def)
qed

definition demo_forgetting :: "conv_tables dialogue" where
  "demo_forgetting =
     \<lparr>dg_store = demo_tables,
      dg_state = demo_state,
      dg_pending = Map.empty, dg_requests = [0 \<mapsto> ((asc ''u'', asc ''x''), Calling (ForgetProfile (asc ''p'')))],
      dg_tasks = Map.empty, dg_summarizers = [0 \<mapsto> (asc ''p'', SWaiting [(1, \<lparr>sm_role = RoleUser, sm_content = asc ''q''\<rparr>)])],
      dg_calls = [], dg_now = 0, dg_utc = 0\<rparr>"

theorem forgotten_summary_returns_witness:
  "\<exists>d'. (dlg_step demo_libs demo_engine (\<lambda>_ _. False))\<^sup>*\<^sup>* demo_forgetting d' \<and>
     cv_summaries (conv_pg_view (dg_store d')) (asc ''p'') =
       Some \<lparr>su_content = asc ''secret'', covers_until_message_id = covers_until [(1, \<lparr>sm_role = RoleUser, sm_content = asc ''q''\<rparr>)]\<rparr>"
proof -
  have f: "conv_pg_inv (dg_store demo_forgetting)" "ct_faults (dg_store demo_forgetting) = []"
    "dg_requests demo_forgetting 0 = Some ((asc ''u'', asc ''x''), Calling (ForgetProfile (asc ''p'')))"
    "dg_summarizers demo_forgetting 0 = Some (asc ''p'', SWaiting [(1, \<lparr>sm_role = RoleUser, sm_content = asc ''q''\<rparr>)])"
    by (simp_all add: demo_forgetting_def demo_tables_inv) (simp add: demo_tables_def pgc_record_exchange_def conv_db_def)
  from forgotten_summary_returns [OF demo_engine_store f, of demo_libs "\<lambda>_ _. False"
      "\<lparr>cc_text = asc ''secret'', cc_usage = \<lparr>prompt_tokens = 0, completion_tokens = 0\<rparr>\<rparr>"]
  show ?thesis by auto
qed
end
