(* ===== verification/Config.thy ===== *)
theory Config
  imports Reply Rust_Str
begin

section \<open>The configuration file\<close>

text \<open>
  Model of \<^verbatim>\<open>crates/bridge-server/src/config.rs\<close>. The TOML parser is the parameter \<open>from_str\<close>:
  it fills the records, absent optional fields with the defaults. A hash map is the list of
  its entries in the order in which iterating gives them. Paths are strings, numbers of a
  floating-point type are their bits.
\<close>

datatype config_error =
    IoError rstr
  | ParseError rstr
  | MissingEnv rstr
  | UnknownProvider rstr rstr
  | InvalidSetting rstr

datatype runtime_mode = Legacy | HouseholdCodex

record runtime_config =
  rt_mode :: runtime_mode
  codex_socket :: "rstr option"
  codex_cwd_root :: "rstr option"
  rt_permission_profile_prefix :: rstr
  rt_chunk_limit :: usize
  rt_homey_enabled :: bool

record server_config =
  listen :: rstr
  allowed_user_ids :: "rstr list"

record defaults_config =
  df_profile :: rstr
  df_context_window :: usize
  reply_budget_ms :: nat
  provider_timeout_secs :: nat
  df_utc_offset_hours :: int

record provider_config =
  base_url :: rstr
  api_key_env :: rstr

record model_preset_config =
  mc_provider :: rstr
  mc_model :: rstr
  mc_max_tokens :: nat
  mc_temperature :: nat
  mc_input_price :: nat
  mc_output_price :: nat

record models_config =
  mc_fast :: model_preset_config
  mc_smart :: model_preset_config

record profile_config =
  pc_name :: rstr
  pc_aliases :: "rstr list"
  pc_birthday :: "int option"
  pc_role_name :: rstr
  pc_persona :: rstr

record mode_config =
  moc_name :: rstr
  moc_triggers :: "rstr list"
  moc_prompt :: rstr

record app_config =
  ac_runtime :: runtime_config
  ac_server :: server_config
  ac_defaults :: defaults_config
  ac_providers :: "(rstr \<times> provider_config) list"
  ac_models :: models_config
  ac_profiles :: "profile_config list"
  ac_modes :: "mode_config list"

definition default_context_window :: usize where "default_context_window = 12"
definition default_reply_budget_ms :: nat where "default_reply_budget_ms = 2800"
definition default_provider_timeout_secs :: nat where "default_provider_timeout_secs = 45"
definition default_utc_offset_hours :: int where "default_utc_offset_hours = 3"
text \<open>The bits of 0.7.\<close>
definition default_temperature :: nat where "default_temperature = 1060320051"
definition default_permission_profile_prefix :: rstr where "default_permission_profile_prefix = asc ''alice-house-''"
definition default_chunk_limit :: usize where "default_chunk_limit = 850"

definition runtime_config_default :: runtime_config where
  "runtime_config_default =
     \<lparr>rt_mode = Legacy, codex_socket = None, codex_cwd_root = None,
      rt_permission_profile_prefix = default_permission_profile_prefix, rt_chunk_limit = default_chunk_limit,
      rt_homey_enabled = False\<rparr>"

definition absolute_path :: "rstr \<Rightarrow> bool" where
  "absolute_path p \<longleftrightarrow> starts_with p (asc ''/'')"

definition validate_runtime :: "runtime_config \<Rightarrow> (unit, config_error) result" where
  "validate_runtime rt =
     (if rt_mode rt \<noteq> HouseholdCodex then Ok ()
      else try_bind (ok_or (InvalidSetting (asc ''household runtime requires codex_socket'')) (codex_socket rt)) (\<lambda>socket.
        try_bind (ok_or (InvalidSetting (asc ''household runtime requires codex_cwd_root'')) (codex_cwd_root rt)) (\<lambda>cwd_root.
        if \<not> absolute_path socket \<or> \<not> absolute_path cwd_root
        then Err (InvalidSetting (asc ''household Codex paths must be absolute''))
        else if rt_chunk_limit rt \<le> length (cyr '' Prodolvatx?'') \<or> 900 < rt_chunk_limit rt
        then Err (InvalidSetting (asc ''household chunk_limit must leave room for continuation and be at most 900''))
        else if rt_permission_profile_prefix rt = [] \<or>
                \<not> list_all (\<lambda>c. is_ascii_alphanumeric c \<or> c = 45) (rt_permission_profile_prefix rt)
        then Err (InvalidSetting (asc ''household permission_profile_prefix is invalid''))
        else Ok ())))"

text \<open>A loop of checks stops at the first that fails.\<close>

fun all_ok :: "('a \<Rightarrow> (unit, 'e) result) \<Rightarrow> 'a list \<Rightarrow> (unit, 'e) result" where
  "all_ok f [] = Ok ()"
| "all_ok f (x # xs) = try_bind (f x) (\<lambda>_. all_ok f xs)"

definition validate_preset :: "(rstr \<times> provider_config) list \<Rightarrow> model_preset_config \<Rightarrow> (unit, config_error) result" where
  "validate_preset providers p =
     (if map_of providers (mc_provider p) = None then Err (UnknownProvider (mc_model p) (mc_provider p)) else Ok ())"

definition validate_role :: "profile_config \<Rightarrow> (unit, config_error) result" where
  "validate_role p =
     (if pc_role_name p \<noteq> asc ''adult'' \<and> pc_role_name p \<noteq> asc ''child''
      then Err (InvalidSetting (asc ''profile '' @ pc_name p @ asc '': role must be adult or child'')) else Ok ())"

definition validate :: "app_config \<Rightarrow> (unit, config_error) result" where
  "validate cfg =
     try_bind (validate_runtime (ac_runtime cfg)) (\<lambda>_.
     try_bind (all_ok (validate_preset (ac_providers cfg)) [mc_fast (ac_models cfg), mc_smart (ac_models cfg)]) (\<lambda>_.
     if \<not> list_ex (\<lambda>p. pc_name p = df_profile (ac_defaults cfg)) (ac_profiles cfg)
     then Err (InvalidSetting (asc ''default profile '' @ df_profile (ac_defaults cfg) @ asc '' is not defined''))
     else all_ok validate_role (ac_profiles cfg)))"

definition from_toml :: "(rstr \<Rightarrow> (app_config, rstr) result) \<Rightarrow> rstr \<Rightarrow> (app_config, config_error) result" where
  "from_toml from_str str =
     (case from_str str of
        Inl e \<Rightarrow> Err (ParseError e)
      | Inr cfg \<Rightarrow> try_bind (validate cfg) (\<lambda>_. Ok cfg))"

text \<open>\<open>read\<close> is what reading the file gives.\<close>

definition load :: "(rstr \<Rightarrow> (app_config, rstr) result) \<Rightarrow> (rstr, rstr) result \<Rightarrow> (app_config, config_error) result" where
  "load from_str read_file =
     (case read_file of Inl e \<Rightarrow> Err (IoError e) | Inr str \<Rightarrow> from_toml from_str str)"

subsection \<open>What a validated configuration is\<close>

lemma all_ok_iff: "all_ok f xs = Ok () \<longleftrightarrow> (\<forall>x \<in> set xs. f x = Ok ())"
  by (induction xs) auto

lemma validate_runtime_Ok:
  "validate_runtime rt = Ok () \<longleftrightarrow>
     (rt_mode rt = HouseholdCodex \<longrightarrow>
        (\<exists>socket cwd_root. codex_socket rt = Some socket \<and> codex_cwd_root rt = Some cwd_root \<and>
           absolute_path socket \<and> absolute_path cwd_root) \<and>
        12 < rt_chunk_limit rt \<and> rt_chunk_limit rt \<le> 900 \<and>
        rt_permission_profile_prefix rt \<noteq> [] \<and>
        list_all (\<lambda>c. is_ascii_alphanumeric c \<or> c = 45) (rt_permission_profile_prefix rt))"
proof -
  have "length (cyr '' Prodolvatx?'') = 12" by code_simp
  then show ?thesis
    by (cases "codex_socket rt"; cases "codex_cwd_root rt") (auto simp: validate_runtime_def)
qed

lemma validate_Ok:
  "validate cfg = Ok () \<longleftrightarrow>
     validate_runtime (ac_runtime cfg) = Ok () \<and>
     map_of (ac_providers cfg) (mc_provider (mc_fast (ac_models cfg))) \<noteq> None \<and>
     map_of (ac_providers cfg) (mc_provider (mc_smart (ac_models cfg))) \<noteq> None \<and>
     (\<exists>p \<in> set (ac_profiles cfg). pc_name p = df_profile (ac_defaults cfg)) \<and>
     (\<forall>p \<in> set (ac_profiles cfg). pc_role_name p = asc ''adult'' \<or> pc_role_name p = asc ''child'')"
  by (auto simp: validate_def all_ok_iff validate_preset_def validate_role_def list_ex_iff split: if_splits)

end
