(* ===== verification/Json_Rpc.thy ===== *)
theory Json_Rpc
  imports Rust_Str
begin

section \<open>The JSON-RPC client of the Codex app-server\<close>

text \<open>
  Model of \<^verbatim>\<open>crates/codex-runtime/src/client.rs\<close> and \<^verbatim>\<open>error.rs\<close>: JSON values, the two transports,
  the client with its request loop and the loop that collects a turn. Parsing and printing
  of JSON text is the crate \<^verbatim>\<open>serde_json\<close>: the parameters \<open>from_json\<close> and \<open>to_json\<close>. A connection
  is what comes over it, a list, and what follows: the peer closes it, or leaves it open and
  sends nothing more. No read has a timeout, so a read of a silent open connection does not
  return: its result is \<open>Waiting\<close>, and so is the result of every loop that made it. A stream
  without end is seen through its beginnings, each followed by an open connection. A write is
  taken to complete or fail. A loop has fuel, one unit for each message it takes; \<open>None\<close> is
  fuel that ran out. What the loops rely on of a transport is the locale \<open>transport_laws\<close>: the
  results of the coming reads are a list that only reading shortens, after the last of them
  the result is the same for ever, and what was written is a list that only writing extends.
  Both transports meet it.
\<close>

subsection \<open>JSON values\<close>

text \<open>An object is the list of its members; the keys of a parsed or built object differ.\<close>

datatype json =
    JNull
  | JBool bool
  | JInt int
  | JFloat nat
  | JStr rstr
  | JArr "json list"
  | JObj "(rstr \<times> json) list"

fun json_get :: "json \<Rightarrow> rstr \<Rightarrow> json option" where
  "json_get (JObj members) key = map_of members key"
| "json_get v key = None"

fun as_str :: "json \<Rightarrow> rstr option" where
  "as_str (JStr s) = Some s"
| "as_str v = None"

fun as_bool :: "json \<Rightarrow> bool option" where
  "as_bool (JBool b) = Some b"
| "as_bool v = None"

fun as_u64 :: "json \<Rightarrow> nat option" where
  "as_u64 (JInt i) = (if 0 \<le> i \<and> i < 2 ^ 64 then Some (nat i) else None)"
| "as_u64 v = None"

fun as_i64 :: "json \<Rightarrow> i64 option" where
  "as_i64 (JInt i) = (if i64_min \<le> i \<and> i \<le> i64_max then Some i else None)"
| "as_i64 v = None"

text \<open>\<open>Value::pointer\<close>, with the tokens of the pointer as a list.\<close>

definition parse_index :: "rstr \<Rightarrow> nat option" where
  "parse_index token =
     (if starts_with token (asc ''+'') \<or> (starts_with token (asc ''0'') \<and> length token \<noteq> 1) then None
      else parse_usize token)"

fun pointer :: "json \<Rightarrow> rstr list \<Rightarrow> json option" where
  "pointer v [] = Some v"
| "pointer (JObj members) (token # tokens) =
     (case map_of members token of None \<Rightarrow> None | Some v \<Rightarrow> pointer v tokens)"
| "pointer (JArr items) (token # tokens) =
     (case parse_index token of
        None \<Rightarrow> None
      | Some i \<Rightarrow> (case iter_nth items i of None \<Rightarrow> None | Some v \<Rightarrow> pointer v tokens))"
| "pointer v (token # tokens) = None"

definition str_at :: "json \<Rightarrow> string list \<Rightarrow> rstr option" where
  "str_at v tokens = Option.bind (pointer v (map asc tokens)) as_str"

definition bool_at :: "json \<Rightarrow> string list \<Rightarrow> bool option" where
  "bool_at v tokens = Option.bind (pointer v (map asc tokens)) as_bool"

definition obj :: "(string \<times> json) list \<Rightarrow> json" where
  "obj members = JObj (map (\<lambda>(k, v). (asc k, v)) members)"

datatype codex_runtime_error =
    InvalidConfig rstr
  | Transport
  | EndOfStream
  | InvalidMessage
  | MessageTooLarge
  | Server i64
  | Protocol rstr
  | ForbiddenRequest

text \<open>How a call over a connection stops short: with an error, or by waiting for ever.\<close>

datatype stop = Failed codex_runtime_error | Waiting

type_synonym ('a, 's) io = "('a, stop) result \<times> 's"

definition failing :: "('a, codex_runtime_error) result \<Rightarrow> ('a, stop) result" where
  "failing r = (case r of Inl e \<Rightarrow> Err (Failed e) | Inr x \<Rightarrow> Ok x)"

lemma failing_simps [simp]:
  "failing r = Inr x \<longleftrightarrow> r = Inr x" "Inr x = failing r \<longleftrightarrow> r = Inr x" "failing r \<noteq> Inl Waiting" "failing (Inr x) = Inr x" "failing (Inl e) = Inl (Failed e)"
  by (cases r; auto simp: failing_def)+

subsection \<open>Transports\<close>

definition MAX_JSONL_BYTES :: nat where
  "MAX_JSONL_BYTES = 1024 * 1024"

record 't json_transport =
  read_message :: "'t \<Rightarrow> (json, 't) io"
  write_message :: "json \<Rightarrow> 't \<Rightarrow> (unit, 't) io"

text \<open>A stream of lines: what the coming reads find (\<open>None\<close> is a failed read), whether it
  stays open after them, what was written, and which coming writes fail.\<close>

record jsonl_state =
  jl_lines :: "rstr option list"
  jl_open :: bool
  jl_written :: "json list"
  jl_faults :: "bool list"

definition jsonl_message :: "(rstr \<Rightarrow> json option) \<Rightarrow> rstr option \<Rightarrow> (json, codex_runtime_error) result" where
  "jsonl_message from_json l =
     (case l of
        None \<Rightarrow> Err Transport
      | Some line \<Rightarrow>
          (if str_len line = 0 then Err EndOfStream
           else if str_len line > MAX_JSONL_BYTES then Err MessageTooLarge
           else ok_or InvalidMessage (from_json line)))"

definition jsonl_read :: "(rstr \<Rightarrow> json option) \<Rightarrow> jsonl_state \<Rightarrow> (json, jsonl_state) io" where
  "jsonl_read from_json s =
     (case jl_lines s of
        [] \<Rightarrow> (Err (if jl_open s then Waiting else Failed EndOfStream), s)
      | l # ls \<Rightarrow> (failing (jsonl_message from_json l), s\<lparr>jl_lines := ls\<rparr>))"

definition jsonl_write :: "json \<Rightarrow> jsonl_state \<Rightarrow> (unit, jsonl_state) io" where
  "jsonl_write m s =
     (case jl_faults s of
        True # fs \<Rightarrow> (Err (Failed Transport), s\<lparr>jl_faults := fs\<rparr>)
      | fs \<Rightarrow> (Ok (), s\<lparr>jl_faults := tl fs, jl_written := jl_written s @ [m]\<rparr>))"

definition jsonl_transport :: "(rstr \<Rightarrow> json option) \<Rightarrow> jsonl_state json_transport" where
  "jsonl_transport from_json = \<lparr>read_message = jsonl_read from_json, write_message = jsonl_write\<rparr>"

text \<open>A WebSocket: the coming frames, and whether it stays open after them; a ping says
  whether the pong can be sent.\<close>

datatype ws_frame =
    WText rstr
  | WPing bool
  | WPong
  | WClose
  | WBinary
  | WFrame
  | WFailed

record ws_state =
  ws_frames :: "ws_frame list"
  ws_open :: bool
  ws_written :: "json list"
  ws_faults :: "bool list"

text \<open>What a frame gives the reader; \<open>None\<close> is to read on.\<close>

fun ws_message :: "(rstr \<Rightarrow> json option) \<Rightarrow> ws_frame \<Rightarrow> (json, codex_runtime_error) result option" where
  "ws_message from_json WFailed = Some (Err Transport)"
| "ws_message from_json (WText t) =
     Some (if str_len t > MAX_JSONL_BYTES then Err MessageTooLarge else ok_or InvalidMessage (from_json t))"
| "ws_message from_json (WPing sent) = (if sent then None else Some (Err Transport))"
| "ws_message from_json WPong = None"
| "ws_message from_json WClose = Some (Err EndOfStream)"
| "ws_message from_json WBinary = Some (Err InvalidMessage)"
| "ws_message from_json WFrame = Some (Err InvalidMessage)"

fun ws_next :: "(rstr \<Rightarrow> json option) \<Rightarrow> bool \<Rightarrow> ws_frame list \<Rightarrow> (json, stop) result \<times> ws_frame list" where
  "ws_next from_json still_open [] = (Err (if still_open then Waiting else Failed EndOfStream), [])"
| "ws_next from_json still_open (f # fs) =
     (case ws_message from_json f of
        None \<Rightarrow> ws_next from_json still_open fs
      | Some r \<Rightarrow> (failing r, fs))"

definition ws_read :: "(rstr \<Rightarrow> json option) \<Rightarrow> ws_state \<Rightarrow> (json, ws_state) io" where
  "ws_read from_json s = (case ws_next from_json (ws_open s) (ws_frames s) of (r, fs) \<Rightarrow> (r, s\<lparr>ws_frames := fs\<rparr>))"

definition ws_write :: "(json \<Rightarrow> rstr) \<Rightarrow> json \<Rightarrow> ws_state \<Rightarrow> (unit, ws_state) io" where
  "ws_write to_json m s =
     (if str_len (to_json m) > MAX_JSONL_BYTES then (Err (Failed MessageTooLarge), s)
      else case ws_faults s of
             True # fs \<Rightarrow> (Err (Failed Transport), s\<lparr>ws_faults := fs\<rparr>)
           | fs \<Rightarrow> (Ok (), s\<lparr>ws_faults := tl fs, ws_written := ws_written s @ [m]\<rparr>))"

definition ws_transport :: "(rstr \<Rightarrow> json option) \<Rightarrow> (json \<Rightarrow> rstr) \<Rightarrow> ws_state json_transport" where
  "ws_transport from_json to_json = \<lparr>read_message = ws_read from_json, write_message = ws_write to_json\<rparr>"

subsection \<open>The client\<close>

record 't json_rpc_client =
  rc_transport :: 't
  rc_next_id :: nat
  rc_notifications :: "json list"

definition rpc_client_new :: "'t \<Rightarrow> 't json_rpc_client" where
  "rpc_client_new t = \<lparr>rc_transport = t, rc_next_id = 1, rc_notifications = []\<rparr>"

definition rpc_read :: "'t json_transport \<Rightarrow> 't json_rpc_client \<Rightarrow> (json, 't json_rpc_client) io" where
  "rpc_read T c = (case read_message T (rc_transport c) of (r, t) \<Rightarrow> (r, c\<lparr>rc_transport := t\<rparr>))"

definition rpc_write :: "'t json_transport \<Rightarrow> json \<Rightarrow> 't json_rpc_client \<Rightarrow> (unit, 't json_rpc_client) io" where
  "rpc_write T m c = (case write_message T m (rc_transport c) of (r, t) \<Rightarrow> (r, c\<lparr>rc_transport := t\<rparr>))"

definition notification :: "rstr \<Rightarrow> json option \<Rightarrow> json" where
  "notification meth params =
     obj ((''method'', JStr meth) # (case params of None \<Rightarrow> [] | Some p \<Rightarrow> [(''params'', p)]))"

definition notify :: "'t json_transport \<Rightarrow> rstr \<Rightarrow> json option \<Rightarrow> 't json_rpc_client \<Rightarrow> (unit, 't json_rpc_client) io" where
  "notify T meth params c = rpc_write T (notification meth params) c"

definition has_method :: "json \<Rightarrow> bool" where
  "has_method m \<longleftrightarrow> json_get m (asc ''method'') \<noteq> None"

definition has_id :: "json \<Rightarrow> bool" where
  "has_id m \<longleftrightarrow> json_get m (asc ''id'') \<noteq> None"

definition method_of :: "json \<Rightarrow> rstr option" where
  "method_of m = Option.bind (json_get m (asc ''method'')) as_str"

definition decline :: "json \<Rightarrow> json" where
  "decline i = obj [(''id'', i), (''result'', obj [(''decision'', JStr (asc ''decline''))])]"

definition not_allowed :: "json \<Rightarrow> json" where
  "not_allowed i = obj [(''id'', i),
     (''error'', obj [(''code'', JInt (- 32601)), (''message'', JStr (asc ''method not allowed''))])]"

definition approval_requests :: "rstr list" where
  "approval_requests = [asc ''item/commandExecution/requestApproval'', asc ''item/fileChange/requestApproval'']"

definition handle_server_request :: "'t json_transport \<Rightarrow> json \<Rightarrow> 't json_rpc_client \<Rightarrow> (unit, 't json_rpc_client) io" where
  "handle_server_request T m c =
     (case json_get m (asc ''id'') of
        None \<Rightarrow> (Err (Failed (Protocol (asc ''server request has no id''))), c)
      | Some i \<Rightarrow>
          (case method_of m of
             None \<Rightarrow> (Err (Failed (Protocol (asc ''server request has no method''))), c)
           | Some meth \<Rightarrow>
               (if meth \<in> set approval_requests then rpc_write T (decline i) c
                else case rpc_write T (not_allowed i) c of
                       (Inl e, c') \<Rightarrow> (Err e, c')
                     | (Inr _, c') \<Rightarrow> (Err (Failed ForbiddenRequest), c'))))"

definition response_of :: "nat \<Rightarrow> json \<Rightarrow> (json, codex_runtime_error) result" where
  "response_of i m =
     (if Option.bind (json_get m (asc ''id'')) as_u64 \<noteq> Some i
      then Err (Protocol (asc ''response id does not match the request''))
      else case json_get m (asc ''error'') of
             Some error \<Rightarrow>
               Err (Server (case Option.bind (json_get error (asc ''code'')) as_i64 of Some code \<Rightarrow> code | None \<Rightarrow> - 1))
           | None \<Rightarrow> ok_or (Protocol (asc ''response has no result'')) (json_get m (asc ''result'')))"

fun request_loop :: "'t json_transport \<Rightarrow> nat \<Rightarrow> nat \<Rightarrow> 't json_rpc_client \<Rightarrow> (json, 't json_rpc_client) io option" where
  "request_loop T 0 i c = None"
| "request_loop T (Suc fuel) i c =
     (case rpc_read T c of
        (Inl e, c') \<Rightarrow> Some (Err e, c')
      | (Inr m, c') \<Rightarrow>
          (if has_method m then
             (if has_id m then
                (case handle_server_request T m c' of
                   (Inl e, c'') \<Rightarrow> Some (Err e, c'')
                 | (Inr _, c'') \<Rightarrow> request_loop T fuel i c'')
              else request_loop T fuel i (c'\<lparr>rc_notifications := rc_notifications c' @ [m]\<rparr>))
           else Some (failing (response_of i m), c')))"

definition rpc_request :: "nat \<Rightarrow> rstr \<Rightarrow> json \<Rightarrow> json" where
  "rpc_request i meth params = obj [(''id'', JInt (int i)), (''method'', JStr meth), (''params'', params)]"

definition request :: "'t json_transport \<Rightarrow> nat \<Rightarrow> rstr \<Rightarrow> json \<Rightarrow> 't json_rpc_client \<Rightarrow> (json, 't json_rpc_client) io option" where
  "request T fuel meth params c =
     (let i = rc_next_id c
      in case rpc_write T (rpc_request i meth params) (c\<lparr>rc_next_id := i + 1\<rparr>) of
           (Inl e, c') \<Rightarrow> Some (Err e, c')
         | (Inr _, c') \<Rightarrow> request_loop T fuel i c')"

subsection \<open>Collecting a turn\<close>

definition AGENT_MESSAGE_DELTA :: rstr where
  "AGENT_MESSAGE_DELTA = asc ''item/agentMessage/delta''"

definition ITEM_COMPLETED :: rstr where
  "ITEM_COMPLETED = asc ''item/completed''"

definition TURN_COMPLETED :: rstr where
  "TURN_COMPLETED = asc ''turn/completed''"

definition require_turn :: "json \<Rightarrow> rstr \<Rightarrow> rstr \<Rightarrow> (unit, codex_runtime_error) result" where
  "require_turn m thread_id turn_id =
     (if str_at m [''params'', ''threadId''] \<noteq> Some thread_id \<or> str_at m [''params'', ''turnId''] \<noteq> Some turn_id
      then Err (Protocol (asc ''notification belongs to another thread or turn'')) else Ok ())"

definition require_completed_turn :: "json \<Rightarrow> rstr \<Rightarrow> rstr \<Rightarrow> (unit, codex_runtime_error) result" where
  "require_completed_turn m thread_id turn_id =
     (if str_at m [''params'', ''threadId''] \<noteq> Some thread_id \<or> str_at m [''params'', ''turn'', ''id''] \<noteq> Some turn_id \<or>
         str_at m [''params'', ''turn'', ''status''] \<noteq> Some (asc ''completed'')
      then Err (Protocol (asc ''turn completed with mismatched identity or status'')) else Ok ())"

text \<open>The flag \<open>unverified\<close> is returned as it is after the call.\<close>

definition observe_homey_tool :: "json \<Rightarrow> rstr \<Rightarrow> rstr \<Rightarrow> rstr option \<Rightarrow> bool \<Rightarrow> (bool, codex_runtime_error) result" where
  "observe_homey_tool m thread_id turn_id homey_connector unverified =
     try_bind (require_turn m thread_id turn_id) (\<lambda>_.
       if str_at m [''params'', ''item'', ''type''] \<noteq> Some (asc ''mcpToolCall'') then Ok unverified
       else if str_at m [''params'', ''item'', ''server''] \<noteq> homey_connector then Err ForbiddenRequest
       else case str_at m [''params'', ''item'', ''tool''] of
              None \<Rightarrow> Err (Protocol (asc ''MCP item has no tool name''))
            | Some tool \<Rightarrow>
                (if tool = asc ''list_attention_items'' \<or> tool = asc ''get_device_state'' then Ok unverified
                 else if tool = asc ''set_device_capability'' then
                   (let completed = str_at m [''params'', ''item'', ''status''] = Some (asc ''completed'');
                        verified = (case bool_at m [''params'', ''item'', ''result'', ''structuredContent'', ''verified''] of
                                      Some b \<Rightarrow> b | None \<Rightarrow> False)
                    in Ok (if \<not> completed \<or> \<not> verified then True else unverified))
                 else Err ForbiddenRequest))"

definition UNCONFIRMED :: rstr where
  "UNCONFIRMED = cyr ''Ne polu~ilosx podtwerditx izmenenie ustrojstwa.''"

text \<open>What one message does to the text and the flag, or how it ends the turn.\<close>

datatype turn_step = Gather rstr bool | Return "(rstr, codex_runtime_error) result"

definition turn_message :: "rstr \<Rightarrow> rstr \<Rightarrow> rstr option \<Rightarrow> json \<Rightarrow> rstr \<Rightarrow> bool \<Rightarrow> turn_step" where
  "turn_message thread_id turn_id homey_connector m assistant_text unverified =
     (case method_of m of
        None \<Rightarrow> Return (Err (Protocol (asc ''unexpected response while waiting for turn'')))
      | Some meth \<Rightarrow>
          (if meth = AGENT_MESSAGE_DELTA then
             (case require_turn m thread_id turn_id of
                Inl e \<Rightarrow> Return (Err e)
              | Inr _ \<Rightarrow>
                  (case str_at m [''params'', ''delta''] of
                     None \<Rightarrow> Return (Err (Protocol (asc ''agent delta has no text'')))
                   | Some delta \<Rightarrow> Gather (assistant_text @ delta) unverified))
           else if meth = ITEM_COMPLETED then
             (case observe_homey_tool m thread_id turn_id homey_connector unverified of
                Inl e \<Rightarrow> Return (Err e)
              | Inr u \<Rightarrow> Gather assistant_text u)
           else if meth = TURN_COMPLETED then
             (case require_completed_turn m thread_id turn_id of
                Inl e \<Rightarrow> Return (Err e)
              | Inr _ \<Rightarrow>
                  (if unverified then Return (Ok UNCONFIRMED)
                   else if assistant_text = [] then Return (Err (Protocol (asc ''completed turn has no assistant text'')))
                   else Return (Ok assistant_text)))
           else Gather assistant_text unverified))"

definition next_message :: "'t json_transport \<Rightarrow> 't json_rpc_client \<Rightarrow> (json, 't json_rpc_client) io" where
  "next_message T c =
     (case rc_notifications c of
        m # ms \<Rightarrow> (Ok m, c\<lparr>rc_notifications := ms\<rparr>)
      | [] \<Rightarrow> rpc_read T c)"

fun collect_loop :: "'t json_transport \<Rightarrow> nat \<Rightarrow> rstr \<Rightarrow> rstr \<Rightarrow> rstr option \<Rightarrow> rstr \<Rightarrow> bool \<Rightarrow> 't json_rpc_client \<Rightarrow>
    (rstr, 't json_rpc_client) io option" where
  "collect_loop T 0 thread_id turn_id homey_connector assistant_text unverified c = None"
| "collect_loop T (Suc fuel) thread_id turn_id homey_connector assistant_text unverified c =
     (case next_message T c of
        (Inl e, c') \<Rightarrow> Some (Err e, c')
      | (Inr m, c') \<Rightarrow>
          (if has_method m \<and> has_id m then
             (case handle_server_request T m c' of
                (Inl e, c'') \<Rightarrow> Some (Err e, c'')
              | (Inr _, c'') \<Rightarrow> collect_loop T fuel thread_id turn_id homey_connector assistant_text unverified c'')
           else
             (case turn_message thread_id turn_id homey_connector m assistant_text unverified of
                Return r \<Rightarrow> Some (failing r, c')
              | Gather assistant_text' unverified' \<Rightarrow>
                  collect_loop T fuel thread_id turn_id homey_connector assistant_text' unverified' c')))"

definition collect_turn :: "'t json_transport \<Rightarrow> nat \<Rightarrow> rstr \<Rightarrow> rstr \<Rightarrow> rstr option \<Rightarrow> 't json_rpc_client \<Rightarrow>
    (rstr, 't json_rpc_client) io option" where
  "collect_turn T fuel thread_id turn_id homey_connector c =
     collect_loop T fuel thread_id turn_id homey_connector [] False c"


subsection \<open>What a transport promises\<close>

definition read_result :: "stop \<Rightarrow> (json, codex_runtime_error) result list \<Rightarrow> (json, stop) result" where
  "read_result final box = (case box of [] \<Rightarrow> Err final | r # _ \<Rightarrow> failing r)"

lemma read_result_Waiting: "read_result final box = Inl Waiting \<longleftrightarrow> final = Waiting \<and> box = []"
  by (auto simp: read_result_def split: list.splits)

definition refusal :: "json \<Rightarrow> bool" where
  "refusal m \<longleftrightarrow> (\<exists>i. m = decline i \<or> m = not_allowed i)"

text \<open>A message a request or notification handler looks at: not a request of the server.\<close>

definition server_request :: "json \<Rightarrow> bool" where
  "server_request m \<longleftrightarrow> has_method m \<and> has_id m"

locale transport_laws =
  fixes T :: "'t json_transport"
    and inbox :: "'t \<Rightarrow> (json, codex_runtime_error) result list"
    and final :: "'t \<Rightarrow> stop"
    and written :: "'t \<Rightarrow> json list"
  assumes read_law:
      "read_message T t = (r, t') \<Longrightarrow> r = read_result (final t) (inbox t) \<and> inbox t' = tl (inbox t) \<and>
       final t' = final t \<and> written t' = written t"
    and write_law:
      "write_message T m t = (rw, t') \<Longrightarrow> inbox t' = inbox t \<and> final t' = final t \<and>
       (rw = Ok () \<and> written t' = written t @ [m] \<or> (\<exists>e. rw = Err (Failed e)) \<and> written t' = written t)"
begin

definition box :: "'t json_rpc_client \<Rightarrow> (json, codex_runtime_error) result list" where
  "box c = inbox (rc_transport c)"

definition ending :: "'t json_rpc_client \<Rightarrow> stop" where
  "ending c = final (rc_transport c)"

definition sent :: "'t json_rpc_client \<Rightarrow> json list" where
  "sent c = written (rc_transport c)"

text \<open>Only messages of a kind were written between two states of the client.\<close>

definition wrote :: "(json \<Rightarrow> bool) \<Rightarrow> 't json_rpc_client \<Rightarrow> 't json_rpc_client \<Rightarrow> bool" where
  "wrote P c c' \<longleftrightarrow> (\<exists>ms. sent c' = sent c @ ms \<and> list_all P ms)"

lemma wrote_refl [simp]: "sent c' = sent c \<Longrightarrow> wrote P c c'"
  by (simp add: wrote_def)

lemma wrote_trans: "wrote P c c1 \<Longrightarrow> wrote P c1 c2 \<Longrightarrow> wrote P c c2"
  by (force simp: wrote_def)

lemma wrote_mono: "wrote P c c' \<Longrightarrow> (\<And>m. P m \<Longrightarrow> Q m) \<Longrightarrow> wrote Q c c'"
  by (auto simp: wrote_def list_all_iff)

lemma client_fields [simp]:
  "box (c\<lparr>rc_next_id := i\<rparr>) = box c" "sent (c\<lparr>rc_next_id := i\<rparr>) = sent c"
  "box (c\<lparr>rc_notifications := ms\<rparr>) = box c" "sent (c\<lparr>rc_notifications := ms\<rparr>) = sent c"
  "ending (c\<lparr>rc_next_id := i\<rparr>) = ending c" "ending (c\<lparr>rc_notifications := ms\<rparr>) = ending c"
  by (simp_all add: box_def sent_def ending_def)

lemma rpc_read_law:
  assumes "rpc_read T c = (r, c')"
  shows "r = read_result (ending c) (box c)" and "box c' = tl (box c)" and "sent c' = sent c"
    and "rc_notifications c' = rc_notifications c" and "rc_next_id c' = rc_next_id c" and "ending c' = ending c"
  using assms read_law by (fastforce simp: rpc_read_def box_def sent_def ending_def split: prod.splits)+

lemma rpc_write_law:
  assumes "rpc_write T m c = (r, c')"
  shows "box c' = box c" and "r = Ok () \<and> sent c' = sent c @ [m] \<or> (\<exists>e. r = Err (Failed e)) \<and> sent c' = sent c"
    and "rc_notifications c' = rc_notifications c" and "rc_next_id c' = rc_next_id c" and "ending c' = ending c"
  using assms write_law by (fastforce simp: rpc_write_def box_def sent_def ending_def split: prod.splits)+

lemma rpc_write_wrote: "rpc_write T m c = (r, c') \<Longrightarrow> P m \<Longrightarrow> wrote P c c'"
  using rpc_write_law(2) by (fastforce simp: wrote_def)

lemma handle_server_request_law:
  assumes "handle_server_request T m c = (r, c')"
  shows "box c' = box c" and "rc_notifications c' = rc_notifications c" and "rc_next_id c' = rc_next_id c"
    and "wrote refusal c c'"
proof -
  have d: "refusal (decline i)" "refusal (not_allowed i)" for i by (auto simp: refusal_def)
  show "box c' = box c" "rc_notifications c' = rc_notifications c" "rc_next_id c' = rc_next_id c" "wrote refusal c c'"
    using assms d
    by (auto simp: handle_server_request_def split: option.splits if_splits prod.splits sum.splits
        dest: rpc_write_law rpc_write_wrote)
qed

text \<open>The request loop: it ends, refuses what the server asks, and keeps the notifications.\<close>

lemma request_loop_ends: "length (box c) < fuel \<Longrightarrow> request_loop T fuel i c \<noteq> None"
proof (induction fuel arbitrary: c)
  case (Suc fuel)
  obtain r c1 where r: "rpc_read T c = (r, c1)" by fastforce
  note law = rpc_read_law [OF r]
  show ?case
  proof (cases r)
    case (Inl e)
    with r show ?thesis by simp
  next
    case (Inr m)
    with law(1) have "box c \<noteq> []" by (auto simp: read_result_def split: list.splits)
    then have less: "length (box c1) < fuel" using law(2) Suc.prems by (cases "box c") auto
    obtain q c2 where q: "handle_server_request T m c1 = (q, c2)" by fastforce
    have "length (box c2) < fuel" using handle_server_request_law(1) [OF q] less by simp
    with Suc.IH less r Inr q show ?thesis by (auto split: sum.splits)
  qed
qed simp

text \<open>A call that waits for ever waits on an open connection from which everything was taken.\<close>

definition settled :: "('a, stop) result \<Rightarrow> 't json_rpc_client \<Rightarrow> 't json_rpc_client \<Rightarrow> bool" where
  "settled r c c' \<longleftrightarrow> ending c' = ending c \<and> (r = Err Waiting \<longrightarrow> ending c = Waiting \<and> box c' = [])"

lemma settled_trans: "ending c1 = ending c \<Longrightarrow> settled r c1 c' \<Longrightarrow> settled r c c'"
  by (simp add: settled_def)

lemma read_settled:
  assumes "rpc_read T c = (r, c')"
  shows "settled r c c'"
  using rpc_read_law(1,2,6) [OF assms] by (auto simp: settled_def read_result_Waiting)

lemma write_settled:
  assumes "rpc_write T m c = (r, c')"
  shows "settled r c c' \<and> r \<noteq> Err Waiting"
  using rpc_write_law(2,5) [OF assms] by (auto simp: settled_def)

lemma handle_settled:
  assumes "handle_server_request T m c = (r, c')"
  shows "settled r c c' \<and> r \<noteq> Err Waiting"
proof -
  consider "c' = c" "r \<noteq> Err Waiting" | w q where "rpc_write T w c = (q, c')" "r = q \<or> r \<noteq> Err Waiting"
    using assms by (auto simp: handle_server_request_def split: option.splits if_splits prod.splits sum.splits)
  then show ?thesis
  proof cases
    case 1
    then show ?thesis by (simp add: settled_def)
  next
    case (2 w q)
    with write_settled [OF 2(1)] show ?thesis by (auto simp: settled_def)
  qed
qed

lemma request_loop_settled: "request_loop T fuel i c = Some (r, c') \<Longrightarrow> settled r c c'"
proof (induction fuel arbitrary: c)
  case (Suc fuel)
  obtain r1 c1 where r: "rpc_read T c = (r1, c1)" by fastforce
  note s1 = read_settled [OF r]
  show ?case
  proof (cases r1)
    case (Inl e)
    with r Suc.prems s1 show ?thesis by (simp add: settled_def)
  next
    case (Inr m)
    obtain q c2 where q: "handle_server_request T m c1 = (q, c2)" by fastforce
    have e: "ending c2 = ending c" "ending c1 = ending c" "q \<noteq> Err Waiting"
      using handle_settled [OF q] s1 by (simp_all add: settled_def)
    consider (answer) "\<not> has_method m" | (note1) "has_method m" "\<not> has_id m" | (asks) "has_method m" "has_id m" by blast
    then show ?thesis
    proof cases
      case answer
      with Suc.prems r Inr e show ?thesis by (auto simp: settled_def)
    next
      case note1
      with Suc.prems r Inr have "request_loop T fuel i (c1\<lparr>rc_notifications := rc_notifications c1 @ [m]\<rparr>) = Some (r, c')" by simp
      from settled_trans [OF _ Suc.IH [OF this]] e show ?thesis by simp
    next
      case asks
      with Suc.prems r Inr q e show ?thesis
        by (auto simp: settled_def split: sum.splits dest!: Suc.IH)
    qed
  qed
qed simp

lemma read_waiting: "ending c = Waiting \<Longrightarrow> box c = [] \<Longrightarrow> \<exists>c'. rpc_read T c = (Err Waiting, c')"
  using rpc_read_law(1) [of c "fst (rpc_read T c)" "snd (rpc_read T c)"]
  by (intro exI [of _ "snd (rpc_read T c)"]) (simp add: read_result_def prod_eq_iff)

lemma read_next:
  assumes "box c = Inr m # b"
  shows "\<exists>c'. rpc_read T c = (Ok m, c') \<and> box c' = b \<and> ending c' = ending c \<and> rc_notifications c' = rc_notifications c"
proof -
  obtain r c' where r: "rpc_read T c = (r, c')" by fastforce
  from rpc_read_law [OF r] assms r show ?thesis by (simp add: read_result_def)
qed

lemma request_loop_waits:
  "box c = map Inr ms \<Longrightarrow> \<forall>m \<in> set ms. has_method m \<and> \<not> has_id m \<Longrightarrow> ending c = Waiting \<Longrightarrow> length ms < fuel \<Longrightarrow>
   \<exists>c'. request_loop T fuel i c = Some (Err Waiting, c')"
proof (induction ms arbitrary: c fuel)
  case Nil
  then obtain c' where "rpc_read T c = (Err Waiting, c')" using read_waiting by auto
  with Nil.prems(4) show ?case by (cases fuel) simp_all
next
  case (Cons m ms)
  then obtain n where n: "fuel = Suc n" "length ms < n" by (cases fuel) auto
  obtain c1 where r: "rpc_read T c = (Ok m, c1)" "box c1 = map Inr ms" "ending c1 = Waiting"
    using read_next Cons.prems by fastforce
  have "\<exists>c'. request_loop T n i (c1\<lparr>rc_notifications := rc_notifications c1 @ [m]\<rparr>) = Some (Err Waiting, c')"
    by (rule Cons.IH) (use r Cons.prems n in simp_all)
  with r(1) n(1) Cons.prems(2) show ?case by simp
qed

text \<open>What a loop took: the messages are a prefix of what the reads give.\<close>

definition took :: "json list \<Rightarrow> 't json_rpc_client \<Rightarrow> 't json_rpc_client \<Rightarrow> bool" where
  "took ms c c' \<longleftrightarrow> box c = map Inr ms @ box c'"

lemma took_length: "took ms c c' \<Longrightarrow> length (box c') \<le> length (box c)"
  by (simp add: took_def)

lemma read_took:
  assumes "rpc_read T c = (Ok m, c')"
  shows "took [m] c c'"
  using rpc_read_law(1,2) [OF assms] by (cases "box c") (auto simp: took_def read_result_def)

lemma request_loop_law:
  assumes "request_loop T fuel i c = Some (r, c')"
  shows "wrote refusal c c' \<and> rc_next_id c' = rc_next_id c \<and>
         length (rc_notifications c') + length (box c') \<le> length (rc_notifications c) + length (box c)"
  using assms
proof (induction fuel arbitrary: c)
  case (Suc fuel)
  obtain r1 c1 where r: "rpc_read T c = (r1, c1)" by fastforce
  note law = rpc_read_law [OF r]
  have w1: "wrote refusal c c1" "length (box c1) \<le> length (box c)" using law(2,3) by simp_all
  show ?case
  proof (cases r1)
    case (Inl e)
    with r Suc.prems have "c' = c1" by simp
    with w1 law(4,5) show ?thesis by simp
  next
    case (Inr m)
    then have len: "length (box c) = Suc (length (box c1))" using read_took r by (simp add: took_def)
    consider (answer) "\<not> has_method m" | (note1) "has_method m" "\<not> has_id m" | (asks) "has_method m" "has_id m" by blast
    then show ?thesis
    proof cases
      case answer
      with Suc.prems r Inr have "c' = c1" by simp
      with w1 law(4,5) show ?thesis by simp
    next
      case note1
      let ?c = "c1\<lparr>rc_notifications := rc_notifications c1 @ [m]\<rparr>"
      from note1 Suc.prems r Inr have "request_loop T fuel i ?c = Some (r, c')" by simp
      note IH = Suc.IH [OF this]
      have "wrote refusal c ?c" using law(3) by simp
      then have "wrote refusal c c'" using IH wrote_trans by blast
      with IH law(4,5) len show ?thesis by simp
    next
      case asks
      obtain q c2 where q: "handle_server_request T m c1 = (q, c2)" by fastforce
      note hlaw = handle_server_request_law [OF q]
      have w2: "wrote refusal c c2" using w1(1) hlaw(4) by (rule wrote_trans)
      from asks Suc.prems r Inr q consider "c' = c2" | "request_loop T fuel i c2 = Some (r, c')"
        by (auto split: sum.splits)
      then show ?thesis
      proof cases
        case 1
        with w2 hlaw(1-3) law(4,5) len show ?thesis by simp
      next
        case 2
        note IH = Suc.IH [OF 2]
        have "wrote refusal c c'" using IH w2 wrote_trans by blast
        with IH hlaw(1-3) law(4,5) len show ?thesis by simp
      qed
    qed
  qed
qed simp

lemma request_loop_answer:
  assumes "request_loop T fuel i c = Some (Ok v, c')"
  shows "\<exists>ms m. took (ms @ [m]) c c' \<and> \<not> has_method m \<and> response_of i m = Ok v \<and>
           rc_notifications c' = rc_notifications c @ filter (\<lambda>m. \<not> server_request m) ms"
  using assms
proof (induction fuel arbitrary: c)
  case (Suc fuel)
  then obtain m c1 where r: "rpc_read T c = (Ok m, c1)"
    by (auto split: prod.splits sum.splits)
  note law = rpc_read_law [OF r]
  have t: "took [m] c c1" by (rule read_took [OF r])
  consider (answer) "\<not> has_method m" | (note1) "has_method m" "\<not> has_id m" | (asks) "has_method m" "has_id m" by blast
  then show ?case
  proof cases
    case answer
    with Suc.prems r have "response_of i m = Ok v" "c' = c1" by simp_all
    with t answer law show ?thesis by (intro exI [of _ "[]"] exI [of _ m]) simp
  next
    case note1
    let ?c = "c1\<lparr>rc_notifications := rc_notifications c1 @ [m]\<rparr>"
    from note1 Suc.prems r have "request_loop T fuel i ?c = Some (Ok v, c')" by simp
    from Suc.IH [OF this] obtain ms a where "took (ms @ [a]) ?c c'" "\<not> has_method a" "response_of i a = Ok v"
      "rc_notifications c' = rc_notifications c @ m # filter (\<lambda>m. \<not> server_request m) ms"
      using law by auto
    with t note1 show ?thesis by (intro exI [of _ "m # ms"] exI [of _ a]) (simp add: took_def server_request_def)
  next
    case asks
    with Suc.prems r obtain c2 where q: "handle_server_request T m c1 = (Ok (), c2)"
      and run: "request_loop T fuel i c2 = Some (Ok v, c')"
      by (auto split: prod.splits sum.splits)
    note hlaw = handle_server_request_law [OF q]
    from Suc.IH [OF run] obtain ms a where "took (ms @ [a]) c2 c'" "\<not> has_method a" "response_of i a = Ok v"
      "rc_notifications c' = rc_notifications c @ filter (\<lambda>m. \<not> server_request m) ms"
      using law hlaw by auto
    with t asks hlaw show ?thesis by (intro exI [of _ "m # ms"] exI [of _ a]) (simp add: took_def server_request_def)
  qed
qed simp

end


text \<open>The loop of a turn, over the queue of kept notifications and coming reads.\<close>

fun turn_run :: "rstr \<Rightarrow> rstr \<Rightarrow> rstr option \<Rightarrow> json list \<Rightarrow> rstr \<Rightarrow> bool \<Rightarrow> (rstr \<times> bool) option" where
  "turn_run thread_id turn_id connector [] x u = Some (x, u)"
| "turn_run thread_id turn_id connector (m # ms) x u =
     (if server_request m then turn_run thread_id turn_id connector ms x u
      else case turn_message thread_id turn_id connector m x u of
             Gather x' u' \<Rightarrow> turn_run thread_id turn_id connector ms x' u'
           | Return r \<Rightarrow> None)"

context transport_laws
begin

definition queue :: "'t json_rpc_client \<Rightarrow> (json, codex_runtime_error) result list" where
  "queue c = map Inr (rc_notifications c) @ box c"

lemma next_message_law:
  assumes "next_message T c = (r, c')"
  shows "r = read_result (ending c) (queue c)" and "queue c' = tl (queue c)" and "sent c' = sent c" and "rc_next_id c' = rc_next_id c"
proof -
  have "r = read_result (ending c) (queue c) \<and> queue c' = tl (queue c) \<and> sent c' = sent c \<and> rc_next_id c' = rc_next_id c"
  proof (cases "rc_notifications c")
    case Nil
    with assms have "rpc_read T c = (r, c')" by (simp add: next_message_def)
    from rpc_read_law [OF this] Nil show ?thesis by (simp add: queue_def)
  next
    case (Cons m ms)
    with assms have "r = Ok m" "c' = c\<lparr>rc_notifications := ms\<rparr>" by (simp_all add: next_message_def)
    with Cons show ?thesis by (simp add: queue_def read_result_def)
  qed
  then show "r = read_result (ending c) (queue c)" "queue c' = tl (queue c)" "sent c' = sent c" "rc_next_id c' = rc_next_id c"
    by simp_all
qed

lemma next_message_took:
  assumes "next_message T c = (Ok m, c')"
  shows "queue c = Inr m # queue c'"
  using next_message_law(1,2) [OF assms] by (cases "queue c") (auto simp: read_result_def)

lemma handle_queue: "handle_server_request T m c = (r, c') \<Longrightarrow> queue c' = queue c"
  using handle_server_request_law(1,2) by (simp add: queue_def)

lemma collect_loop_ends:
  "length (queue c) < fuel \<Longrightarrow> collect_loop T fuel thread_id turn_id connector x u c \<noteq> None"
proof (induction fuel arbitrary: c x u)
  case (Suc fuel)
  obtain r c1 where r: "next_message T c = (r, c1)" by fastforce
  show ?case
  proof (cases r)
    case (Inl e)
    with r show ?thesis by simp
  next
    case (Inr m)
    then have less: "length (queue c1) < fuel" using next_message_took r Suc.prems by fastforce
    obtain q c2 where q: "handle_server_request T m c1 = (q, c2)" by fastforce
    with Suc.IH less handle_queue [OF q] r Inr show ?thesis by (auto split: sum.splits turn_step.splits)
  qed
qed simp

lemma collect_loop_wrote:
  "collect_loop T fuel thread_id turn_id connector x u c = Some (r, c') \<Longrightarrow> wrote refusal c c'"
proof (induction fuel arbitrary: c x u)
  case (Suc fuel)
  obtain r1 c1 where r: "next_message T c = (r1, c1)" by fastforce
  have w1: "wrote refusal c c1" using next_message_law(3) [OF r] by simp
  show ?case
  proof (cases r1)
    case (Inl e)
    with r Suc.prems w1 show ?thesis by simp
  next
    case (Inr m)
    show ?thesis
    proof (cases "has_method m \<and> has_id m")
      case True
      obtain q c2 where q: "handle_server_request T m c1 = (q, c2)" by fastforce
      have w2: "wrote refusal c c2" using w1 handle_server_request_law(4) [OF q] by (rule wrote_trans)
      from True Suc.prems r Inr q consider "c' = c2" | "collect_loop T fuel thread_id turn_id connector x u c2 = Some (r, c')"
        by (auto split: sum.splits)
      then show ?thesis using w2 Suc.IH wrote_trans by cases blast+
    next
      case False
      with Suc.prems r Inr consider "c' = c1" | x2 u2 where "collect_loop T fuel thread_id turn_id connector x2 u2 c1 = Some (r, c')"
        by (auto split: turn_step.splits)
      then show ?thesis using w1 Suc.IH wrote_trans by cases blast+
    qed
  qed
qed simp

lemma next_message_settled:
  assumes "next_message T c = (r, c')"
  shows "settled r c c'"
proof (cases "rc_notifications c")
  case Nil
  with assms have "rpc_read T c = (r, c')" by (simp add: next_message_def)
  then show ?thesis by (rule read_settled)
next
  case (Cons m ms)
  with assms show ?thesis by (auto simp: next_message_def settled_def)
qed

lemma collect_loop_settled:
  "collect_loop T fuel thread_id turn_id connector x u c = Some (r, c') \<Longrightarrow> settled r c c'"
proof (induction fuel arbitrary: c x u)
  case (Suc fuel)
  obtain r1 c1 where r: "next_message T c = (r1, c1)" by fastforce
  note s1 = next_message_settled [OF r]
  show ?case
  proof (cases r1)
    case (Inl e)
    with r Suc.prems s1 show ?thesis by (auto simp: settled_def)
  next
    case (Inr m)
    obtain q c2 where q: "handle_server_request T m c1 = (q, c2)" by fastforce
    have e: "ending c2 = ending c" "ending c1 = ending c" "q \<noteq> Err Waiting"
      using handle_settled [OF q] s1 by (simp_all add: settled_def)
    show ?thesis
    proof (cases "has_method m \<and> has_id m")
      case True
      with Suc.prems r Inr q e show ?thesis
        by (auto simp: settled_def split: sum.splits dest!: Suc.IH)
    next
      case False
      with Suc.prems r Inr e show ?thesis
        by (auto simp: settled_def split: turn_step.splits dest!: Suc.IH)
    qed
  qed
qed simp

text \<open>On an open connection a turn whose completion does not come is collected for ever.\<close>

lemma collect_loop_waits:
  "queue c = map Inr ms \<Longrightarrow> \<forall>m \<in> set ms. \<not> server_request m \<Longrightarrow> turn_run thread_id turn_id connector ms x u \<noteq> None \<Longrightarrow>
   ending c = Waiting \<Longrightarrow> length ms < fuel \<Longrightarrow>
   \<exists>c'. collect_loop T fuel thread_id turn_id connector x u c = Some (Err Waiting, c')"
proof (induction ms arbitrary: c fuel x u)
  case Nil
  then have "rc_notifications c = []" "box c = []" by (simp_all add: queue_def)
  with Nil.prems(4) obtain c' where "next_message T c = (Err Waiting, c')"
    using read_waiting by (auto simp: next_message_def)
  with Nil.prems(5) show ?case by (cases fuel) simp_all
next
  case (Cons m ms)
  then obtain n where n: "fuel = Suc n" "length ms < n" by (cases fuel) auto
  obtain r c1 where r: "next_message T c = (r, c1)" by fastforce
  note law = next_message_law [OF r]
  have c1: "r = Ok m" "queue c1 = map Inr ms" "ending c1 = Waiting"
    using law next_message_settled [OF r] Cons.prems(1,4) by (simp_all add: read_result_def settled_def)
  have m: "\<not> server_request m" using Cons.prems(2) by simp
  then obtain x2 u2 where t: "turn_message thread_id turn_id connector m x u = Gather x2 u2"
    "turn_run thread_id turn_id connector ms x2 u2 \<noteq> None"
    using Cons.prems(3) by (auto split: turn_step.splits)
  have "\<exists>c'. collect_loop T n thread_id turn_id connector x2 u2 c1 = Some (Err Waiting, c')"
    by (rule Cons.IH) (use c1 t n Cons.prems(2) in simp_all)
  then show ?case using n(1) r c1(1) t(1) m by (auto simp: server_request_def)
qed

lemma collect_loop_answer:
  assumes "collect_loop T fuel thread_id turn_id connector x u c = Some (Ok y, c')"
  shows "\<exists>ms m x' u'. queue c = map Inr (ms @ [m]) @ queue c' \<and> \<not> server_request m \<and>
           turn_run thread_id turn_id connector ms x u = Some (x', u') \<and>
           turn_message thread_id turn_id connector m x' u' = Return (Ok y)"
  using assms
proof (induction fuel arbitrary: c x u)
  case (Suc fuel)
  then obtain m c1 where r: "next_message T c = (Ok m, c1)"
    by (auto split: prod.splits sum.splits)
  note q1 = next_message_took [OF r]
  show ?case
  proof (cases "has_method m \<and> has_id m")
    case True
    with Suc.prems r obtain c2 where q: "handle_server_request T m c1 = (Ok (), c2)"
      and run: "collect_loop T fuel thread_id turn_id connector x u c2 = Some (Ok y, c')"
      by (auto split: prod.splits sum.splits)
    from Suc.IH [OF run] obtain ms a x' u' where "queue c2 = map Inr (ms @ [a]) @ queue c'" "\<not> server_request a"
      "turn_run thread_id turn_id connector ms x u = Some (x', u')" "turn_message thread_id turn_id connector a x' u' = Return (Ok y)"
      by blast
    with q1 True handle_queue [OF q] show ?thesis
      by (intro exI [of _ "m # ms"] exI [of _ a] exI [of _ x'] exI [of _ u']) (simp add: server_request_def)
  next
    case False
    then have n: "\<not> server_request m" by (simp add: server_request_def)
    show ?thesis
    proof (cases "turn_message thread_id turn_id connector m x u")
      case (Gather x2 u2)
      with False Suc.prems r have run: "collect_loop T fuel thread_id turn_id connector x2 u2 c1 = Some (Ok y, c')" by (auto split: if_splits)
      from Suc.IH [OF run] obtain ms a x' u' where "queue c1 = map Inr (ms @ [a]) @ queue c'" "\<not> server_request a"
        "turn_run thread_id turn_id connector ms x2 u2 = Some (x', u')" "turn_message thread_id turn_id connector a x' u' = Return (Ok y)"
        by blast
      with q1 n Gather show ?thesis
        by (intro exI [of _ "m # ms"] exI [of _ a] exI [of _ x'] exI [of _ u']) simp
    next
      case (Return q)
      with False Suc.prems r have "q = Ok y" "c' = c1" by (auto split: if_splits)
      with q1 n Return show ?thesis by (intro exI [of _ "[] :: json list"] exI [of _ m] exI [of _ x] exI [of _ u]) simp
    qed
  qed
qed simp

end

subsection \<open>Both transports keep the promises\<close>

definition jsonl_inbox :: "(rstr \<Rightarrow> json option) \<Rightarrow> jsonl_state \<Rightarrow> (json, codex_runtime_error) result list" where
  "jsonl_inbox from_json s = map (jsonl_message from_json) (jl_lines s)"

definition jsonl_final :: "jsonl_state \<Rightarrow> stop" where
  "jsonl_final s = (if jl_open s then Waiting else Failed EndOfStream)"

interpretation jsonl: transport_laws "jsonl_transport from_json" "jsonl_inbox from_json" jsonl_final jl_written for from_json
  by unfold_locales
     (auto simp: jsonl_transport_def jsonl_read_def jsonl_write_def jsonl_inbox_def jsonl_final_def read_result_def
        split: list.splits bool.splits)

text \<open>The reads of a socket: pings that can be answered and pongs are passed over.\<close>

definition ws_results :: "(rstr \<Rightarrow> json option) \<Rightarrow> ws_frame list \<Rightarrow> (json, codex_runtime_error) result list" where
  "ws_results from_json fs = List.map_filter (ws_message from_json) fs"

lemma ws_results_simps [simp]:
  "ws_results from_json [] = []"
  "ws_results from_json (f # fs) =
     (case ws_message from_json f of None \<Rightarrow> ws_results from_json fs | Some r \<Rightarrow> r # ws_results from_json fs)"
  by (simp_all add: ws_results_def map_filter_def split: option.splits)

definition ws_inbox :: "(rstr \<Rightarrow> json option) \<Rightarrow> ws_state \<Rightarrow> (json, codex_runtime_error) result list" where
  "ws_inbox from_json s = ws_results from_json (ws_frames s)"

definition ws_final :: "ws_state \<Rightarrow> stop" where
  "ws_final s = (if ws_open s then Waiting else Failed EndOfStream)"

lemma ws_results_length: "length (ws_results from_json fs) \<le> length fs"
  by (induction fs) (auto split: option.splits)

lemma ws_next_results:
  "fst (ws_next from_json still_open fs) =
     read_result (if still_open then Waiting else Failed EndOfStream) (ws_results from_json fs) \<and>
   ws_results from_json (snd (ws_next from_json still_open fs)) = tl (ws_results from_json fs)"
  by (induction fs) (auto simp: read_result_def split: option.splits)

interpretation ws: transport_laws "ws_transport from_json to_json" "ws_inbox from_json" ws_final ws_written
  for from_json to_json
proof unfold_locales
  fix t r t'
  assume "read_message (ws_transport from_json to_json) t = (r, t')"
  then have "r = fst (ws_next from_json (ws_open t) (ws_frames t))"
    "t' = t\<lparr>ws_frames := snd (ws_next from_json (ws_open t) (ws_frames t))\<rparr>"
    by (auto simp: ws_transport_def ws_read_def split: prod.splits)
  then show "r = read_result (ws_final t) (ws_inbox from_json t) \<and> ws_inbox from_json t' = tl (ws_inbox from_json t) \<and>
      ws_final t' = ws_final t \<and> ws_written t' = ws_written t"
    using ws_next_results [of from_json "ws_open t" "ws_frames t"] by (simp add: ws_inbox_def ws_final_def)
qed (auto simp: ws_transport_def ws_write_def ws_inbox_def ws_final_def split: list.splits bool.splits if_splits)

subsection \<open>What a turn says\<close>

text \<open>The text of the deltas, and whether some device was changed without confirmation.\<close>

definition delta_of :: "json \<Rightarrow> rstr" where
  "delta_of m =
     (if \<not> server_request m \<and> method_of m = Some AGENT_MESSAGE_DELTA
      then (case str_at m [''params'', ''delta''] of Some d \<Rightarrow> d | None \<Rightarrow> []) else [])"

definition tool_call :: "json \<Rightarrow> bool" where
  "tool_call m \<longleftrightarrow> \<not> server_request m \<and> method_of m = Some ITEM_COMPLETED \<and>
     str_at m [''params'', ''item'', ''type''] = Some (asc ''mcpToolCall'')"

definition changes_device :: "json \<Rightarrow> bool" where
  "changes_device m \<longleftrightarrow> tool_call m \<and> str_at m [''params'', ''item'', ''tool''] = Some (asc ''set_device_capability'')"

definition confirmed :: "json \<Rightarrow> bool" where
  "confirmed m \<longleftrightarrow> str_at m [''params'', ''item'', ''status''] = Some (asc ''completed'') \<and>
     bool_at m [''params'', ''item'', ''result'', ''structuredContent'', ''verified''] = Some True"

definition permitted :: "rstr \<Rightarrow> rstr \<Rightarrow> rstr option \<Rightarrow> json \<Rightarrow> bool" where
  "permitted thread_id turn_id connector m \<longleftrightarrow>
     require_turn m thread_id turn_id = Ok () \<and> str_at m [''params'', ''item'', ''server''] = connector \<and>
     str_at m [''params'', ''item'', ''tool''] \<in>
       {Some (asc ''list_attention_items''), Some (asc ''get_device_state''), Some (asc ''set_device_capability'')}"

lemma method_names [simp]:
  "AGENT_MESSAGE_DELTA \<noteq> ITEM_COMPLETED" "AGENT_MESSAGE_DELTA \<noteq> TURN_COMPLETED" "ITEM_COMPLETED \<noteq> TURN_COMPLETED"
  "ITEM_COMPLETED \<noteq> AGENT_MESSAGE_DELTA" "TURN_COMPLETED \<noteq> AGENT_MESSAGE_DELTA" "TURN_COMPLETED \<noteq> ITEM_COMPLETED"
  by code_simp+

lemma tool_names [simp]:
  "asc ''set_device_capability'' \<noteq> asc ''list_attention_items''" "asc ''set_device_capability'' \<noteq> asc ''get_device_state''"
  "asc ''list_attention_items'' \<noteq> asc ''set_device_capability''" "asc ''get_device_state'' \<noteq> asc ''set_device_capability''"
  by code_simp+

lemma turn_message_collect:
  assumes "turn_message thread_id turn_id connector m x u = Gather x' u'" and "\<not> server_request m"
  shows "x' = x @ delta_of m \<and> u' = (u \<or> changes_device m \<and> \<not> confirmed m) \<and>
         (tool_call m \<longrightarrow> permitted thread_id turn_id connector m)"
  using assms
  by (auto simp: turn_message_def observe_homey_tool_def try_bind_def delta_of_def tool_call_def changes_device_def
      confirmed_def permitted_def Let_def split: option.splits if_splits sum.splits)

lemma turn_run_collects:
  "turn_run thread_id turn_id connector ms x u = Some (x', u') \<Longrightarrow>
     x' = x @ concat (map delta_of ms) \<and> (u' \<longleftrightarrow> u \<or> (\<exists>m \<in> set ms. changes_device m \<and> \<not> confirmed m)) \<and>
     (\<forall>m \<in> set ms. tool_call m \<longrightarrow> permitted thread_id turn_id connector m)"
proof (induction ms arbitrary: x u)
  case (Cons m ms)
  show ?case
  proof (cases "server_request m")
    case True
    then have "delta_of m = []" "\<not> tool_call m" by (simp_all add: delta_of_def tool_call_def)
    with Cons True show ?thesis by (auto simp: changes_device_def)
  next
    case False
    with Cons.prems obtain x2 u2 where *: "turn_message thread_id turn_id connector m x u = Gather x2 u2"
      "turn_run thread_id turn_id connector ms x2 u2 = Some (x', u')"
      by (auto split: turn_step.splits)
    from Cons.IH [OF *(2)] turn_message_collect [OF *(1) False] show ?thesis by auto
  qed
qed simp

lemma turn_message_ok:
  "turn_message thread_id turn_id connector m x u = Return (Ok y) \<Longrightarrow>
     method_of m = Some TURN_COMPLETED \<and> require_completed_turn m thread_id turn_id = Ok () \<and>
     y = (if u then UNCONFIRMED else x) \<and> (u \<or> x \<noteq> [])"
  by (auto simp: turn_message_def split: option.splits if_splits sum.splits)

end
