(* ===== verification/Codex_Runtime.thy ===== *)
theory Codex_Runtime
  imports Json_Rpc House_Store
begin

section \<open>The Codex runtime of a house\<close>

text \<open>
  Model of \<^verbatim>\<open>crates/codex-runtime/src/lib.rs\<close> and \<^verbatim>\<open>protocol.rs\<close>: the configuration, the two
  conversations with the app-server (start a thread, run a turn) over any transport, and
  what the house runtime does with a fresh socket. Paths are strings, as the configuration
  gives them, of a Unix system.
\<close>

subsection \<open>Parameters of the requests\<close>

definition INITIALIZE :: rstr where "INITIALIZE = asc ''initialize''"
definition INITIALIZED :: rstr where "INITIALIZED = asc ''initialized''"
definition THREAD_START :: rstr where "THREAD_START = asc ''thread/start''"
definition THREAD_RESUME :: rstr where "THREAD_RESUME = asc ''thread/resume''"
definition TURN_START :: rstr where "TURN_START = asc ''turn/start''"

definition initialize_params :: json where
  "initialize_params = obj
     [(''clientInfo'', obj [(''name'', JStr (asc ''alice-household-bridge'')), (''version'', JStr (asc ''0.1.0''))]),
      (''capabilities'', obj [(''experimentalApi'', JBool True)])]"

definition isolated_house_config :: "rstr option \<Rightarrow> json" where
  "isolated_house_config homey_connector = obj (
     [(''features'', obj [(''shell_tool'', JBool False), (''unified_exec'', JBool False),
                         (''skill_mcp_dependency_install'', JBool False)]),
      (''tools'', obj [(''web_search'', JBool False)]),
      (''apps'', obj [(''_default'', obj [(''enabled'', JBool False)])])] @
     (case homey_connector of
        None \<Rightarrow> []
      | Some connector \<Rightarrow> [(''mcp_servers'', JObj [(connector, obj [(''enabled'', JBool True)])])]))"

definition thread_start_params :: "rstr \<Rightarrow> rstr \<Rightarrow> rstr \<Rightarrow> rstr option \<Rightarrow> json" where
  "thread_start_params cwd permissions instructions homey_connector = obj
     [(''cwd'', JStr cwd), (''permissions'', JStr permissions), (''developerInstructions'', JStr instructions),
      (''approvalPolicy'', JStr (asc ''never'')), (''ephemeral'', JBool False),
      (''config'', isolated_house_config homey_connector)]"

definition thread_resume_params :: "rstr \<Rightarrow> rstr \<Rightarrow> rstr option \<Rightarrow> json" where
  "thread_resume_params thread_id permissions homey_connector = obj
     [(''threadId'', JStr thread_id), (''permissions'', JStr permissions),
      (''approvalPolicy'', JStr (asc ''never'')), (''config'', isolated_house_config homey_connector)]"

definition turn_start_params :: "rstr \<Rightarrow> rstr \<Rightarrow> json" where
  "turn_start_params thread_id utterance = obj
     [(''threadId'', JStr thread_id),
      (''input'', JArr [obj [(''type'', JStr (asc ''text'')), (''text'', JStr utterance)]])]"

subsection \<open>Configuration\<close>

record codex_runtime_config =
  socket_path :: rstr
  cwd_root :: rstr
  permission_profile_prefix :: rstr
  codex_homey_enabled :: bool

definition is_absolute :: "rstr \<Rightarrow> bool" where
  "is_absolute p \<longleftrightarrow> starts_with p (asc ''/'')"

definition codex_runtime_new :: "codex_runtime_config \<Rightarrow> (codex_runtime_config, codex_runtime_error) result" where
  "codex_runtime_new cfg =
     (if \<not> is_absolute (socket_path cfg) then Err (InvalidConfig (asc ''socket path must be absolute''))
      else if \<not> is_absolute (cwd_root cfg) then Err (InvalidConfig (asc ''house cwd root must be absolute''))
      else if permission_profile_prefix cfg = [] \<or>
              \<not> list_all (\<lambda>c. is_ascii_alphanumeric c \<or> c = 45) (permission_profile_prefix cfg)
      then Err (InvalidConfig (asc ''permission profile prefix is invalid''))
      else Ok cfg)"

definition validate_homey_connector :: "rstr \<Rightarrow> (unit, codex_runtime_error) result" where
  "validate_homey_connector connector =
     (if \<not> starts_with connector (asc ''homey-'') \<or>
         \<not> list_all (\<lambda>c. is_ascii_alphanumeric c \<or> c = 45 \<or> c = 95) connector
      then Err (InvalidConfig (asc ''Homey connector id is invalid'')) else Ok ())"

definition homey_connector :: "codex_runtime_config \<Rightarrow> house_context \<Rightarrow> (rstr option, codex_runtime_error) result" where
  "homey_connector cfg house =
     (if \<not> codex_homey_enabled cfg then Ok None
      else try_bind (validate_homey_connector (homey_connector_id house)) (\<lambda>_. Ok (Some (homey_connector_id house))))"

definition required_string :: "json \<Rightarrow> string list \<Rightarrow> string \<Rightarrow> (rstr, codex_runtime_error) result" where
  "required_string v tokens message = ok_or (Protocol (asc message)) (str_at v tokens)"

definition validate_permission_result :: "json \<Rightarrow> rstr option \<Rightarrow> (unit, codex_runtime_error) result" where
  "validate_permission_result v expected_profile =
     (case str_at v [''activePermissionProfile'', ''id''] of
        None \<Rightarrow> Err (Protocol (asc ''app-server did not activate a permission profile''))
      | Some profile \<Rightarrow>
          (if (case expected_profile of Some expected \<Rightarrow> expected \<noteq> profile | None \<Rightarrow> False)
           then Err (Protocol (asc ''app-server activated a different permission profile''))
           else if str_at v [''sandbox'', ''type''] \<noteq> Some (asc ''readOnly'') \<or>
                   (case bool_at v [''sandbox'', ''networkAccess''] of Some b \<Rightarrow> b | None \<Rightarrow> False)
           then Err (Protocol (asc ''permission profile is not read-only and network-isolated''))
           else Ok ()))"

definition permissions_of :: "codex_runtime_config \<Rightarrow> house_context \<Rightarrow> rstr" where
  "permissions_of cfg house = permission_profile_prefix cfg @ show_int (hc_id house)"

text \<open>\<open>PathBuf::join\<close> with a component that is no path of its own.\<close>

definition path_join :: "rstr \<Rightarrow> rstr \<Rightarrow> rstr" where
  "path_join root name = (if root = [] \<or> last root = 47 then root @ name else root @ [47] @ name)"

subsection \<open>The two conversations\<close>

text \<open>\<open>?\<close> after a loop: out of fuel, an error, or on with the result.\<close>

definition io_then :: "('a, 's) io option \<Rightarrow> ('a \<Rightarrow> 's \<Rightarrow> ('b, 's) io option) \<Rightarrow> ('b, 's) io option" where
  "io_then p f =
     (case p of None \<Rightarrow> None | Some (r, s) \<Rightarrow> (case r of Inl e \<Rightarrow> Some (Err e, s) | Inr x \<Rightarrow> f x s))"

definition try_io :: "('a, codex_runtime_error) result \<Rightarrow> 's \<Rightarrow> ('a \<Rightarrow> ('b, 's) io option) \<Rightarrow> ('b, 's) io option" where
  "try_io r s f = (case r of Inl e \<Rightarrow> Some (Err (Failed e), s) | Inr x \<Rightarrow> f x)"

definition initialize :: "'t json_transport \<Rightarrow> nat \<Rightarrow> 't json_rpc_client \<Rightarrow> (unit, 't json_rpc_client) io option" where
  "initialize T fuel c =
     io_then (request T fuel INITIALIZE initialize_params c) (\<lambda>_ c. Some (notify T INITIALIZED None c))"

definition start_thread_with :: "'t json_transport \<Rightarrow> nat \<Rightarrow> codex_runtime_config \<Rightarrow> house_context \<Rightarrow> rstr \<Rightarrow>
    't json_rpc_client \<Rightarrow> (rstr, 't json_rpc_client) io option" where
  "start_thread_with T fuel cfg house instructions c =
     (if hc_id house \<le> 0 then Some (Err (Failed (InvalidConfig (asc ''house id must be positive''))), c)
      else try_io (homey_connector cfg house) c (\<lambda>connector.
        io_then (initialize T fuel c) (\<lambda>_ c.
        io_then (request T fuel THREAD_START
                  (thread_start_params (path_join (cwd_root cfg) (show_int (hc_id house))) (permissions_of cfg house)
                     instructions connector) c) (\<lambda>result c.
        try_io (validate_permission_result result (Some (permissions_of cfg house))) c (\<lambda>_.
        try_io (required_string result [''thread'', ''id''] ''thread/start response has no thread id'') c (\<lambda>thread_id.
        Some (Ok thread_id, c)))))))"

definition turn_with :: "'t json_transport \<Rightarrow> nat \<Rightarrow> codex_runtime_config \<Rightarrow> house_context \<Rightarrow> rstr \<Rightarrow> rstr \<Rightarrow>
    't json_rpc_client \<Rightarrow> (rstr, 't json_rpc_client) io option" where
  "turn_with T fuel cfg house thread_id utterance c =
     (if thread_id = [] then Some (Err (Failed (Protocol (asc ''thread id is empty''))), c)
      else if hc_id house \<le> 0 then Some (Err (Failed (InvalidConfig (asc ''house id must be positive''))), c)
      else try_io (homey_connector cfg house) c (\<lambda>connector.
        io_then (initialize T fuel c) (\<lambda>_ c.
        io_then (request T fuel THREAD_RESUME (thread_resume_params thread_id (permissions_of cfg house) connector) c)
          (\<lambda>resumed c.
        try_io (validate_permission_result resumed (Some (permissions_of cfg house))) c (\<lambda>_.
        try_io (required_string resumed [''thread'', ''id''] ''thread/resume response has no thread id'') c (\<lambda>resumed_id.
        if resumed_id \<noteq> thread_id
        then Some (Err (Failed (Protocol (asc ''thread/resume returned a different thread''))), c)
        else
        io_then (request T fuel TURN_START (turn_start_params thread_id utterance) c) (\<lambda>started c.
        try_io (required_string started [''turn'', ''id''] ''turn/start response has no turn id'') c (\<lambda>turn_id.
        collect_turn T fuel thread_id turn_id connector c))))))))"

text \<open>The public variants over a JSONL stream.\<close>

definition start_thread_on :: "(rstr \<Rightarrow> json option) \<Rightarrow> nat \<Rightarrow> codex_runtime_config \<Rightarrow> jsonl_state \<Rightarrow> house_context \<Rightarrow> rstr \<Rightarrow>
    (rstr, jsonl_state json_rpc_client) io option" where
  "start_thread_on from_json fuel cfg stream house instructions =
     start_thread_with (jsonl_transport from_json) fuel cfg house instructions (rpc_client_new stream)"

definition turn_on :: "(rstr \<Rightarrow> json option) \<Rightarrow> nat \<Rightarrow> codex_runtime_config \<Rightarrow> jsonl_state \<Rightarrow> house_context \<Rightarrow> rstr \<Rightarrow> rstr \<Rightarrow>
    (rstr, jsonl_state json_rpc_client) io option" where
  "turn_on from_json fuel cfg stream house thread_id utterance =
     turn_with (jsonl_transport from_json) fuel cfg house thread_id utterance (rpc_client_new stream)"

subsection \<open>The runtime of a house\<close>

fun show_codex_error :: "codex_runtime_error \<Rightarrow> rstr" where
  "show_codex_error (InvalidConfig m) = asc ''invalid Codex runtime configuration: '' @ m"
| "show_codex_error Transport = asc ''Codex app-server transport failed''"
| "show_codex_error EndOfStream = asc ''Codex app-server closed the connection''"
| "show_codex_error InvalidMessage = asc ''Codex app-server sent invalid JSONL''"
| "show_codex_error MessageTooLarge = asc ''Codex app-server line exceeds the safety limit''"
| "show_codex_error (Server code) = asc ''Codex app-server returned JSON-RPC error '' @ show_int code"
| "show_codex_error (Protocol m) = asc ''Codex app-server protocol violation: '' @ m"
| "show_codex_error ForbiddenRequest = asc ''Codex app-server requested a forbidden operation''"

datatype runtime_error = RuntimeError rstr

definition map_house_error :: "codex_runtime_error \<Rightarrow> runtime_error" where
  "map_house_error e = RuntimeError (show_codex_error e)"

text \<open>
  What connecting to the socket gives: nothing, a stream whose handshake fails or is never
  answered, a socket. \<open>None\<close> is a call that does not return: neither the handshake nor a read
  has a timeout.
\<close>

datatype connection = Unavailable | NoHandshake | SilentHandshake | Connected ws_state

definition with_connection :: "connection \<Rightarrow> (nat \<Rightarrow> ws_state json_rpc_client \<Rightarrow> (rstr, ws_state json_rpc_client) io option) \<Rightarrow>
    (rstr, runtime_error) result option" where
  "with_connection conn run =
     (case conn of
        Unavailable \<Rightarrow> Some (Err (RuntimeError (asc ''Codex app-server is unavailable'')))
      | NoHandshake \<Rightarrow> Some (Err (map_house_error Transport))
      | SilentHandshake \<Rightarrow> None
      | Connected s \<Rightarrow>
          (case run (Suc (length (ws_frames s))) (rpc_client_new s) of
             None \<Rightarrow> None
           | Some (Inl Waiting, _) \<Rightarrow> None
           | Some (Inl (Failed e), _) \<Rightarrow> Some (Err (map_house_error e))
           | Some (Inr x, _) \<Rightarrow> Some (Ok x)))"

definition start_thread :: "(rstr \<Rightarrow> json option) \<Rightarrow> (json \<Rightarrow> rstr) \<Rightarrow> codex_runtime_config \<Rightarrow> connection \<Rightarrow> house_context \<Rightarrow> rstr \<Rightarrow>
    (rstr, runtime_error) result option" where
  "start_thread from_json to_json cfg conn house instructions =
     with_connection conn (\<lambda>fuel. start_thread_with (ws_transport from_json to_json) fuel cfg house instructions)"

definition turn :: "(rstr \<Rightarrow> json option) \<Rightarrow> (json \<Rightarrow> rstr) \<Rightarrow> codex_runtime_config \<Rightarrow> connection \<Rightarrow> house_context \<Rightarrow> rstr \<Rightarrow> rstr \<Rightarrow>
    (rstr, runtime_error) result option" where
  "turn from_json to_json cfg conn house thread_id utterance =
     with_connection conn (\<lambda>fuel. turn_with (ws_transport from_json to_json) fuel cfg house thread_id utterance)"

subsection \<open>The conversations over any transport\<close>

lemma io_then_Some:
  "io_then p f = Some (r, s') \<longleftrightarrow>
     (\<exists>e. p = Some (Err e, s') \<and> r = Err e) \<or> (\<exists>x s. p = Some (Ok x, s) \<and> f x s = Some (r, s'))"
  by (cases p) (auto simp: io_then_def split: sum.splits)

lemma io_then_ends:
  "p \<noteq> None \<Longrightarrow> (\<And>x s. p = Some (Ok x, s) \<Longrightarrow> f x s \<noteq> None) \<Longrightarrow> io_then p f \<noteq> None"
  by (auto simp: io_then_def split: sum.splits)

lemma try_io_Some:
  "try_io q s f = Some (r, s') \<longleftrightarrow> (\<exists>e. q = Err e \<and> r = Err (Failed e) \<and> s' = s) \<or> (\<exists>x. q = Ok x \<and> f x = Some (r, s'))"
  by (cases q) (auto simp: try_io_def)

lemma try_io_Ok [simp]: "try_io (Inr x) s f = f x"
  by (simp add: try_io_def)

lemma try_io_ends: "(\<And>x. q = Ok x \<Longrightarrow> f x \<noteq> None) \<Longrightarrow> try_io q s f \<noteq> None"
  by (cases q) (auto simp: try_io_def)

definition own_or_refusal :: "json set \<Rightarrow> json \<Rightarrow> bool" where
  "own_or_refusal own m \<longleftrightarrow> refusal m \<or> m \<in> own"

definition requests :: "rstr \<Rightarrow> json \<Rightarrow> json set" where
  "requests meth params = {rpc_request i meth params |i. True}"

context transport_laws
begin

lemma wrote_own: "wrote (own_or_refusal A) c c' \<Longrightarrow> A \<subseteq> B \<Longrightarrow> wrote (own_or_refusal B) c c'"
  by (erule wrote_mono) (auto simp: own_or_refusal_def)

lemma request_law:
  assumes "request T fuel meth params c = Some (r, c')"
  shows "wrote (own_or_refusal (requests meth params)) c c' \<and> length (queue c') \<le> length (queue c)"
proof -
  let ?P = "own_or_refusal (requests meth params)"
  let ?c = "c\<lparr>rc_next_id := rc_next_id c + 1\<rparr>"
  obtain q c1 where q: "rpc_write T (rpc_request (rc_next_id c) meth params) ?c = (q, c1)" by fastforce
  note law = rpc_write_law [OF q]
  have "?P (rpc_request (rc_next_id c) meth params)" by (auto simp: own_or_refusal_def requests_def)
  then have w: "wrote ?P c c1" using rpc_write_wrote [OF q] by (simp add: wrote_def)
  have len: "length (queue c1) = length (queue c)" using law(1,3) by (simp add: queue_def)
  from assms q consider "c' = c1" | "request_loop T fuel (rc_next_id c) c1 = Some (r, c')"
    by (auto simp: request_def Let_def split: sum.splits)
  then show ?thesis
  proof cases
    case 1
    with w len show ?thesis by simp
  next
    case 2
    note loop = request_loop_law [OF 2]
    have "wrote ?P c1 c'" using loop by (auto simp: own_or_refusal_def intro: wrote_mono)
    with w have "wrote ?P c c'" by (rule wrote_trans)
    with loop len show ?thesis by (simp add: queue_def)
  qed
qed

lemma request_ends:
  assumes "length (queue c) < fuel"
  shows "request T fuel meth params c \<noteq> None"
proof -
  obtain q c1 where q: "rpc_write T (rpc_request (rc_next_id c) meth params) (c\<lparr>rc_next_id := rc_next_id c + 1\<rparr>) = (q, c1)"
    by fastforce
  have "length (box c1) < fuel" using rpc_write_law(1) [OF q] assms by (simp add: queue_def)
  with request_loop_ends q show ?thesis by (auto simp: request_def Let_def split: sum.splits)
qed

text \<open>The answer to a request was read.\<close>

lemma request_answer:
  assumes "request T fuel meth params c = Some (Ok v, c')"
  shows "\<exists>m. Inr m \<in> set (box c) \<and> response_of (rc_next_id c) m = Ok v"
proof -
  obtain c1 where q: "rpc_write T (rpc_request (rc_next_id c) meth params) (c\<lparr>rc_next_id := rc_next_id c + 1\<rparr>) = (Ok (), c1)"
    and run: "request_loop T fuel (rc_next_id c) c1 = Some (Ok v, c')"
    using assms by (auto simp: request_def Let_def split: prod.splits sum.splits)
  from request_loop_answer [OF run] obtain ms m where "took (ms @ [m]) c1 c'" "response_of (rc_next_id c) m = Ok v" by blast
  moreover have "box c1 = box c" using rpc_write_law(1) [OF q] by simp
  ultimately show ?thesis by (auto simp: took_def)
qed

lemma initialize_law:
  assumes "initialize T fuel c = Some (r, c')"
  shows "wrote (own_or_refusal (insert (notification INITIALIZED None) (requests INITIALIZE initialize_params))) c c' \<and>
         length (queue c') \<le> length (queue c)"
proof -
  let ?P = "own_or_refusal (insert (notification INITIALIZED None) (requests INITIALIZE initialize_params))"
  from assms consider e where "request T fuel INITIALIZE initialize_params c = Some (Err e, c')"
    | v c1 where "request T fuel INITIALIZE initialize_params c = Some (Ok v, c1)"
        "rpc_write T (notification INITIALIZED None) c1 = (r, c')"
    by (auto simp: initialize_def io_then_Some notify_def)
  then show ?thesis
  proof cases
    case (1 e)
    with request_law show ?thesis by (blast intro: wrote_own)
  next
    case (2 v c1)
    note law = request_law [OF 2(1)]
    then have "wrote ?P c c1" by (blast intro: wrote_own)
    moreover have "wrote ?P c1 c'" using rpc_write_wrote [OF 2(2)] by (simp add: own_or_refusal_def)
    ultimately have "wrote ?P c c'" by (rule wrote_trans)
    moreover have "length (queue c') = length (queue c1)" using rpc_write_law(1,3) [OF 2(2)] by (simp add: queue_def)
    ultimately show ?thesis using law by simp
  qed
qed

lemma init_box:
  assumes "initialize T fuel c = Some (Ok u, c')"
  shows "set (box c') \<subseteq> set (box c)"
proof -
  obtain v c1 where r: "request T fuel INITIALIZE initialize_params c = Some (Ok v, c1)"
    and n: "rpc_write T (notification INITIALIZED None) c1 = (Ok u, c')"
    using assms by (auto simp: initialize_def io_then_Some notify_def)
  obtain c0 where q: "rpc_write T (rpc_request (rc_next_id c) INITIALIZE initialize_params) (c\<lparr>rc_next_id := rc_next_id c + 1\<rparr>) = (Ok (), c0)"
    and run: "request_loop T fuel (rc_next_id c) c0 = Some (Ok v, c1)"
    using r by (auto simp: request_def Let_def split: prod.splits sum.splits)
  from request_loop_answer [OF run] rpc_write_law(1) [OF q] rpc_write_law(1) [OF n] show ?thesis
    by (auto simp: took_def)
qed

lemma io_then_settled:
  assumes "io_then p f = Some (r, c')" and "\<And>q c1. p = Some (q, c1) \<Longrightarrow> settled q c c1"
    and "\<And>x c1. f x c1 = Some (r, c') \<Longrightarrow> settled r c1 c'"
  shows "settled r c c'"
  using assms(1) unfolding io_then_Some
proof (elim disjE exE conjE)
  fix e assume p: "p = Some (Err e, c')" and r: "r = Err e"
  from assms(2) [OF p] r show ?thesis by (simp add: settled_def)
next
  fix x c1 assume p: "p = Some (Ok x, c1)" and f: "f x c1 = Some (r, c')"
  from assms(2) [OF p] assms(3) [OF f] show ?thesis by (simp add: settled_def)
qed

lemma try_io_settled:
  assumes "try_io q c f = Some (r, c')" and "\<And>x. f x = Some (r, c') \<Longrightarrow> settled r c c'"
  shows "settled r c c'"
  using assms unfolding try_io_Some by (auto simp: settled_def)

lemma request_settled:
  assumes "request T fuel meth params c = Some (r, c')"
  shows "settled r c c'"
proof -
  obtain q c1 where q: "rpc_write T (rpc_request (rc_next_id c) meth params) (c\<lparr>rc_next_id := rc_next_id c + 1\<rparr>) = (q, c1)"
    by fastforce
  have e: "ending c1 = ending c" "q \<noteq> Err Waiting" using write_settled [OF q] by (simp_all add: settled_def)
  show ?thesis
  proof (cases q)
    case (Inl er)
    with assms q have "r = Err er" "c' = c1" by (simp_all add: request_def Let_def)
    with e Inl show ?thesis by (simp add: settled_def)
  next
    case (Inr u)
    with assms q have "request_loop T fuel (rc_next_id c) c1 = Some (r, c')" by (simp add: request_def Let_def)
    from settled_trans [OF e(1) request_loop_settled [OF this]] show ?thesis .
  qed
qed

lemma initialize_settled:
  assumes "initialize T fuel c = Some (r, c')"
  shows "settled r c c'"
  by (rule io_then_settled [OF assms [unfolded initialize_def]])
     (auto simp: notify_def dest: request_settled write_settled)

text \<open>A turn over a silent connection waits for ever, once its first message was written.\<close>

lemma initialize_writes:
  assumes "initialize T fuel c = Some (Ok u, c')"
  shows "sent c' \<noteq> sent c"
proof -
  obtain v c1 where r: "request T fuel INITIALIZE initialize_params c = Some (Ok v, c1)"
    and n: "rpc_write T (notification INITIALIZED None) c1 = (Ok u, c')"
    using assms by (auto simp: initialize_def io_then_Some notify_def)
  obtain ms where "sent c1 = sent c @ ms" using request_law [OF r] by (auto simp: wrote_def)
  with rpc_write_law(2) [OF n] show ?thesis by auto
qed

lemma initialize_waits:
  assumes "box c = map Inr ms" and "\<forall>m \<in> set ms. has_method m \<and> \<not> has_id m" and "ending c = Waiting" and "length ms < fuel"
    and "initialize T fuel c = Some (r, c')" and "sent c' \<noteq> sent c"
  shows "r = Err Waiting"
proof -
  obtain q c1 where q: "rpc_write T (rpc_request (rc_next_id c) INITIALIZE initialize_params) (c\<lparr>rc_next_id := rc_next_id c + 1\<rparr>) = (q, c1)"
    by fastforce
  note law = rpc_write_law [OF q]
  show ?thesis
  proof (cases q)
    case (Inl e)
    with q assms(5) have "c' = c1" by (simp add: initialize_def request_def Let_def io_then_def)
    with law(2) Inl assms(6) show ?thesis by simp
  next
    case (Inr u)
    obtain c2 where "request_loop T fuel (rc_next_id c) c1 = Some (Err Waiting, c2)"
      using request_loop_waits [of c1 ms fuel] law assms(1-4) by auto
    with q Inr assms(5) show ?thesis by (simp add: initialize_def request_def Let_def io_then_def)
  qed
qed

lemma initialize_ends: "length (queue c) < fuel \<Longrightarrow> initialize T fuel c \<noteq> None"
  unfolding initialize_def by (intro io_then_ends request_ends) simp_all

end

subsection \<open>A turn\<close>

text \<open>The connector of a house, and the messages of a turn before it is started.\<close>

definition connector_of :: "codex_runtime_config \<Rightarrow> house_context \<Rightarrow> rstr option" where
  "connector_of cfg house = (if codex_homey_enabled cfg then Some (homey_connector_id house) else None)"

lemma homey_connector_is: "homey_connector cfg house = Ok connector \<Longrightarrow> connector = connector_of cfg house"
  by (auto simp: homey_connector_def connector_of_def split: if_splits)

definition resume_messages :: "codex_runtime_config \<Rightarrow> house_context \<Rightarrow> rstr \<Rightarrow> json set" where
  "resume_messages cfg house thread_id =
     insert (notification INITIALIZED None) (requests INITIALIZE initialize_params) \<union>
     requests THREAD_RESUME (thread_resume_params thread_id (permissions_of cfg house) (connector_of cfg house))"


text \<open>What the app-server said of the resumed thread.\<close>

definition isolated :: "codex_runtime_config \<Rightarrow> house_context \<Rightarrow> rstr \<Rightarrow> json \<Rightarrow> bool" where
  "isolated cfg house thread_id v \<longleftrightarrow>
     str_at v [''thread'', ''id''] = Some thread_id \<and>
     str_at v [''activePermissionProfile'', ''id''] = Some (permissions_of cfg house) \<and>
     str_at v [''sandbox'', ''type''] = Some (asc ''readOnly'') \<and>
     bool_at v [''sandbox'', ''networkAccess''] \<noteq> Some True"

lemma validate_permission_result_Ok:
  "validate_permission_result v (Some p) = Ok () \<longleftrightarrow>
     str_at v [''activePermissionProfile'', ''id''] = Some p \<and> str_at v [''sandbox'', ''type''] = Some (asc ''readOnly'') \<and>
     bool_at v [''sandbox'', ''networkAccess''] \<noteq> Some True"
  by (auto simp: validate_permission_result_def split: option.splits if_splits)

context transport_laws
begin

definition turn_rest :: "nat \<Rightarrow> rstr \<Rightarrow> rstr \<Rightarrow> rstr option \<Rightarrow> 't json_rpc_client \<Rightarrow> (rstr, 't json_rpc_client) io option" where
  "turn_rest fuel thread_id utterance connector c =
     io_then (request T fuel TURN_START (turn_start_params thread_id utterance) c) (\<lambda>started c.
       try_io (required_string started [''turn'', ''id''] ''turn/start response has no turn id'') c (\<lambda>turn_id.
         collect_turn T fuel thread_id turn_id connector c))"

lemma turn_rest_law:
  assumes "turn_rest fuel thread_id utterance connector c = Some (r, c')"
  shows "wrote (own_or_refusal (requests TURN_START (turn_start_params thread_id utterance))) c c'"
proof -
  let ?P = "own_or_refusal (requests TURN_START (turn_start_params thread_id utterance))"
  from assms consider v where "request T fuel TURN_START (turn_start_params thread_id utterance) c = Some (v, c')"
    | v c1 turn_id where "request T fuel TURN_START (turn_start_params thread_id utterance) c = Some (Ok v, c1)"
        "collect_turn T fuel thread_id turn_id connector c1 = Some (r, c')"
    by (auto simp: turn_rest_def io_then_Some try_io_Some)
  then show ?thesis
  proof cases
    case 1
    with request_law show ?thesis by blast
  next
    case (2 v c1 turn_id)
    have "wrote refusal c1 c'" using 2(2) collect_loop_wrote by (simp add: collect_turn_def)
    then have "wrote ?P c1 c'" by (rule wrote_mono) (simp add: own_or_refusal_def)
    with request_law [OF 2(1)] show ?thesis using wrote_trans by blast
  qed
qed

lemma turn_rest_ends: "length (queue c) < fuel \<Longrightarrow> turn_rest fuel thread_id utterance connector c \<noteq> None"
  unfolding turn_rest_def collect_turn_def
  by (intro io_then_ends try_io_ends request_ends collect_loop_ends) (auto dest: request_law)

definition turn_resume :: "nat \<Rightarrow> codex_runtime_config \<Rightarrow> house_context \<Rightarrow> rstr \<Rightarrow> rstr \<Rightarrow> 't json_rpc_client \<Rightarrow>
    (rstr, 't json_rpc_client) io option" where
  "turn_resume fuel cfg house thread_id utterance c =
     io_then (request T fuel THREAD_RESUME (thread_resume_params thread_id (permissions_of cfg house) (connector_of cfg house)) c)
       (\<lambda>resumed c.
       try_io (validate_permission_result resumed (Some (permissions_of cfg house))) c (\<lambda>_.
       try_io (required_string resumed [''thread'', ''id''] ''thread/resume response has no thread id'') c (\<lambda>resumed_id.
       if resumed_id \<noteq> thread_id
       then Some (Err (Failed (Protocol (asc ''thread/resume returned a different thread''))), c)
       else turn_rest fuel thread_id utterance (connector_of cfg house) c)))"

lemma turn_with_started:
  assumes "thread_id \<noteq> []" and "0 < hc_id house" and "homey_connector cfg house = Ok (connector_of cfg house)"
  shows "turn_with T fuel cfg house thread_id utterance c =
           io_then (initialize T fuel c) (\<lambda>_. turn_resume fuel cfg house thread_id utterance)"
  unfolding turn_with_def turn_resume_def turn_rest_def using assms by simp

text \<open>A turn stops before it is started, or is started in an isolated thread.\<close>

lemma turn_with_cases:
  assumes "turn_with T fuel cfg house thread_id utterance c = Some (r, c')"
  obtains (stopped) e where "r = Err e" and "wrote (own_or_refusal (resume_messages cfg house thread_id)) c c'"
    | (started) m v i c2 where "Inr m \<in> set (box c)" and "response_of i m = Ok v" and "isolated cfg house thread_id v"
        and "thread_id \<noteq> []" and "0 < hc_id house" and "homey_connector cfg house = Ok (connector_of cfg house)"
        and "wrote (own_or_refusal (resume_messages cfg house thread_id)) c c2" and "length (queue c2) \<le> length (queue c)"
        and "turn_rest fuel thread_id utterance (connector_of cfg house) c2 = Some (r, c')"
proof -
  let ?P = "own_or_refusal (resume_messages cfg house thread_id)"
  let ?resume = "thread_resume_params thread_id (permissions_of cfg house) (connector_of cfg house)"
  show thesis
  proof (cases "thread_id = [] \<or> hc_id house \<le> 0 \<or> (\<exists>e. homey_connector cfg house = Err e)")
    case True
    with assms have "c' = c" "\<exists>e. r = Err e" by (auto simp: turn_with_def try_io_def split: if_splits)
    with stopped show thesis by auto
  next
    case False
    then have ok: "thread_id \<noteq> []" "0 < hc_id house" by simp_all
    from False have "\<exists>conn. homey_connector cfg house = Ok conn" by (cases "homey_connector cfg house") auto
    then have conn: "homey_connector cfg house = Ok (connector_of cfg house)" using homey_connector_is by fastforce
    from assms ok conn
    consider e where "initialize T fuel c = Some (Err e, c')" "r = Err e"
      | c1 u where "initialize T fuel c = Some (Ok u, c1)"
          "turn_resume fuel cfg house thread_id utterance c1 = Some (r, c')"
      by (auto simp: turn_with_started io_then_Some [where p = "initialize T fuel c"])
    then show thesis
    proof cases
      case (1 e)
      then have "wrote ?P c c'" using initialize_law wrote_own unfolding resume_messages_def by blast
      with stopped 1 show thesis by blast
    next
      case (2 c1 u)
      note init = initialize_law [OF 2(1)]
      then have w1: "wrote ?P c c1" using wrote_own unfolding resume_messages_def by blast
      have w2: "wrote ?P c c2" if "request T fuel THREAD_RESUME ?resume c1 = Some (q, c2)" for q c2
        using w1 request_law [OF that] wrote_own wrote_trans unfolding resume_messages_def by blast
      from 2(2) consider e where "request T fuel THREAD_RESUME ?resume c1 = Some (Err e, c')" "r = Err e"
        | v e where "request T fuel THREAD_RESUME ?resume c1 = Some (Ok v, c')" "r = Err e"
        | v c2 where "request T fuel THREAD_RESUME ?resume c1 = Some (Ok v, c2)"
            "validate_permission_result v (Some (permissions_of cfg house)) = Ok ()"
            "str_at v [''thread'', ''id''] = Some thread_id"
            "turn_rest fuel thread_id utterance (connector_of cfg house) c2 = Some (r, c')"
        by (auto simp: turn_resume_def io_then_Some try_io_Some required_string_def ok_or_def split: option.splits if_splits)
      then show thesis
      proof cases
        case (1 e)
        with w2 stopped show thesis by blast
      next
        case (2 v e)
        with w2 stopped show thesis by blast
      next
        case (3 v c2)
        obtain m where m: "Inr m \<in> set (box c1)" "response_of (rc_next_id c1) m = Ok v"
          using request_answer [OF 3(1)] by blast
        have "Inr m \<in> set (box c)" using init_box [OF 2(1)] m(1) by blast
        moreover have "isolated cfg house thread_id v"
          using 3(2,3) by (simp add: isolated_def validate_permission_result_Ok)
        moreover have "length (queue c2) \<le> length (queue c)" using request_law [OF 3(1)] init by simp
        ultimately show thesis using started m(2) ok conn w2 [OF 3(1)] 3(4) by blast
      qed
    qed
  qed
qed

lemma turn_rest_settled:
  assumes "turn_rest fuel thread_id utterance connector c = Some (r, c')"
  shows "settled r c c'"
  using assms unfolding turn_rest_def collect_turn_def
  by (elim io_then_settled try_io_settled request_settled collect_loop_settled)

lemma turn_resume_settled:
  assumes "turn_resume fuel cfg house thread_id utterance c = Some (r, c')"
  shows "settled r c c'"
proof (rule io_then_settled [OF assms [unfolded turn_resume_def]])
  fix resumed c1
  assume "try_io (validate_permission_result resumed (Some (permissions_of cfg house))) c1 (\<lambda>_.
       try_io (required_string resumed [''thread'', ''id''] ''thread/resume response has no thread id'') c1 (\<lambda>resumed_id.
       if resumed_id \<noteq> thread_id
       then Some (Err (Failed (Protocol (asc ''thread/resume returned a different thread''))), c1)
       else turn_rest fuel thread_id utterance (connector_of cfg house) c1)) = Some (r, c')"
  then show "settled r c1 c'"
    by (elim try_io_settled) (auto simp: settled_def dest: turn_rest_settled split: if_splits)
qed (rule request_settled)

lemma turn_with_settled:
  assumes "turn_with T fuel cfg house thread_id utterance c = Some (r, c')"
  shows "settled r c c'"
proof (cases "thread_id = [] \<or> hc_id house \<le> 0 \<or> (\<exists>e. homey_connector cfg house = Err e)")
  case True
  with assms show ?thesis by (auto simp: turn_with_def try_io_def settled_def split: if_splits)
next
  case False
  then have "\<exists>conn. homey_connector cfg house = Ok conn" by (cases "homey_connector cfg house") auto
  then have conn: "homey_connector cfg house = Ok (connector_of cfg house)" using homey_connector_is by fastforce
  with assms False have "io_then (initialize T fuel c) (\<lambda>_. turn_resume fuel cfg house thread_id utterance) = Some (r, c')"
    by (simp add: turn_with_started)
  then show ?thesis by (rule io_then_settled) (rule initialize_settled turn_resume_settled, assumption)+
qed

lemma turn_with_waits:
  assumes "box c = map Inr ms" and "\<forall>m \<in> set ms. has_method m \<and> \<not> has_id m" and "ending c = Waiting" and "length ms < fuel"
    and "turn_with T fuel cfg house thread_id utterance c = Some (r, c')" and "sent c' \<noteq> sent c"
  shows "r = Err Waiting"
proof (cases "thread_id = [] \<or> hc_id house \<le> 0 \<or> (\<exists>e. homey_connector cfg house = Err e)")
  case True
  with assms(5) have "c' = c" by (auto simp: turn_with_def try_io_def split: if_splits)
  with assms(6) show ?thesis by simp
next
  case False
  then have "\<exists>conn. homey_connector cfg house = Ok conn" by (cases "homey_connector cfg house") auto
  then have conn: "homey_connector cfg house = Ok (connector_of cfg house)" using homey_connector_is by fastforce
  have run: "io_then (initialize T fuel c) (\<lambda>_. turn_resume fuel cfg house thread_id utterance) = Some (r, c')"
    using assms(5) False conn by (simp add: turn_with_started)
  then obtain q c1 where i: "initialize T fuel c = Some (q, c1)" by (auto simp: io_then_def split: option.splits)
  show ?thesis
  proof (cases "sent c1 = sent c")
    case True
    have "\<exists>e. q = Err e"
      using i True initialize_writes by (cases q) auto
    with run i True assms(6) show ?thesis by (auto simp: io_then_def)
  next
    case False
    from initialize_waits [OF assms(1-4) i this] run i show ?thesis by (auto simp: io_then_def)
  qed
qed

lemma turn_with_ends:
  assumes "length (queue c) < fuel"
  shows "turn_with T fuel cfg house thread_id utterance c \<noteq> None"
proof (cases "thread_id = [] \<or> hc_id house \<le> 0 \<or> (\<exists>e. homey_connector cfg house = Err e)")
  case True
  then show ?thesis by (auto simp: turn_with_def try_io_def)
next
  case False
  then have "\<exists>conn. homey_connector cfg house = Ok conn" by (cases "homey_connector cfg house") auto
  then have conn: "homey_connector cfg house = Ok (connector_of cfg house)" using homey_connector_is by fastforce
  have rest: "turn_resume fuel cfg house thread_id utterance c1 \<noteq> None" if "length (queue c1) < fuel" for c1
  proof -
    have "turn_rest fuel thread_id utterance (connector_of cfg house) c2 \<noteq> None"
      if "request T fuel THREAD_RESUME (thread_resume_params thread_id (permissions_of cfg house) (connector_of cfg house)) c1
          = Some (Ok x, c2)" for x c2
      using request_law [OF that] \<open>length (queue c1) < fuel\<close> turn_rest_ends by simp
    then show ?thesis
      unfolding turn_resume_def by (intro io_then_ends try_io_ends request_ends that) (auto split: if_splits)
  qed
  have "turn_resume fuel cfg house thread_id utterance c1 \<noteq> None" if "initialize T fuel c = Some (Ok u, c1)" for u c1
    using initialize_law [OF that] rest assms by simp
  then have "io_then (initialize T fuel c) (\<lambda>_. turn_resume fuel cfg house thread_id utterance) \<noteq> None"
    by (intro io_then_ends initialize_ends assms)
  then show ?thesis using False conn by (simp add: turn_with_started)
qed

end

subsection \<open>A conversation\<close>

lemma asc_inj [simp]: "asc s = asc t \<longleftrightarrow> s = t" "asc s = [] \<longleftrightarrow> s = []" "[] = asc s \<longleftrightarrow> s = []"
  by (auto simp: asc_def inj_map_eq_map inj_def)

definition demo_messages :: "(rstr \<times> json) list" where
  "demo_messages =
     [([1], obj [(''id'', JInt 1), (''result'', obj [])]),
      ([2], obj [(''id'', JStr (asc ''x'')), (''method'', JStr (asc ''item/fileChange/requestApproval''))]),
      ([3], obj [(''id'', JInt 2), (''result'', obj
         [(''thread'', obj [(''id'', JStr (asc ''t''))]), (''activePermissionProfile'', obj [(''id'', JStr (asc ''p'' @ show_int 7))]),
          (''sandbox'', obj [(''type'', JStr (asc ''readOnly''))])])]),
      ([4], obj [(''id'', JInt 3), (''result'', obj [(''turn'', obj [(''id'', JStr (asc ''u''))])])]),
      ([5], obj [(''method'', JStr (asc ''item/agentMessage/delta'')), (''params'', obj
         [(''threadId'', JStr (asc ''t'')), (''turnId'', JStr (asc ''u'')), (''delta'', JStr (asc ''hi''))])]),
      ([6], obj [(''method'', JStr (asc ''turn/completed'')), (''params'', obj
         [(''threadId'', JStr (asc ''t'')), (''turn'', obj [(''id'', JStr (asc ''u'')), (''status'', JStr (asc ''completed''))])])])]"

definition demo_from_json :: "rstr \<Rightarrow> json option" where
  "demo_from_json = map_of demo_messages"

definition demo_to_json :: "json \<Rightarrow> rstr" where
  "demo_to_json m = []"

definition demo_client :: "ws_state json_rpc_client" where
  "demo_client = rpc_client_new \<lparr>ws_frames = WPing True # map (\<lambda>x. WText (fst x)) demo_messages, ws_open = False, ws_written = [], ws_faults = []\<rparr>"

definition demo_codex :: codex_runtime_config where
  "demo_codex = \<lparr>socket_path = asc ''/s'', cwd_root = asc ''/h'', permission_profile_prefix = asc ''p'', codex_homey_enabled = False\<rparr>"

definition demo_codex_house :: house_context where
  "demo_codex_house = \<lparr>hc_id = 7, hc_name = asc ''h'', codex_thread_id = None, homey_connector_id = []\<rparr>"

definition demo_turn :: "(rstr, ws_state json_rpc_client) io option" where
  "demo_turn = turn_with (ws_transport demo_from_json demo_to_json) (Suc (Suc (Suc (Suc (Suc (Suc (Suc (Suc 0)))))))) demo_codex demo_codex_house (asc ''t'') (asc ''q'') demo_client"

lemma demo_small: "\<not> MAX_JSONL_BYTES < len_utf8 k"
  by (simp_all add: MAX_JSONL_BYTES_def len_utf8_def)

lemma demo_turn_runs:
  "map_option (\<lambda>(r, c). (r, map method_of (ws_written (rc_transport c)))) demo_turn =
     Some (Ok (asc ''hi''), [Some INITIALIZE, Some INITIALIZED, Some THREAD_RESUME, None, Some TURN_START])"
  by (simp add: demo_turn_def turn_with_def initialize_def io_then_def try_io_def request_def rpc_write_def rpc_read_def
      Let_def demo_client_def rpc_client_new_def ws_transport_def ws_read_def ws_write_def demo_to_json_def demo_from_json_def
      demo_messages_def demo_small demo_codex_def demo_codex_house_def homey_connector_def
      has_method_def has_id_def handle_server_request_def method_of_def approval_requests_def obj_def response_of_def
      notify_def validate_permission_result_def permissions_of_def str_at_def bool_at_def required_string_def
      collect_turn_def next_message_def turn_message_def AGENT_MESSAGE_DELTA_def ITEM_COMPLETED_def TURN_COMPLETED_def
      require_turn_def require_completed_turn_def rpc_request_def notification_def decline_def ok_or_def
      INITIALIZE_def INITIALIZED_def THREAD_RESUME_def TURN_START_def)


definition demo_talk :: "ws_state json_rpc_client" where
  "demo_talk = \<lparr>rc_transport = \<lparr>ws_frames = [], ws_open = False, ws_written = [], ws_faults = []\<rparr>, rc_next_id = 4,
     rc_notifications = map snd (drop 4 demo_messages)\<rparr>"

lemma demo_talk_runs:
  "\<exists>c'. collect_turn (ws_transport demo_from_json demo_to_json) 9 (asc ''t'') (asc ''u'') None demo_talk = Some (Ok (asc ''hi''), c')"
  by (simp add: demo_talk_def demo_messages_def collect_turn_def next_message_def turn_message_def eval_nat_numeral
      AGENT_MESSAGE_DELTA_def ITEM_COMPLETED_def TURN_COMPLETED_def require_turn_def require_completed_turn_def
      has_method_def has_id_def method_of_def str_at_def obj_def)

subsection \<open>Over the socket\<close>

lemma method_of_messages [simp]:
  "method_of (rpc_request i meth params) = Some meth" "method_of (notification meth p) = Some meth"
  "method_of (decline j) = None" "method_of (not_allowed j) = None"
  by (simp_all add: method_of_def rpc_request_def notification_def decline_def not_allowed_def obj_def)





lemma resume_not_start: "own_or_refusal (resume_messages cfg house thread_id) m \<Longrightarrow> method_of m \<noteq> Some TURN_START"
  by (auto simp: own_or_refusal_def refusal_def resume_messages_def requests_def INITIALIZE_def INITIALIZED_def
      THREAD_RESUME_def TURN_START_def)

lemma socket_turn_returns:
  assumes "turn from_json to_json cfg (Connected s) house thread_id utterance = None"
  shows "ws_open s"
proof -
  let ?run = "turn_with (ws_transport from_json to_json) (Suc (length (ws_frames s))) cfg house thread_id utterance (rpc_client_new s)"
  have "length (ws.queue from_json (rpc_client_new s)) < Suc (length (ws_frames s))"
    using ws_results_length [of from_json "ws_frames s"]
    by (simp add: ws.queue_def ws.box_def ws_inbox_def rpc_client_new_def)
  then obtain r c' where run: "?run = Some (r, c')" using ws.turn_with_ends by fastforce
  then have "r = Err Waiting"
    using assms by (auto simp: turn_def with_connection_def split: sum.splits stop.splits)
  with ws.turn_with_settled [OF run] show ?thesis
    by (simp add: ws.settled_def ws.ending_def ws_final_def rpc_client_new_def split: if_splits)
qed





text \<open>
  C8. A turn is started only in an isolated thread: where the start of a turn was sent, the
  app-server had answered a request with the very thread of the house, the permission profile
  of the house, a read-only sandbox and no network; the house has a positive id and, when
  Homey is enabled, a well-formed connector.
\<close>

theorem turn_only_when_isolated:
  assumes "turn_with (ws_transport from_json to_json) fuel cfg house thread_id utterance c = Some (r, c')"
    and "ws_written (rc_transport c') = ws_written (rc_transport c) @ ms" and "m \<in> set ms" and "method_of m = Some TURN_START"
  shows "\<exists>a i v. Inr a \<in> set (ws_inbox from_json (rc_transport c)) \<and> response_of i a = Ok v \<and>
           str_at v [''thread'', ''id''] = Some thread_id \<and>
           str_at v [''activePermissionProfile'', ''id''] = Some (permission_profile_prefix cfg @ show_int (hc_id house)) \<and>
           str_at v [''sandbox'', ''type''] = Some (asc ''readOnly'') \<and>
           bool_at v [''sandbox'', ''networkAccess''] \<noteq> Some True \<and>
           0 < hc_id house \<and> (codex_homey_enabled cfg \<longrightarrow> validate_homey_connector (homey_connector_id house) = Ok ())"
  using assms(1)
proof (cases rule: ws.turn_with_cases)
  case (stopped e)
  then have "own_or_refusal (resume_messages cfg house thread_id) m"
    using assms(2,3) by (auto simp: ws.wrote_def ws.sent_def list_all_iff)
  with resume_not_start assms(4) show ?thesis by blast
next
  case (started a v i c2)
  then show ?thesis
    by (auto simp: ws.box_def isolated_def permissions_of_def homey_connector_def split: if_splits)
qed

theorem turn_only_when_isolated_witness:
  "\<exists>c' a. demo_turn = Some (Ok (asc ''hi''), c') \<and> Inr a \<in> set (ws_inbox demo_from_json (rc_transport demo_client))"
proof -
  obtain c' where c: "demo_turn = Some (Ok (asc ''hi''), c')" "Some TURN_START \<in> set (map method_of (ws_written (rc_transport c')))"
    using demo_turn_runs by (auto simp: case_prod_beta)
  then obtain m where m: "m \<in> set (ws_written (rc_transport c'))" "method_of m = Some TURN_START" by auto
  have "ws_written (rc_transport c') = ws_written (rc_transport demo_client) @ ws_written (rc_transport c')"
    by (simp add: demo_client_def rpc_client_new_def)
  from turn_only_when_isolated [OF c(1) [unfolded demo_turn_def] this m] c(1) show ?thesis by blast
qed

text \<open>
  C9. What a turn says is what was said and done in it. The messages a successful turn took
  end with the completion of this very turn; every tool call among them was one of the three
  permitted tools at the connector of the house; the answer is the text of the deltas in their
  order, and not empty, unless some change of a device was not confirmed, when it is the
  sentence that says so.
\<close>

theorem turn_says_what_was_done:
  assumes "collect_turn (ws_transport from_json to_json) fuel thread_id turn_id connector c = Some (Ok answer, c')"
  shows "\<exists>ms m. map Inr (rc_notifications c) @ ws_inbox from_json (rc_transport c) =
                  map Inr (ms @ [m]) @ map Inr (rc_notifications c') @ ws_inbox from_json (rc_transport c') \<and>
           method_of m = Some TURN_COMPLETED \<and> require_completed_turn m thread_id turn_id = Ok () \<and>
           (\<forall>t \<in> set ms. tool_call t \<longrightarrow> permitted thread_id turn_id connector t) \<and>
           answer = (if \<exists>t \<in> set ms. changes_device t \<and> \<not> confirmed t then UNCONFIRMED else concat (map delta_of ms)) \<and>
           answer \<noteq> []"
proof -
  obtain ms m x u where q: "ws.queue from_json c = map Inr (ms @ [m]) @ ws.queue from_json c'"
    and run: "turn_run thread_id turn_id connector ms [] False = Some (x, u)"
    and fin: "turn_message thread_id turn_id connector m x u = Return (Ok answer)"
    using ws.collect_loop_answer assms unfolding collect_turn_def by blast
  have "UNCONFIRMED \<noteq> []" by code_simp
  with q turn_run_collects [OF run] turn_message_ok [OF fin] show ?thesis
    by (intro exI [of _ ms] exI [of _ m]) (auto simp: ws.queue_def ws.box_def)
qed

theorem turn_says_what_was_done_witness:
  "\<exists>c' ms m. collect_turn (ws_transport demo_from_json demo_to_json) 9 (asc ''t'') (asc ''u'') None demo_talk = Some (Ok (asc ''hi''), c') \<and>
     map Inr (rc_notifications demo_talk) = map Inr (ms @ [m]) @ map Inr (rc_notifications c') @ ws_inbox demo_from_json (rc_transport c') \<and>
     asc ''hi'' = concat (map delta_of ms)"
proof -
  obtain c' where run: "collect_turn (ws_transport demo_from_json demo_to_json) 9 (asc ''t'') (asc ''u'') None demo_talk = Some (Ok (asc ''hi''), c')"
    using demo_talk_runs by auto
  have "ws_inbox demo_from_json (rc_transport demo_talk) = []" by (simp add: demo_talk_def ws_inbox_def)
  moreover have "asc ''hi'' \<noteq> UNCONFIRMED" by code_simp
  ultimately show ?thesis using turn_says_what_was_done [OF run] run by (auto split: if_splits)
qed

text \<open>
  C37. With Homey disabled, a tool call is refused when it names a server, and accepted when
  it names none: the comparison of the absent server with the absent connector succeeds, so
  one of the three tools is taken for a permitted call of a house that has no connector.
\<close>

theorem serverless_tool_accepted:
  assumes "require_turn m thread_id turn_id = Ok ()"
    and "str_at m [''params'', ''item'', ''type''] = Some (asc ''mcpToolCall'')"
    and "str_at m [''params'', ''item'', ''tool''] = Some (asc ''set_device_capability'')"
  shows "(\<forall>server. str_at m [''params'', ''item'', ''server''] = Some server \<longrightarrow>
            observe_homey_tool m thread_id turn_id None u = Err ForbiddenRequest) \<and>
         (str_at m [''params'', ''item'', ''server''] = None \<longrightarrow>
            observe_homey_tool m thread_id turn_id None u = Ok (u \<or> \<not> confirmed m))"
  using assms
  by (auto simp: observe_homey_tool_def confirmed_def Let_def split: option.splits)

definition demo_tool_item :: json where
  "demo_tool_item = obj [(''method'', JStr ITEM_COMPLETED), (''params'', obj
     [(''threadId'', JStr (asc ''t'')), (''turnId'', JStr (asc ''u'')),
      (''item'', obj [(''type'', JStr (asc ''mcpToolCall'')), (''tool'', JStr (asc ''set_device_capability''))])])]"

theorem serverless_tool_accepted_witness:
  "observe_homey_tool demo_tool_item (asc ''t'') (asc ''u'') None False = Ok True"
proof -
  have m: "require_turn demo_tool_item (asc ''t'') (asc ''u'') = Ok ()"
    "str_at demo_tool_item [''params'', ''item'', ''type''] = Some (asc ''mcpToolCall'')"
    "str_at demo_tool_item [''params'', ''item'', ''tool''] = Some (asc ''set_device_capability'')"
    "str_at demo_tool_item [''params'', ''item'', ''server''] = None" "\<not> confirmed demo_tool_item"
    by (simp_all add: require_turn_def str_at_def demo_tool_item_def obj_def confirmed_def)
  from serverless_tool_accepted [OF m(1-3), of False] m(4,5) show ?thesis by simp
qed

end
