(* ===== verification/Assemble.thy ===== *)
theory Assemble
  imports Config Dialogue_Engine House_Engine Codex_Runtime State_Crypto
begin

section \<open>Assembly of the server\<close>

text \<open>
  Model of \<^verbatim>\<open>crates/bridge-server/src/assemble.rs\<close> and of the part of \<^verbatim>\<open>main.rs\<close> that makes the
  backend. The environment is the parameter \<open>env\<close>, the outcome of building an HTTP client
  \<open>builder\<close>. A provider is the position of its client among the built ones.
\<close>

definition build_household_engine :: "app_config \<Rightarrow> (household_engine_config, config_error) result" where
  "build_household_engine cfg =
     (if rt_mode (ac_runtime cfg) \<noteq> HouseholdCodex
      then Err (InvalidSetting (asc ''household engine requested while runtime mode is legacy''))
      else Ok \<lparr>reply_budget = reply_budget_ms (ac_defaults cfg), chunk_limit = rt_chunk_limit (ac_runtime cfg),
               homey_enabled = rt_homey_enabled (ac_runtime cfg)\<rparr>)"

fun show_provider_error :: "provider_error \<Rightarrow> rstr" where
  "show_provider_error Timeout = asc ''request timed out''"
| "show_provider_error RateLimited = asc ''rate limited''"
| "show_provider_error Auth = asc ''authentication failed''"
| "show_provider_error (Api status message) = asc ''provider returned '' @ show_nat status @ asc '': '' @ message"
| "show_provider_error (Network message) = asc ''network error: '' @ message"
| "show_provider_error (InvalidResponse message) = asc ''unexpected response shape: '' @ message"

fun show_core_error :: "core_error \<Rightarrow> rstr" where
  "show_core_error (UnknownProfile name) = asc ''unknown profile: '' @ name"

fun build_providers :: "(rstr \<Rightarrow> rstr option) \<Rightarrow> (unit, rstr) result \<Rightarrow> (rstr \<times> provider_config) list \<Rightarrow>
    ((rstr \<times> openai_client) list, config_error) result" where
  "build_providers env builder [] = Ok []"
| "build_providers env builder ((name, p) # rest) =
     (case env (api_key_env p) of
        None \<Rightarrow> Err (MissingEnv (api_key_env p))
      | Some api_key \<Rightarrow>
          (case openai_new builder (base_url p) api_key of
             Inl e \<Rightarrow> Err (InvalidSetting (asc ''provider '' @ name @ asc '': '' @ show_provider_error e))
           | Inr client \<Rightarrow> try_bind (build_providers env builder rest) (\<lambda>clients. Ok ((name, client) # clients))))"

definition preset :: "model_preset_config \<Rightarrow> (rstr \<times> openai_client) list \<Rightarrow> (model_preset, config_error) result" where
  "preset config providers =
     (case position (\<lambda>x. fst x = mc_provider config) providers of
        None \<Rightarrow> Err (UnknownProvider (mc_model config) (mc_provider config))
      | Some i \<Rightarrow>
          Ok \<lparr>mp_provider = i, mp_model = mc_model config, mp_max_tokens = mc_max_tokens config,
              mp_temperature = mc_temperature config, input_price_per_mtok = mc_input_price config,
              output_price_per_mtok = mc_output_price config\<rparr>)"

definition profile_of :: "unicode \<Rightarrow> profile_config \<Rightarrow> profile" where
  "profile_of uc p =
     \<lparr>pf_name = pc_name p, pf_aliases = map (to_lowercase uc) (pc_aliases p), pf_birthday = pc_birthday p,
      pf_role = (if pc_role_name p = asc ''child'' then Child else Adult), pf_persona = pc_persona p\<rparr>"

definition mode_of :: "mode_config \<Rightarrow> mode" where
  "mode_of m = \<lparr>md_name = moc_name m, md_triggers = moc_triggers m, md_prompt = moc_prompt m\<rparr>"

definition build_engine :: "unicode \<Rightarrow> (rstr \<Rightarrow> rstr option) \<Rightarrow> (unit, rstr) result \<Rightarrow> app_config \<Rightarrow> 's conversation_store \<Rightarrow>
    ('s engine_inner \<times> (rstr \<times> openai_client) list, config_error) result" where
  "build_engine uc env builder cfg store =
     try_bind (build_providers env builder (ac_providers cfg)) (\<lambda>providers.
     try_bind (preset (mc_fast (ac_models cfg)) providers) (\<lambda>fast.
     try_bind (preset (mc_smart (ac_models cfg)) providers) (\<lambda>smart.
     case roster_new (map (profile_of uc) (ac_profiles cfg)) (df_profile (ac_defaults cfg)) of
       Inl e \<Rightarrow> Err (InvalidSetting (show_core_error e))
     | Inr roster \<Rightarrow>
         Ok (\<lparr>ei_roster = roster, ei_modes = map mode_of (ac_modes cfg), ei_models = \<lparr>mr_fast = fast, mr_smart = smart\<rparr>,
              ei_store = store,
              ei_config = \<lparr>context_window = df_context_window (ac_defaults cfg), ec_reply_budget = reply_budget_ms (ac_defaults cfg),
                           utc_offset_hours = df_utc_offset_hours (ac_defaults cfg)\<rparr>\<rparr>, providers))))"

subsection \<open>The backend of \<open>main\<close>\<close>

datatype 's backend =
    LegacyBackend "'s engine_inner" "(rstr \<times> openai_client) list"
  | HouseholdBackend state_cipher codex_runtime_config household_engine_config

datatype startup_error =
    ConfigFailed config_error
  | MissingKey
  | BadKey crypto_error
  | BadCodex codex_runtime_error

definition codex_config_of :: "runtime_config \<Rightarrow> codex_runtime_config option" where
  "codex_config_of rt =
     (case (codex_socket rt, codex_cwd_root rt) of
        (Some socket, Some root) \<Rightarrow>
          Some \<lparr>socket_path = socket, cwd_root = root, permission_profile_prefix = rt_permission_profile_prefix rt,
                codex_homey_enabled = rt_homey_enabled rt\<rparr>
      | _ \<Rightarrow> None)"

text \<open>\<open>None\<close> is the panic of an \<open>expect\<close>.\<close>

definition make_backend :: "unicode \<Rightarrow> crypto_lib \<Rightarrow> (rstr \<Rightarrow> rstr option) \<Rightarrow> (unit, rstr) result \<Rightarrow> app_config \<Rightarrow> 's conversation_store \<Rightarrow>
    ('s backend, startup_error) result option" where
  "make_backend uc cl env builder cfg store =
     (case rt_mode (ac_runtime cfg) of
        Legacy \<Rightarrow>
          Some (case build_engine uc env builder cfg store of
                  Inl e \<Rightarrow> Err (ConfigFailed e)
                | Inr (inner, providers) \<Rightarrow> Ok (LegacyBackend inner providers))
      | HouseholdCodex \<Rightarrow>
          (case env (asc ''STATE_ENCRYPTION_KEY'') of
             None \<Rightarrow> Some (Err MissingKey)
           | Some key \<Rightarrow>
               (case from_hex cl key of
                  Inl e \<Rightarrow> Some (Err (BadKey e))
                | Inr cipher \<Rightarrow>
                    (case codex_config_of (ac_runtime cfg) of
                       None \<Rightarrow> None
                     | Some codex_cfg \<Rightarrow>
                         Some (case codex_runtime_new codex_cfg of
                                 Inl e \<Rightarrow> Err (BadCodex e)
                               | Inr codex \<Rightarrow>
                                   (case build_household_engine cfg of
                                      Inl e \<Rightarrow> Err (ConfigFailed e)
                                    | Inr engine_cfg \<Rightarrow> Ok (HouseholdBackend cipher codex engine_cfg)))))))"

subsection \<open>What a validated configuration gives\<close>

definition client_of :: "(rstr \<Rightarrow> rstr option) \<Rightarrow> provider_config \<Rightarrow> openai_client" where
  "client_of env p =
     \<lparr>oc_chat_url = trim_end_matches (\<lambda>c. c = 47) (base_url p) @ asc ''/chat/completions'',
      oc_api_key = the (env (api_key_env p))\<rparr>"

lemma build_providers_Ok:
  "\<forall>(name, p) \<in> set ps. env (api_key_env p) \<noteq> None \<Longrightarrow>
   build_providers env (Ok ()) ps = Ok (map (\<lambda>(name, p). (name, client_of env p)) ps)"
  by (induction ps) (auto simp: openai_new_def client_of_def)

text \<open>The first variable that is not set is the error.\<close>

lemma build_providers_missing:
  "\<exists>(name, p) \<in> set ps. env (api_key_env p) = None \<Longrightarrow>
   \<exists>v. env v = None \<and> v \<in> (api_key_env \<circ> snd) ` set ps \<and> build_providers env (Ok ()) ps = Err (MissingEnv v)"
proof (induction ps)
  case (Cons x ps)
  show ?case
  proof (cases "env (api_key_env (snd x))")
    case None
    then show ?thesis by (cases x) auto
  next
    case (Some key)
    with Cons.prems have "\<exists>(name, p) \<in> set ps. env (api_key_env p) = None" by auto
    from Cons.IH [OF this] show ?thesis using Some by (cases x) (auto simp: openai_new_def)
  qed
qed simp

lemma position_map_of:
  "map_of ps k = Some p \<Longrightarrow>
   \<exists>i. position (\<lambda>x. fst x = k) (map (\<lambda>(name, p). (name, f p)) ps) = Some i \<and> i < length ps \<and> ps ! i = (k, p)"
  by (induction ps) (force split: if_splits)+

lemma preset_Ok:
  assumes "map_of ps (mc_provider config) = Some p"
  shows "\<exists>m. preset config (map (\<lambda>(name, p). (name, f p)) ps) = Ok m \<and> mp_model m = mc_model config \<and>
           map (\<lambda>(name, p). (name, f p)) ps ! mp_provider m = (mc_provider config, f p)"
  using position_map_of [OF assms, of f] by (auto simp: preset_def)

lemma roster_new_Ok:
  "\<exists>p \<in> set ps. pf_name p = d \<Longrightarrow>
   \<exists>roster p. roster_new ps d = Ok roster \<and> roster_default_profile roster = Some p \<and> pf_name p = d"
proof -
  assume "\<exists>p \<in> set ps. pf_name p = d"
  then obtain i where i: "position (\<lambda>p. pf_name p = d) ps = Some i"
    by (cases "position (\<lambda>p. pf_name p = d) ps") (auto simp: position_None)
  then have "iter_nth ps i = Some (ps ! i) \<and> pf_name (ps ! i) = d"
    using position_Some [OF i] by (simp add: iter_nth_def Cons_nth_drop_Suc [symmetric])
  with i show ?thesis by (simp add: roster_new_def roster_default_profile_def)
qed

text \<open>Each preset has the model's name and the client of the provider it names.\<close>

definition presets_resolved :: "(rstr \<Rightarrow> rstr option) \<Rightarrow> app_config \<Rightarrow> 's engine_inner \<Rightarrow> (rstr \<times> openai_client) list \<Rightarrow> bool" where
  "presets_resolved env cfg inner clients \<longleftrightarrow>
     (\<forall>(m, config) \<in> {(mr_fast (ei_models inner), mc_fast (ac_models cfg)),
                        (mr_smart (ei_models inner), mc_smart (ac_models cfg))}.
        mp_model m = mc_model config \<and>
        (\<exists>p. map_of (ac_providers cfg) (mc_provider config) = Some p \<and>
          clients ! mp_provider m = (mc_provider config, client_of env p)))"

lemma build_engine_Ok:
  assumes "validate cfg = Ok ()" and "\<forall>(name, p) \<in> set (ac_providers cfg). env (api_key_env p) \<noteq> None"
  shows "\<exists>inner. build_engine uc env (Ok ()) cfg store =
             Ok (inner, map (\<lambda>(name, p). (name, client_of env p)) (ac_providers cfg)) \<and>
           dialogue_new inner s now utc \<noteq> None \<and>
           presets_resolved env cfg inner (map (\<lambda>(name, p). (name, client_of env p)) (ac_providers cfg))"
proof -
  let ?c = "map (\<lambda>(name, p). (name, client_of env p)) (ac_providers cfg)"
  from assms(1) obtain pf ps where
    f: "map_of (ac_providers cfg) (mc_provider (mc_fast (ac_models cfg))) = Some pf" and
    s: "map_of (ac_providers cfg) (mc_provider (mc_smart (ac_models cfg))) = Some ps"
    by (auto simp: validate_Ok)
  from preset_Ok [OF f, of "client_of env"] obtain mf where
    mf: "preset (mc_fast (ac_models cfg)) ?c = Ok mf" "mp_model mf = mc_model (mc_fast (ac_models cfg))"
      "?c ! mp_provider mf = (mc_provider (mc_fast (ac_models cfg)), client_of env pf)" by blast
  from preset_Ok [OF s, of "client_of env"] obtain ms where
    ms: "preset (mc_smart (ac_models cfg)) ?c = Ok ms" "mp_model ms = mc_model (mc_smart (ac_models cfg))"
      "?c ! mp_provider ms = (mc_provider (mc_smart (ac_models cfg)), client_of env ps)" by blast
  have "\<exists>p \<in> set (map (profile_of uc) (ac_profiles cfg)). pf_name p = df_profile (ac_defaults cfg)"
    using assms(1) by (auto simp: validate_Ok profile_of_def)
  then obtain roster p where r: "roster_new (map (profile_of uc) (ac_profiles cfg)) (df_profile (ac_defaults cfg)) = Ok roster"
    "roster_default_profile roster = Some p"
    using roster_new_Ok by blast
  show ?thesis
    using mf ms f s r by (simp add: build_engine_def build_providers_Ok [OF assms(2)] dialogue_new_def presets_resolved_def)
qed

lemma loaded_valid: "load from_str file = Ok cfg \<Longrightarrow> validate cfg = Ok ()"
  by (auto simp: load_def from_toml_def split: sum.splits)

lemma household_starts:
  assumes "validate cfg = Ok ()" and "rt_mode (ac_runtime cfg) = HouseholdCodex"
    and "env (asc ''STATE_ENCRYPTION_KEY'') = Some key" and "from_hex cl key = Ok cipher"
  shows "\<exists>codex engine_cfg.
           make_backend uc cl env builder cfg store = Some (Ok (HouseholdBackend cipher codex engine_cfg)) \<and>
           Some (socket_path codex) = codex_socket (ac_runtime cfg) \<and>
           Some (cwd_root codex) = codex_cwd_root (ac_runtime cfg) \<and>
           codex_homey_enabled codex = homey_enabled engine_cfg \<and>
           12 < chunk_limit engine_cfg \<and> chunk_limit engine_cfg \<le> 900"
  using assms
  by (auto simp: validate_Ok validate_runtime_Ok make_backend_def codex_config_of_def codex_runtime_new_def
      build_household_engine_def is_absolute_def absolute_path_def)

lemma legacy_starts:
  assumes "validate cfg = Ok ()" and "rt_mode (ac_runtime cfg) = Legacy"
  shows "if \<exists>(name, p) \<in> set (ac_providers cfg). env (api_key_env p) = None
         then \<exists>v. env v = None \<and> make_backend uc cl env (Ok ()) cfg store = Some (Err (ConfigFailed (MissingEnv v)))
         else \<exists>inner clients.
           make_backend uc cl env (Ok ()) cfg store = Some (Ok (LegacyBackend inner clients)) \<and>
           dialogue_new inner s now utc \<noteq> None \<and> presets_resolved env cfg inner clients"
proof (cases "\<exists>(name, p) \<in> set (ac_providers cfg). env (api_key_env p) = None")
  case True
  from build_providers_missing [OF True] obtain v where "env v = None"
    "build_providers env (Ok ()) (ac_providers cfg) = Err (MissingEnv v)" by blast
  with True assms(2) show ?thesis by (auto simp: make_backend_def build_engine_def)
next
  case False
  then have "\<forall>(name, p) \<in> set (ac_providers cfg). env (api_key_env p) \<noteq> None" by auto
  from build_engine_Ok [OF assms(1) this, of uc store s now utc] assms(2) show ?thesis
    unfolding if_not_P [OF False] by (fastforce simp: make_backend_def)
qed

text \<open>
  C15. A configuration that loads starts the bridge: the \<open>expect\<close>s of \<^verbatim>\<open>main.rs\<close> and the checks behind
  them cannot fail. In household mode a key that parses is enough; the runtime gets the configured paths
  and the engine a chunk limit its shaper accepts. In the legacy mode the only thing missing can be an
  environment variable, which the error names; else the default profile is there, and each preset has its
  model's name and the client, with address and key, of the provider it names.
\<close>

theorem validated_config_starts:
  assumes "load from_str file = Ok cfg"
  shows "(rt_mode (ac_runtime cfg) = HouseholdCodex \<and> env (asc ''STATE_ENCRYPTION_KEY'') = Some key \<and>
          from_hex cl key = Ok cipher \<longrightarrow>
            (\<exists>codex engine_cfg.
              make_backend uc cl env builder cfg store = Some (Ok (HouseholdBackend cipher codex engine_cfg)) \<and>
              Some (socket_path codex) = codex_socket (ac_runtime cfg) \<and>
              Some (cwd_root codex) = codex_cwd_root (ac_runtime cfg) \<and>
              codex_homey_enabled codex = homey_enabled engine_cfg \<and>
              12 < chunk_limit engine_cfg \<and> chunk_limit engine_cfg \<le> 900)) \<and>
         (rt_mode (ac_runtime cfg) = Legacy \<longrightarrow>
            (if \<exists>(name, p) \<in> set (ac_providers cfg). env (api_key_env p) = None
             then \<exists>v. env v = None \<and> make_backend uc cl env (Ok ()) cfg store = Some (Err (ConfigFailed (MissingEnv v)))
             else \<exists>inner clients.
               make_backend uc cl env (Ok ()) cfg store = Some (Ok (LegacyBackend inner clients)) \<and>
               dialogue_new inner s now utc \<noteq> None \<and> presets_resolved env cfg inner clients))"
  apply (intro conjI impI)
   apply (elim conjE)
   apply (rule household_starts [OF loaded_valid [OF assms]]; assumption)
  apply (rule legacy_starts [OF loaded_valid [OF assms]]; assumption)
  done

definition demo_config :: app_config where
  "demo_config =
     \<lparr>ac_runtime = runtime_config_default\<lparr>rt_mode := HouseholdCodex, codex_socket := Some (asc ''/run/codex''),
                     codex_cwd_root := Some (asc ''/srv/houses'')\<rparr>,
      ac_server = \<lparr>listen = asc ''127.0.0.1:8080'', allowed_user_ids = []\<rparr>,
      ac_defaults = \<lparr>df_profile = asc ''Anna'', df_context_window = 12, reply_budget_ms = 2800,
                     provider_timeout_secs = 45, df_utc_offset_hours = 3\<rparr>,
      ac_providers = [(asc ''main'', \<lparr>base_url = asc ''https://llm'', api_key_env = asc ''KEY''\<rparr>)],
      ac_models =
        (let m = \<lparr>mc_provider = asc ''main'', mc_model = asc ''small'', mc_max_tokens = 300, mc_temperature = 0,
                  mc_input_price = 0, mc_output_price = 0\<rparr> in \<lparr>mc_fast = m, mc_smart = m\<rparr>),
      ac_profiles = [\<lparr>pc_name = asc ''Anna'', pc_aliases = [], pc_birthday = None, pc_role_name = asc ''adult'', pc_persona = []\<rparr>],
      ac_modes = []\<rparr>"

theorem validated_config_starts_witness:
  "\<exists>cipher codex engine_cfg.
     make_backend basic_unicode demo_crypto (\<lambda>_. Some (replicate 64 97)) (Ok ()) demo_config pg_store =
       Some (Ok (HouseholdBackend cipher codex engine_cfg)) \<and> 12 < chunk_limit engine_cfg"
proof -
  have "validate demo_config = Ok ()" by code_simp
  then have l: "load (\<lambda>_. Ok demo_config) (Ok []) = Ok demo_config"
    by (simp add: load_def from_toml_def)
  have m: "rt_mode (ac_runtime demo_config) = HouseholdCodex" by (simp add: demo_config_def)
  have "str_len (replicate 64 97) = 64" by code_simp
  then have k: "from_hex demo_crypto (replicate 64 97) = Ok \<lparr>sc_key = replicate 64 97, sc_key_version = 1\<rparr>"
    by (simp add: from_hex_def demo_crypto_def KEY_BYTES_def CURRENT_KEY_VERSION_def)
  from validated_config_starts [OF l, THEN conjunct1, rule_format, OF conjI [OF m conjI [OF refl k]]]
  show ?thesis by blast
qed

end
