(* ===== verification/Alice_Protocol.thy ===== *)
theory Alice_Protocol
  imports Rust_Str
begin

section \<open>The webhook protocol of Yandex Dialogs\<close>

text \<open>
  Model of the crate \<^verbatim>\<open>crates/alice-protocol\<close>: the fields of a request the bridge reads
  (\<^verbatim>\<open>request.rs\<close>), and the reply with its limit of 1024 characters (\<^verbatim>\<open>response.rs\<close>). Slices
  are at byte offsets; \<open>None\<close> is the panic of a slice that is no boundary.
\<close>

record meta =
  locale_name :: rstr
  timezone :: rstr
  client_id :: rstr

record session =
  message_id :: nat
  session_id :: rstr
  skill_id :: rstr
  ss_new :: bool
  account_user :: "rstr option"
  application_id :: rstr

datatype request_kind = SimpleUtterance | ButtonPressed | OtherKind

record user_request =
  ur_command :: rstr
  original_utterance :: rstr
  ur_kind :: request_kind

record webhook_request =
  wr_meta :: meta
  wr_session :: session
  wr_request :: user_request
  wr_version :: rstr

record skill_response =
  sr_text :: rstr
  sr_tts :: "rstr option"
  end_session :: bool

record webhook_response =
  wr_response :: skill_response
  wresp_version :: rstr

definition MAX_TEXT_LEN :: usize where
  "MAX_TEXT_LEN = 1024"

definition sentence_end :: "rchar \<Rightarrow> bool" where
  "sentence_end c \<longleftrightarrow> c = 46 \<or> c = 33 \<or> c = 63"

definition clip_to_limit :: "rstr \<Rightarrow> rstr option" where
  "clip_to_limit str =
     (if length str \<le> MAX_TEXT_LEN then Some str
      else
        (let cut = take MAX_TEXT_LEN str
         in case rfind_char cut sentence_end of
              Some pos \<Rightarrow> slice_to cut (pos + 1)
            | None \<Rightarrow>
                (case rfind_char cut is_whitespace of
                   Some pos \<Rightarrow> map_option (\<lambda>s. trim_end s @ [8230]) (slice_to cut pos)
                 | None \<Rightarrow> Some cut)))"

definition build_response :: "rstr \<Rightarrow> bool \<Rightarrow> webhook_response option" where
  "build_response str end_sess =
     map_option (\<lambda>x. \<lparr>wr_response = \<lparr>sr_text = x, sr_tts = Some x, end_session = end_sess\<rparr>, wresp_version = asc ''1.0''\<rparr>)
       (clip_to_limit str)"

definition say :: "rstr \<Rightarrow> webhook_response option" where
  "say str = build_response str False"

definition say_and_close :: "rstr \<Rightarrow> webhook_response option" where
  "say_and_close str = build_response str True"

subsection \<open>Clipping\<close>

lemma clip_short: "length str \<le> MAX_TEXT_LEN \<Longrightarrow> clip_to_limit str = Some str"
  by (simp add: clip_to_limit_def)

lemma say_short:
  "length str \<le> MAX_TEXT_LEN \<Longrightarrow>
     say str = Some \<lparr>wr_response = \<lparr>sr_text = str, sr_tts = Some str, end_session = False\<rparr>, wresp_version = asc ''1.0''\<rparr>"
  by (simp add: say_def build_response_def clip_short)

text \<open>How a text that does not fit is cut, \<open>start\<close> being its first 1024 characters.\<close>

definition clipped :: "rstr \<Rightarrow> rstr \<Rightarrow> bool" where
  "clipped start r \<longleftrightarrow>
     (\<exists>kept rest. start = kept @ rest \<and>
        (r = kept \<and> kept \<noteq> [] \<and> sentence_end (last kept) \<and> (\<forall>c \<in> set rest. \<not> sentence_end c) \<or>
         (\<forall>c \<in> set start. \<not> sentence_end c) \<and>
         (r = trim_end kept @ [8230] \<and> rest \<noteq> [] \<and> is_whitespace (hd rest) \<and> (\<forall>c \<in> set (tl rest). \<not> is_whitespace c) \<or>
          r = start \<and> rest = [] \<and> (\<forall>c \<in> set start. \<not> is_whitespace c))))"

lemma clippedI1: "sentence_end c \<Longrightarrow> \<forall>x \<in> set b. \<not> sentence_end x \<Longrightarrow> clipped ((a @ [c]) @ b) (a @ [c])"
  unfolding clipped_def by (intro exI [of _ "a @ [c]"] exI [of _ b]) simp

lemma clippedI2:
  "\<forall>x \<in> set (a @ c # b). \<not> sentence_end x \<Longrightarrow> is_whitespace c \<Longrightarrow> \<forall>x \<in> set b. \<not> is_whitespace x \<Longrightarrow>
   clipped (a @ c # b) (trim_end a @ [8230])"
  unfolding clipped_def by (intro exI [of _ a] exI [of _ "c # b"]) simp

lemma clippedI3: "\<forall>x \<in> set start. \<not> sentence_end x \<Longrightarrow> \<forall>x \<in> set start. \<not> is_whitespace x \<Longrightarrow> clipped start start"
  unfolding clipped_def by (intro exI [of _ start] exI [of _ "[]"]) simp

lemma clip_to_limit_long:
  "1024 < length str \<Longrightarrow> clip_to_limit str = (case rfind_char (take 1024 str) sentence_end of
      Some pos \<Rightarrow> slice_to (take 1024 str) (pos + 1)
    | None \<Rightarrow> (case rfind_char (take 1024 str) is_whitespace of
        Some pos \<Rightarrow> map_option (\<lambda>s. trim_end s @ [8230]) (slice_to (take 1024 str) pos)
      | None \<Rightarrow> Some (take 1024 str)))"
  by (simp add: clip_to_limit_def MAX_TEXT_LEN_def Let_def)

text \<open>The three places where a text is cut: after a sentence, at white space, at the limit.\<close>

lemma cut_after_sentence:
  assumes "rfind_char kept sentence_end = Some pos"
  shows "\<exists>r. slice_to kept (pos + 1) = Some r \<and> length r \<le> length kept \<and> clipped kept r"
proof -
  obtain a c b where s: "kept = a @ c # b" "pos = str_len a" "sentence_end c" "\<forall>x \<in> set b. \<not> sentence_end x"
    using assms by (rule rfind_char_last)
  have "len_utf8 c = 1" using s(3) by (auto simp: sentence_end_def len_utf8_def)
  then have pos: "pos + 1 = str_len (a @ [c])" using s(2) by simp
  have kept: "kept = (a @ [c]) @ b" using s(1) by simp
  have "slice_to kept (pos + 1) = Some (a @ [c])" unfolding kept pos by (rule slice_to_boundary)
  moreover have "length (a @ [c]) \<le> length kept" unfolding kept by simp
  moreover have "clipped kept (a @ [c])" unfolding kept by (rule clippedI1 [OF s(3,4)])
  ultimately show ?thesis by blast
qed

lemma cut_at_white_space:
  assumes "\<forall>c \<in> set kept. \<not> sentence_end c" and "rfind_char kept is_whitespace = Some pos"
  shows "\<exists>a. slice_to kept pos = Some a \<and> length (trim_end a @ [8230]) \<le> length kept \<and> clipped kept (trim_end a @ [8230])"
proof -
  obtain a c b where s: "kept = a @ c # b" "pos = str_len a" "is_whitespace c" "\<forall>x \<in> set b. \<not> is_whitespace x"
    using assms(2) by (rule rfind_char_last)
  have "slice_to kept pos = Some a" unfolding s(1,2) by (rule slice_to_boundary)
  moreover have "length (trim_end a @ [8230]) \<le> length kept"
    unfolding s(1) using length_trim_end_le [of a] by (simp add: trans_le_add1)
  moreover have "clipped kept (trim_end a @ [8230])" using assms(1) unfolding s(1) by (rule clippedI2 [OF _ s(3,4)])
  ultimately show ?thesis by blast
qed

lemma cut_at_limit:
  assumes "rfind_char kept sentence_end = None" and "rfind_char kept is_whitespace = None"
  shows "clipped kept kept"
  using rfind_char_None [OF assms(1)] rfind_char_None [OF assms(2)] by (intro clippedI3) blast+

text \<open>
  C22. Clipping never panics and never goes over the limit of the protocol. A text that fits is
  kept; of a longer one a beginning is kept: up to the last sentence end among the first
  1024 characters, else up to the last white space there with an ellipsis, else all 1024.
\<close>

theorem clip_to_limit_bounds:
  "\<exists>r. clip_to_limit str = Some r \<and> length r \<le> 1024 \<and>
     (length str \<le> 1024 \<longrightarrow> r = str) \<and>
     (1024 < length str \<longrightarrow> clipped (take 1024 str) r)"
proof (cases "length str \<le> 1024")
  case True
  then show ?thesis by (simp add: clip_to_limit_def MAX_TEXT_LEN_def)
next
  case False
  then have clip: "1024 < length str" and len: "length (take 1024 str) = 1024" by simp_all
  note clip = clip_to_limit_long [OF clip]
  show ?thesis
  proof (cases "rfind_char (take 1024 str) sentence_end")
    case (Some pos)
    from cut_after_sentence [OF Some] show ?thesis using clip Some False len by auto
  next
    case None
    have no: "\<forall>c \<in> set (take 1024 str). \<not> sentence_end c" using rfind_char_None [OF None] by blast
    show ?thesis
    proof (cases "rfind_char (take 1024 str) is_whitespace")
      case (Some pos)
      from cut_at_white_space [OF no Some] show ?thesis using clip None Some False len by auto
    next
      case no_space: None
      from cut_at_limit [OF None this] show ?thesis using clip None no_space False len by auto
    qed
  qed
qed

theorem clip_to_limit_bounds_witness:
  "\<exists>r. clip_to_limit (replicate 1030 97) = Some r \<and> length r \<le> 1024 \<and> clipped (replicate 1024 97) r"
proof -
  have "take 1024 (replicate 1030 (97 :: rchar)) = replicate 1024 97" by (simp add: take_replicate)
  with clip_to_limit_bounds [of "replicate 1030 97"] show ?thesis by auto
qed

end
