(* ===== verification/Routes.thy ===== *)
theory Routes
  imports Assemble Alice_Protocol
begin

section \<open>The webhook\<close>

text \<open>
  Model of \<^verbatim>\<open>crates/bridge-server/src/routes.rs\<close>. What the spawned task of an engine gives is a
  parameter: \<open>None\<close> is a task that panicked or was cancelled. The handler's own \<open>None\<close> is its panic. The
  theorem at the end takes the engine's replies from the engine's model.
\<close>

definition GREETING :: rstr where
  "GREETING = cyr ''Priwet! '' @ [1071] @ cyr '' most k nejrosetqm. Zadaj l`boj wopros ili skavi: pomo}x.''"

definition REFUSAL :: rstr where
  "REFUSAL = cyr ''Izwini, |to semejnyj nawyk. '' @ [1071] @ cyr '' otwe~a` tolxko swoim.''"

definition HOUSEHOLD_REFUSAL :: rstr where
  "HOUSEHOLD_REFUSAL = cyr ''Izwinite, |ta Alisa ne priwqzana k doma{nemu pomo}niku.''"

definition HOUSEHOLD_BUSY :: rstr where
  "HOUSEHOLD_BUSY = [1071] @ cyr '' uve otwe~a` w |tom dome. Powtorite ~erez neskolxko sekund.''"

record 's app_state =
  as_backend :: "'s backend"
  webhook_secret :: rstr
  as_allowed_user_ids :: "rstr set"

text \<open>
  \<^verbatim>\<open>main\<close> up to the listener. The file system, the environment and what connecting to Postgres and
  migrating it come to are parameters; \<open>None\<close> is a panic.
\<close>

datatype main_error =
    NotLoaded config_error
  | NoWebhookSecret
  | NoDatabaseUrl
  | NotConnected
  | NotMigrated
  | NotStarted startup_error

definition config_path :: "(rstr \<Rightarrow> rstr option) \<Rightarrow> rstr" where
  "config_path env = (case env (asc ''CONFIG_PATH'') of Some path \<Rightarrow> path | None \<Rightarrow> asc ''config.toml'')"

definition main_state :: "unicode \<Rightarrow> crypto_lib \<Rightarrow> (rstr \<Rightarrow> (app_config, rstr) result) \<Rightarrow> (rstr \<Rightarrow> (rstr, rstr) result) \<Rightarrow>
    (rstr \<Rightarrow> rstr option) \<Rightarrow> (unit, rstr) result \<Rightarrow> (rstr \<Rightarrow> bool) \<Rightarrow> (rstr \<Rightarrow> bool) \<Rightarrow> 's conversation_store \<Rightarrow>
    ('s app_state, main_error) result option" where
  "main_state uc cl from_str read_file env builder connects migrates store =
     (case load from_str (read_file (config_path env)) of
        Inl e \<Rightarrow> Some (Err (NotLoaded e))
      | Inr cfg \<Rightarrow>
          (case env (asc ''WEBHOOK_SECRET'') of
             None \<Rightarrow> Some (Err NoWebhookSecret)
           | Some secret \<Rightarrow>
               (case env (asc ''DATABASE_URL'') of
                  None \<Rightarrow> Some (Err NoDatabaseUrl)
                | Some url \<Rightarrow>
                    if \<not> connects url then Some (Err NotConnected)
                    else if \<not> migrates url then Some (Err NotMigrated)
                    else map_option (map_sum NotStarted (\<lambda>b.
                           \<lparr>as_backend = b, webhook_secret = secret,
                            as_allowed_user_ids = set (allowed_user_ids (ac_server cfg))\<rparr>))
                         (make_backend uc cl env builder cfg store))))"

lemma map_sum_Inr_iff: "map_sum f g z = Inr y \<longleftrightarrow> (\<exists>x. z = Inr x \<and> y = g x)"
  by (cases z) auto

text \<open>What a server that started was made of.\<close>

lemma main_state_Ok:
  assumes "main_state uc cl from_str read_file env builder connects migrates store = Some (Ok state)"
  obtains cfg where "load from_str (read_file (config_path env)) = Ok cfg"
    and "make_backend uc cl env builder cfg store = Some (Ok (as_backend state))"
    and "env (asc ''WEBHOOK_SECRET'') = Some (webhook_secret state)"
    and "as_allowed_user_ids state = set (allowed_user_ids (ac_server cfg))"
  using assms by (auto simp: main_state_def map_sum_Inr_iff split: sum.splits option.splits if_splits)

datatype http_response = NotFound | JsonBody webhook_response

definition json_say :: "rstr \<Rightarrow> http_response option" where
  "json_say str = map_option JsonBody (say str)"

definition json_say_and_close :: "rstr \<Rightarrow> http_response option" where
  "json_say_and_close str = map_option JsonBody (say_and_close str)"

fun household_response :: "household_reply \<Rightarrow> http_response option" where
  "household_response (Say str) = json_say str"
| "household_response Refuse = json_say_and_close HOUSEHOLD_REFUSAL"
| "household_response (Pairing code) = json_say (cyr ''Kod priwqzki: '' @ code @ cyr ''. Soob}ite ego wladelxcu.'')"
| "household_response Busy = json_say HOUSEHOLD_BUSY"
| "household_response InternalError = json_say PHRASE_INTERNAL_ERROR"

definition utterance_of :: "webhook_request \<Rightarrow> rstr" where
  "utterance_of req = trim (original_utterance (wr_request req))"

definition input_of :: "webhook_request \<Rightarrow> rstr \<Rightarrow> household_input" where
  "input_of req user_id =
     \<lparr>hi_identity = \<lparr>si_user_id = user_id, si_application_id = application_id (wr_session req)\<rparr>,
      hi_utterance = utterance_of req, hi_new_session = ss_new (wr_session req)\<rparr>"

definition webhook :: "(rstr \<Rightarrow> rstr \<Rightarrow> rstr option) \<Rightarrow> (household_input \<Rightarrow> household_reply option) \<Rightarrow>
    's app_state \<Rightarrow> rstr \<Rightarrow> webhook_request \<Rightarrow> http_response option" where
  "webhook handle respond state secret req =
     (if secret \<noteq> webhook_secret state then Some NotFound
      else
        (case as_backend state of
           LegacyBackend _ _ \<Rightarrow>
             (let user_id = (case account_user (wr_session req) of
                               Some u \<Rightarrow> u | None \<Rightarrow> application_id (wr_session req))
              in if as_allowed_user_ids state \<noteq> {} \<and> user_id \<notin> as_allowed_user_ids state
                 then json_say_and_close REFUSAL
                 else if ss_new (wr_session req) \<and> utterance_of req = [] then json_say GREETING
                 else json_say (case handle user_id (utterance_of req) of
                                  Some reply \<Rightarrow> reply | None \<Rightarrow> PHRASE_INTERNAL_ERROR))
         | HouseholdBackend _ _ _ \<Rightarrow>
             (case account_user (wr_session req) of
                None \<Rightarrow> json_say_and_close HOUSEHOLD_REFUSAL
              | Some user_id \<Rightarrow>
                  household_response
                    (case respond (input_of req user_id) of Some reply \<Rightarrow> reply | None \<Rightarrow> InternalError))))"

subsection \<open>What the household engine says fits the protocol\<close>

text \<open>Every text on its way out of the engine is short.\<close>

fun short_phase :: "phase \<Rightarrow> bool" where
  "short_phase (Done (Say str)) = (length str \<le> 900)"
| "short_phase (At (Clear house (Say str))) = (length str \<le> 900)"
| "short_phase _ = True"

lemma short_phrases:
  "length STILL_THINKING \<le> 900" "length (cyr ''Zdrawstwujte. ^em pomo~x?'') \<le> 900" "length (cyr ''Horo{o.'') \<le> 900"
  "length (cyr ''Skavite, prodolvatx?'') \<le> 900"
  by code_simp+

lemma shape_and_save_short:
  assumes "12 < limit" "limit \<le> 900" "shape_and_save limit S h a str s = Some (reply, s')"
  shows "short_phase (Done reply) \<and> short_phase (At (Clear house reply))"
proof -
  from shaper_split_shape [OF assms(1), of str] obtain d ds where
    d: "shaper_split limit str = Some \<lparr>spoken = d @ (if ds = [] then [] else CONTINUATION_SUFFIX), remaining = ds\<rparr>"
      "length d + 12 \<le> limit" by blast
  have "length CONTINUATION_SUFFIX = 12" by code_simp
  then have "length (d @ (if ds = [] then [] else CONTINUATION_SUFFIX)) \<le> 900" using d(2) assms(2) by simp
  with assms(3) d(1) show ?thesis by (auto simp: shape_and_save_def split: prod.splits sum.splits)
qed

lemma answer_short:
  assumes "12 < limit" "limit \<le> 900" "answer_continuation uc limit S h a u cs s = Some (reply, s')"
  shows "short_phase (Done reply)"
  using assms(3)
  by (auto simp: answer_continuation_def short_phrases dest: shape_and_save_short [OF assms(1,2)] split: continuation_decision.splits prod.splits sum.splits)

lemma short_clear: "short_phase (At (Clear house reply)) = short_phase (Done reply)"
  by (cases reply) simp_all

lemma respond_step_short:
  assumes limit: "12 < limit" "limit \<le> 900" and p: "short_phase (At p)"
    and run: "respond_step uc limit S input p s = (ph, s')"
  shows "short_phase ph"
proof (cases p)
  case (Answer house chunks)
  then show ?thesis using run answer_short [OF limit]
    by (auto simp: or_panic_def split: option.splits)
next
  case (Deliver house str)
  then show ?thesis using run
    by (auto simp: or_panic_def dest: shape_and_save_short [OF limit] split: option.splits if_splits)
next
  case (Shape house str)
  then show ?thesis using run
    by (auto simp: or_panic_def dest: shape_and_save_short [OF limit] split: option.splits)
next
  case (Clear house reply)
  then show ?thesis using run p by (auto simp: short_clear split: prod.splits sum.splits)
qed (use run in \<open>auto simp: short_phrases split: prod.splits sum.splits option.splits
      resolve_progress.splits surface_resolution.splits pending_reply.splits\<close>)

definition all_short :: "(nat \<rightharpoonup> household_input \<times> phase) \<Rightarrow> bool" where
  "all_short rs \<longleftrightarrow> (\<forall>r input ph. rs r = Some (input, ph) \<longrightarrow> short_phase ph)"

lemma all_short_upd: "all_short rs \<Longrightarrow> short_phase ph \<Longrightarrow> all_short (rs(r \<mapsto> (input, ph)))"
  by (simp add: all_short_def)

lemma in_time_short: "short_phase (in_time house res)"
  by (cases res) simp_all

lemma engine_step_short:
  assumes "engine_step uc cfg S E e e'" and "all_short (en_requests e)"
    and "12 < chunk_limit cfg" "chunk_limit cfg \<le> 900"
  shows "all_short (en_requests e')"
  using assms(1)
proof cases
  case (store_call r input p ph s')
  then have "short_phase (At p)" using assms(2) by (auto simp: all_short_def)
  then have "short_phase ph" using store_call(3) by (rule respond_step_short [OF assms(3,4)])
  with store_call assms(2) show ?thesis by (simp add: set_phase_def all_short_upd)
next
  case (deadline r input house j)
  with assms(2) show ?thesis by (simp add: set_phase_def all_short_upd)
next
  case (marked r input house j job)
  with assms(2) show ?thesis
    by (auto simp: mark_step_def set_phase_def Let_def short_phrases intro!: all_short_upd split: prod.splits sum.splits)
qed (use assms(2) in \<open>auto simp: step_defs short_phrases in_time_short intro!: all_short_upd
      split: prod.splits sum.splits option.splits work_result.splits\<close>)

lemma reachable_short:
  assumes "engine_reachable uc cfg S E s0 e" and "12 < chunk_limit cfg" "chunk_limit cfg \<le> 900"
  shows "all_short (en_requests e)"
  using assms
proof (induction rule: engine_reachable.induct)
  case start
  show ?case by (simp add: engine_new_def all_short_def)
next
  case (step e e')
  then show ?case using engine_step_short by blast
qed

lemma backend_limit:
  assumes "load from_str file = Ok cfg"
    and "make_backend uc cl env builder cfg store = Some (Ok (HouseholdBackend cipher codex engine_cfg))"
  shows "12 < chunk_limit engine_cfg \<and> chunk_limit engine_cfg \<le> 900"
proof -
  from assms(2) have "rt_mode (ac_runtime cfg) = HouseholdCodex" and "chunk_limit engine_cfg = rt_chunk_limit (ac_runtime cfg)"
    by (auto simp: make_backend_def build_household_engine_def split: runtime_mode.splits option.splits sum.splits if_splits)
  with loaded_valid [OF assms(1)] show ?thesis by (simp add: validate_Ok validate_runtime_Ok)
qed

text \<open>The words of a reply, the pairing code apart.\<close>

fun words_of :: "household_reply \<Rightarrow> rstr" where
  "words_of (Say str) = str"
| "words_of Refuse = HOUSEHOLD_REFUSAL"
| "words_of (Pairing code) = cyr ''Kod priwqzki: '' @ code @ cyr ''. Soob}ite ego wladelxcu.''"
| "words_of Busy = HOUSEHOLD_BUSY"
| "words_of InternalError = PHRASE_INTERNAL_ERROR"

lemma fixed_words_fit:
  "length HOUSEHOLD_REFUSAL \<le> MAX_TEXT_LEN" "length HOUSEHOLD_BUSY \<le> MAX_TEXT_LEN"
  "length PHRASE_INTERNAL_ERROR \<le> MAX_TEXT_LEN" "length (cyr ''Kod priwqzki: '') \<le> 100" "length (cyr ''. Soob}ite ego wladelxcu.'') \<le> 100"
  by code_simp+

lemma build_short:
  "length str \<le> MAX_TEXT_LEN \<Longrightarrow>
     build_response str b = Some \<lparr>wr_response = \<lparr>sr_text = str, sr_tts = Some str, end_session = b\<rparr>, wresp_version = asc ''1.0''\<rparr>"
  by (simp add: build_response_def clip_short)

lemma household_response_words:
  assumes "short_phase (Done reply)" and "\<forall>code. reply = Pairing code \<longrightarrow> length code \<le> 800"
  shows "household_response reply = Some (JsonBody
     \<lparr>wr_response = \<lparr>sr_text = words_of reply, sr_tts = Some (words_of reply), end_session = (reply = Refuse)\<rparr>,
      wresp_version = asc ''1.0''\<rparr>)"
proof -
  have "length (words_of reply) \<le> MAX_TEXT_LEN"
    using assms fixed_words_fit by (cases reply) (auto simp: MAX_TEXT_LEN_def)
  then show ?thesis
    by (cases reply) (simp_all add: json_say_def json_say_and_close_def say_def say_and_close_def build_short)
qed

text \<open>
  C16. In a bridge that \<^verbatim>\<open>main\<close> started, nothing the household engine says is clipped: whatever
  the store, its faults and the interleaving of requests, tasks and clock, the webhook answers a linked account with
  exactly the words of the engine's reply, as text and as speech, and closes the session exactly when it refuses.
  A text of the engine is at most 900 characters, within the limit of 1024. With a secret that is not
  \<^verbatim>\<open>WEBHOOK_SECRET\<close> the answer is that nothing is there.
\<close>

theorem household_replies_not_clipped:
  assumes main: "main_state uc cl from_str read_file env builder connects migrates store = Some (Ok state)"
    and backend: "as_backend state = HouseholdBackend cipher codex engine_cfg"
    and reach: "engine_reachable uc engine_cfg S E s0 e"
    and user: "account_user (wr_session req) = Some user_id"
    and done_: "en_requests e r = Some (input_of req user_id, Done reply)"
    and reply: "respond (input_of req user_id) = Some reply"
    and code: "\<forall>code. reply = Pairing code \<longrightarrow> length code \<le> 800"
  shows "webhook handle respond state secret req =
     (if env (asc ''WEBHOOK_SECRET'') \<noteq> Some secret then Some NotFound
      else Some (JsonBody
        \<lparr>wr_response = \<lparr>sr_text = words_of reply, sr_tts = Some (words_of reply), end_session = (reply = Refuse)\<rparr>,
         wresp_version = asc ''1.0''\<rparr>)) \<and>
     (\<forall>str. reply = Say str \<longrightarrow> length str \<le> 900)"
proof -
  obtain cfg where cfg: "load from_str (read_file (config_path env)) = Ok cfg"
    and made: "make_backend uc cl env builder cfg store = Some (Ok (HouseholdBackend cipher codex engine_cfg))"
    and secret: "env (asc ''WEBHOOK_SECRET'') = Some (webhook_secret state)"
    using main_state_Ok [OF main] backend by metis
  have short: "short_phase (Done reply)"
    using reachable_short [OF reach] backend_limit [OF cfg made] done_ by (auto simp: all_short_def)
  with household_response_words [OF short code] show ?thesis using backend user reply secret by (auto simp: webhook_def)
qed

text \<open>A request that finds the answer to the one before still awaited.\<close>

definition demo_engine_cfg :: household_engine_config where
  "demo_engine_cfg = \<lparr>reply_budget = 2800, chunk_limit = 850, homey_enabled = False\<rparr>"

definition demo_request :: webhook_request where
  "demo_request =
     \<lparr>wr_meta = \<lparr>locale_name = [], timezone = [], client_id = []\<rparr>,
      wr_session = \<lparr>message_id = 0, session_id = [], skill_id = [], ss_new = False, account_user = Some (asc ''u1''),
                    application_id = asc ''a1''\<rparr>,
      wr_request = \<lparr>ur_command = [], original_utterance = cyr ''dalx{e'', ur_kind = SimpleUtterance\<rparr>,
      wr_version = asc ''1.0''\<rparr>"

theorem household_replies_not_clipped_witness:
  "\<exists>state :: conv_tables app_state. webhook (\<lambda>_ _. None) (\<lambda>_. Some (Say STILL_THINKING)) state (replicate 64 97) demo_request =
     Some (JsonBody
       \<lparr>wr_response = \<lparr>sr_text = STILL_THINKING, sr_tts = Some STILL_THINKING, end_session = False\<rparr>,
        wresp_version = asc ''1.0''\<rparr>)"
proof -
  let ?s = "demo_store None (Some Thinking)"
  let ?e = "engine_new ?s"
  have i: "input_of demo_request (asc ''u1'') = demo_input" by code_simp
  have u: "account_user (wr_session demo_request) = Some (asc ''u1'')" by (simp add: demo_request_def)
  have "validate demo_config = Ok ()" by code_simp
  then have l: "load (\<lambda>_. Ok demo_config) (Ok []) = Ok demo_config"
    by (simp add: load_def from_toml_def)
  let ?codex = "\<lparr>socket_path = asc ''/run/codex'', cwd_root = asc ''/srv/houses'',
    permission_profile_prefix = asc ''alice-house-'', codex_homey_enabled = False\<rparr>"
  have "str_len (replicate 64 97) = 64" "codex_runtime_new ?codex = Ok ?codex"
    "codex_config_of (ac_runtime demo_config) = Some ?codex" "build_household_engine demo_config = Ok demo_engine_cfg"
    "rt_mode (ac_runtime demo_config) = HouseholdCodex"
    by code_simp+
  then have b: "make_backend basic_unicode demo_crypto (\<lambda>_. Some (replicate 64 97)) (Ok ()) demo_config pg_store =
      Some (Ok (HouseholdBackend \<lparr>sc_key = replicate 64 97, sc_key_version = 1\<rparr> ?codex demo_engine_cfg))"
    by (simp add: make_backend_def from_hex_def demo_crypto_def KEY_BYTES_def CURRENT_KEY_VERSION_def)
  have run: "run_request 3 basic_unicode (chunk_limit demo_engine_cfg) memory_household_store demo_input (At (Resolve FindBinding)) ?s =
      (Done (Say STILL_THINKING), ?s)"
    using demo_store_resolve [of None "Some Thinking"]
    by (simp add: mem_resolve_step_def eval_nat_numeral memory_household_store_def mem_take_continuation_def mem_poll_pending_def
        demo_store_def demo_house_def demo_input_def)
  have "engine_reachable basic_unicode demo_engine_cfg memory_household_store (=) ?s (set_phase 0 demo_input (At (Resolve FindBinding)) ?e)"
    by (rule engine_reachable.step [OF engine_reachable.start arrive]) (simp add: engine_new_def)
  from reachable_run [OF this, of 3 "Done (Say STILL_THINKING)" ?s] run
  have reach: "engine_reachable basic_unicode demo_engine_cfg memory_household_store (=) ?s
      (set_phase 0 demo_input (Done (Say STILL_THINKING)) (?e\<lparr>en_store := ?s\<rparr>))"
    by (simp add: engine_new_def)
  have "en_requests (set_phase 0 demo_input (Done (Say STILL_THINKING)) (?e\<lparr>en_store := ?s\<rparr>)) 0 =
      Some (demo_input, Done (Say STILL_THINKING))"
    by (simp add: set_phase_def)
  then have r: "en_requests (set_phase 0 demo_input (Done (Say STILL_THINKING)) (?e\<lparr>en_store := ?s\<rparr>)) 0 =
      Some (input_of demo_request (asc ''u1''), Done (Say STILL_THINKING))"
    using i by simp
  let ?backend = "HouseholdBackend \<lparr>sc_key = replicate 64 97, sc_key_version = 1\<rparr> ?codex demo_engine_cfg"
  let ?state = "\<lparr>as_backend = ?backend, webhook_secret = replicate 64 97,
    as_allowed_user_ids = set (allowed_user_ids (ac_server demo_config))\<rparr> :: conv_tables app_state"
  have main: "main_state basic_unicode demo_crypto (\<lambda>_. Ok demo_config) (\<lambda>_. Ok []) (\<lambda>_. Some (replicate 64 97)) (Ok ())
      (\<lambda>_. True) (\<lambda>_. True) pg_store = Some (Ok ?state)"
    using l b by (simp add: main_state_def)
  have backend: "as_backend ?state = ?backend" by simp
  from household_replies_not_clipped [OF main backend reach u r, of "\<lambda>_. Some (Say STILL_THINKING)" "\<lambda>_ _. None" "replicate 64 97"]
  show ?thesis by (intro exI [of _ ?state]) simp
qed

end
