(* ===== verification/Unit_Tests.thy ===== *)
theory Unit_Tests
  imports Prompt Reply House_Engine
begin

section \<open>The unit tests of the core, on the model\<close>

text \<open>
  The tests the crate has beside its code, translated and evaluated on the definitions of the model: the
  spoken commands, the roster, the system prompt, the shaping of replies, the instructions for a house and
  the in-memory household store. \<open>basic_unicode\<close> is the case table; a calendar is computed.
\<close>

text \<open>\<open>unwrap\<close> and what the test does with the value; an error fails the test.\<close>

definition unwrapped :: "'e + 'a \<Rightarrow> ('a \<Rightarrow> bool) \<Rightarrow> bool" where
  "unwrapped r f = (case r of Inl _ \<Rightarrow> False | Inr x \<Rightarrow> f x)"

definition is_none :: "'a option \<Rightarrow> bool" where
  "is_none x = (case x of None \<Rightarrow> True | Some _ \<Rightarrow> False)"

definition some_with :: "'a option \<Rightarrow> ('a \<Rightarrow> bool) \<Rightarrow> bool" where
  "some_with x f = (case x of None \<Rightarrow> False | Some y \<Rightarrow> f y)"

subsection \<open>The calendar\<close>

text \<open>
  The proleptic Gregorian calendar: the number of a day, counted from the first of January 1970, and
  back. The crate promises that a date is its year, month and day, that \<open>years_since\<close> counts completed
  years, and that a date prints as \<^verbatim>\<open>YYYY-MM-DD\<close>.
\<close>

definition from_ymd :: "int \<Rightarrow> int \<Rightarrow> int \<Rightarrow> naive_date" where
  "from_ymd y m d =
     (let y' = (if m \<le> 2 then y - 1 else y); era = y' div 400; yoe = y' mod 400;
          doy = (153 * ((m + 9) mod 12) + 2) div 5 + d - 1
      in era * 146097 + yoe * 365 + yoe div 4 - yoe div 100 + doy - 719468)"

definition to_ymd :: "naive_date \<Rightarrow> int \<times> int \<times> int" where
  "to_ymd n =
     (let n' = n + 719468; era = n' div 146097; doe = n' mod 146097;
          yoe = (doe - doe div 1460 + doe div 36524 - doe div 146096) div 365;
          doy = doe - (365 * yoe + yoe div 4 - yoe div 100);
          mp = (5 * doy + 2) div 153; d = doy - (153 * mp + 2) div 5 + 1;
          m = (if mp < 10 then mp + 3 else mp - 9)
      in (yoe + era * 400 + (if m \<le> 2 then 1 else 0), m, d))"

text \<open>The last \<open>w\<close> decimal digits.\<close>

fun digits :: "nat \<Rightarrow> int \<Rightarrow> rstr" where
  "digits 0 n = []"
| "digits (Suc w) n = digits w (n div 10) @ [48 + n mod 10]"

definition gregorian :: calendar where
  "gregorian =
     \<lparr>years_since = (\<lambda>a b. case to_ymd a of (y, m, d) \<Rightarrow> case to_ymd b of (y2, m2, d2) \<Rightarrow>
        (let years = y - y2 - (if m < m2 \<or> (m = m2 \<and> d < d2) then 1 else 0)
         in if years < 0 then None else Some (nat years))),
      show_date = (\<lambda>n. case to_ymd n of (y, m, d) \<Rightarrow> digits 4 y @ [45] @ digits 2 m @ [45] @ digits 2 d),
      first_of_month = (\<lambda>n. case to_ymd n of (y, m, d) \<Rightarrow> from_ymd y m 1)\<rparr>"

subsection \<open>\<^verbatim>\<open>command.rs\<close>\<close>

definition cmd_roster :: "(family_roster, core_error) result" where
  "cmd_roster = roster_new
     [\<lparr>pf_name = (cyr ''Dima''), pf_aliases = [(cyr ''dima''), (cyr ''papa'')], pf_birthday = None, pf_role = Adult, pf_persona = []\<rparr>,
      \<lparr>pf_name = (cyr ''Ma{a''), pf_aliases = [(cyr ''ma{a'')], pf_birthday = None, pf_role = Child, pf_persona = []\<rparr>] ((cyr ''Dima''))"

definition cmd_modes :: "mode list" where
  "cmd_modes = [\<lparr>md_name = asc ''fairy_tale'', md_triggers = [(cyr ''rasskavi skazku''), (cyr ''skazka'')],
                 md_prompt = (cyr ''Rasskavi korotku` dobru` skazku.'')\<rparr>]"

definition parse_one :: "rstr \<Rightarrow> parsed option" where
  "parse_one utterance = (case cmd_roster of Inl _ \<Rightarrow> None | Inr roster \<Rightarrow> Some (parse basic_unicode utterance roster cmd_modes))"

definition normalizes_text :: bool where
  "normalizes_text \<longleftrightarrow> normalize basic_unicode ((cyr ''Priwet, Alisa! $lki-palki.'')) = (cyr ''priwet alisa elki palki'')"

definition recognizes_introductions :: bool where
  "recognizes_introductions \<longleftrightarrow> list_all (\<lambda>phrase. parse_one phrase = Some (ParsedCommand (Introduce ((cyr ''Ma{a'')))))
     [(cyr ''|to Ma{a''), (cyr ''q ma{a''), (cyr ''menq zowut Ma{a''), (cyr ''goworit ma{a'')]"

definition introduction_with_unknown_name_goes_to_llm :: bool where
  "introduction_with_unknown_name_goes_to_llm \<longleftrightarrow>
     (case parse_one ((cyr ''|to Wasq'')) of Some (Ask _ _) \<Rightarrow> True | _ \<Rightarrow> False)"

definition recognizes_forget :: bool where
  "recognizes_forget \<longleftrightarrow> list_all (\<lambda>phrase. parse_one phrase = Some (ParsedCommand Forget))
     [(cyr ''zabudx''), (cyr ''zabudx ws#''), (cyr ''sbrosx kontekst''), (cyr ''na~ni sna~ala'')]"

definition recognizes_window_size :: bool where
  "recognizes_window_size \<longleftrightarrow> parse_one ((cyr ''pomni poslednie 5 replik'')) = Some (ParsedCommand (SetWindow 5))"

definition recognizes_model_switching :: bool where
  "recognizes_model_switching \<longleftrightarrow>
     parse_one ((cyr ''perekl`~isx na umnu` modelx'')) = Some (ParsedCommand UseSmartModel) \<and>
     parse_one ((cyr ''smeni modelx na bystru`'')) = Some (ParsedCommand UseFastModel)"

definition recognizes_stats_whoami_help_exit :: bool where
  "recognizes_stats_whoami_help_exit \<longleftrightarrow>
     parse_one ((cyr ''skolxko my potratili'')) = Some (ParsedCommand UsageStats) \<and>
     parse_one ((cyr ''kto q'')) = Some (ParsedCommand WhoAmI) \<and>
     parse_one ((cyr ''pomo}x'')) = Some (ParsedCommand Help) \<and>
     parse_one ((cyr ''wyjdi iz revima'')) = Some (ParsedCommand ExitMode)"

definition recognizes_mode_triggers :: bool where
  "recognizes_mode_triggers \<longleftrightarrow>
     parse_one ((cyr ''Rasskavi skazku pro kota'')) = Some (ParsedCommand (EnterMode (asc ''fairy_tale'')))"

definition think_hard_prefix_upgrades_model :: bool where
  "think_hard_prefix_upgrades_model \<longleftrightarrow>
     parse_one ((cyr ''podumaj kak sleduet po~emu nebo sinee'')) = Some (Ask ((cyr ''po~emu nebo sinee'')) True)"

definition plain_question_goes_to_llm :: bool where
  "plain_question_goes_to_llm \<longleftrightarrow>
     parse_one ((cyr ''Po~emu trawa zel#naq?'')) = Some (Ask ((cyr ''Po~emu trawa zel#naq?'')) False)"

definition empty_utterance_maps_to_help :: bool where
  "empty_utterance_maps_to_help \<longleftrightarrow> parse_one (asc ''  '') = Some (ParsedCommand Help)"

lemma command_tests_pass:
  normalizes_text recognizes_introductions introduction_with_unknown_name_goes_to_llm recognizes_forget
  recognizes_model_switching recognizes_stats_whoami_help_exit recognizes_mode_triggers
  think_hard_prefix_upgrades_model plain_question_goes_to_llm empty_utterance_maps_to_help
  by code_simp+

lemma recognizes_window_size_passes: recognizes_window_size
proof -
  let ?norm = "(cyr ''pomni poslednie 5 replik'')"
  have p: "normalize basic_unicode ?norm = ?norm" "?norm \<noteq> []" "phrase_command ?norm = None"
    "starts_with ?norm ((cyr ''pomni poslednie''))"
    "split_whitespace ?norm = [(cyr ''pomni''), (cyr ''poslednie''), [53], (cyr ''replik'')]"
    "map_option (\<lambda>r. introduction basic_unicode r ?norm intro_prefixes) (case cmd_roster of Inl _ \<Rightarrow> None | Inr r \<Rightarrow> Some r) = Some None"
    "parse_usize ((cyr ''pomni'')) = None" "parse_usize ((cyr ''poslednie'')) = None"
    by code_simp+
  then obtain roster where r: "cmd_roster = Ok roster" "introduction basic_unicode roster ?norm intro_prefixes = None"
    by (auto split: sum.splits)
  have "parse_usize [53] = Some 5"
    by (simp add: parse_usize_def parse_digits_def digits_value_def is_ascii_digit_def usize_max_def)
  then have "window_command ?norm = Some 5" using p by (simp add: window_command_def)
  with p(1-3) r(2) show ?thesis
    unfolding recognizes_window_size_def parse_one_def r(1) by (simp add: parse_def command_of_def)
qed

subsection \<open>\<^verbatim>\<open>profile.rs\<close>\<close>

definition masha :: profile where
  "masha = \<lparr>pf_name = (cyr ''Ma{a''), pf_aliases = [(cyr ''ma{a''), (cyr ''do~x'')], pf_birthday = Some (from_ymd 2016 9 2),
            pf_role = Child, pf_persona = (cyr ''Do~x Ma{a.'')\<rparr>"

definition dima :: profile where
  "dima = \<lparr>pf_name = (cyr ''Dima''), pf_aliases = [(cyr ''dima''), (cyr ''papa'')], pf_birthday = Some (from_ymd 1985 3 10),
           pf_role = Adult, pf_persona = []\<rparr>"

definition age_counts_completed_years :: bool where
  "age_counts_completed_years \<longleftrightarrow>
     age_on (years_since gregorian) masha (from_ymd 2026 9 1) = Some 9 \<and>
     age_on (years_since gregorian) masha (from_ymd 2026 9 2) = Some 10"

definition age_is_none_without_birthday :: bool where
  "age_is_none_without_birthday \<longleftrightarrow>
     age_on (years_since gregorian) (masha\<lparr>pf_birthday := None\<rparr>) (from_ymd 2026 1 1) = None"

definition roster_finds_by_alias_and_name :: bool where
  "roster_finds_by_alias_and_name \<longleftrightarrow> unwrapped (roster_new [dima, masha] ((cyr ''Dima''))) (\<lambda>roster.
     map_option pf_name (find_by_alias basic_unicode roster ((cyr ''do~x''))) = Some ((cyr ''Ma{a'')) \<and>
     map_option pf_name (find_by_alias basic_unicode roster ((cyr ''ma{a''))) = Some ((cyr ''Ma{a'')) \<and>
     map_option pf_name (find_by_alias basic_unicode roster ((cyr ''dima''))) = Some ((cyr ''Dima'')) \<and>
     is_none (find_by_alias basic_unicode roster ((cyr ''neznakomec''))) \<and>
     map_option pf_name (roster_get roster ((cyr ''Ma{a''))) = Some ((cyr ''Ma{a'')) \<and>
     map_option pf_name (roster_default_profile roster) = Some ((cyr ''Dima'')))"

definition roster_rejects_unknown_default :: bool where
  "roster_rejects_unknown_default \<longleftrightarrow>
     (case roster_new [dima] ((cyr ''Wasq'')) of Inl (UnknownProfile _) \<Rightarrow> True | Inr _ \<Rightarrow> False)"

lemma profile_tests_pass:
  age_counts_completed_years age_is_none_without_birthday roster_finds_by_alias_and_name
  roster_rejects_unknown_default
  by code_simp+

subsection \<open>\<^verbatim>\<open>prompt.rs\<close>\<close>

definition prompt_roster :: "(family_roster, core_error) result" where
  "prompt_roster = roster_new
     [\<lparr>pf_name = (cyr ''Dima''), pf_aliases = [(cyr ''dima'')], pf_birthday = Some (from_ymd 1985 3 10), pf_role = Adult,
       pf_persona = (cyr ''Ob}ajsq na rawnyh.'')\<rparr>,
      \<lparr>pf_name = (cyr ''Ma{a''), pf_aliases = [(cyr ''ma{a'')], pf_birthday = Some (from_ymd 2016 9 2), pf_role = Child,
       pf_persona = (cyr ''Do~x Ma{a.'')\<rparr>] ((cyr ''Dima''))"

definition prompt_of :: "rstr \<Rightarrow> mode option \<Rightarrow> rstr option \<Rightarrow> rstr option" where
  "prompt_of name mode summary =
     (case prompt_roster of
        Inl _ \<Rightarrow> None
      | Inr roster \<Rightarrow> map_option (\<lambda>p. build_system_prompt gregorian
          \<lparr>pc_today = from_ymd 2026 7 11, pc_profile = p, pc_roster = roster, pc_mode = mode, pc_summary = summary\<rparr>)
          (roster_get roster name))"

text \<open>The text is there, with one of each of the first lists and none of the second.\<close>

fun has_parts :: "rstr option \<Rightarrow> rstr list list \<Rightarrow> rstr list \<Rightarrow> bool" where
  "has_parts None ps qs = False"
| "has_parts (Some str) [] qs = list_all (\<lambda>q. \<not> str_contains str q) qs"
| "has_parts (Some str) (p # ps) qs = (list_ex (str_contains str) p \<and> has_parts (Some str) ps qs)"

lemma str_contains_start: "starts_with s p \<Longrightarrow> str_contains s p"
  by (cases s) (auto simp: starts_with_def)

definition adult_prompt_contains_basics :: bool where
  "adult_prompt_contains_basics \<longleftrightarrow> has_parts (prompt_of ((cyr ''Dima'')) None None)
     [[(cyr ''golosowoj pomo}nik'')], [(cyr ''Segodnq 2026-07-11'')], [(cyr ''Dima'')], [asc ''41''], [(cyr ''Ob}ajsq na rawnyh.'')],
      [(cyr ''Ma{a (denx rovdeniq 2016-09-02)'')]] [(cyr ''reben'')]"

definition child_prompt_adds_safety_block :: bool where
  "child_prompt_adds_safety_block \<longleftrightarrow>
     has_parts (prompt_of ((cyr ''Ma{a'')) None None) [[(cyr ''rebenok''), (cyr ''reb#nok'')], [asc ''9'']] []"

definition mode_and_summary_are_appended :: bool where
  "mode_and_summary_are_appended \<longleftrightarrow> has_parts
     (prompt_of ((cyr ''Dima'')) (Some \<lparr>md_name = asc ''fairy_tale'', md_triggers = [], md_prompt = (cyr ''Rasskazywaj skazki.'')\<rparr>)
       (Some ((cyr ''Obsuvdali Mars.''))))
     [[(cyr ''Rasskazywaj skazki.'')], [(cyr ''Obsuvdali Mars.'')]] []"

lemma prompt_tests_pass:
  adult_prompt_contains_basics child_prompt_adds_safety_block mode_and_summary_are_appended
  by code_simp+

subsection \<open>\<^verbatim>\<open>reply.rs\<close>\<close>

text \<open>\<open>str::trim_end_matches\<close> with a string: the suffix is removed as often as it is there.\<close>

definition ends_with :: "rstr \<Rightarrow> rstr \<Rightarrow> bool" where
  "ends_with s p \<longleftrightarrow> starts_with (rev s) (rev p)"

lemma ends_with_iff: "ends_with s p \<longleftrightarrow> (\<exists>t. s = t @ p)"
proof
  assume "ends_with s p"
  then have "take (length p) (rev s) = rev p" by (simp add: ends_with_def starts_with_def)
  then have "rev s = rev p @ drop (length p) (rev s)" by (metis append_take_drop_id)
  then have "s = rev (drop (length p) (rev s)) @ p" by (metis rev_append rev_rev_ident)
  then show "\<exists>t. s = t @ p" by blast
qed (auto simp: ends_with_def starts_with_def)

function trim_end_str :: "rstr \<Rightarrow> rstr \<Rightarrow> rstr" where
  "trim_end_str p s = (if p \<noteq> [] \<and> ends_with s p then trim_end_str p (take (length s - length p) s) else s)"
  by pat_completeness auto

termination
  by (relation "measure (\<lambda>(p, s). length s)") (auto simp: ends_with_iff)

declare trim_end_str.simps [simp del]

definition long_reply :: rstr where
  "long_reply = replicate 700 1040 @ [32] @ replicate 300 1041"

definition long_reply_preserves_text_and_stays_under_limit :: bool where
  "long_reply_preserves_text_and_stays_under_limit \<longleftrightarrow>
     some_with (Option.bind (reply_shaper_new 850) (\<lambda>limit. shaper_split limit long_reply)) (\<lambda>shaped.
       ends_with (spoken shaped) CONTINUATION_SUFFIX \<and> length (spoken shaped) \<le> 850 \<and>
       trim_end_str CONTINUATION_SUFFIX (spoken shaped) @ concat (remaining shaped) = long_reply)"

definition explicit_refusal_stops_but_any_other_word_continues :: bool where
  "explicit_refusal_stops_but_any_other_word_continues \<longleftrightarrow>
     list_all (\<lambda>v. from_utterance basic_unicode v = Stop)
       [(cyr ''net''), (cyr ''Ne nado!''), (cyr ''ne prodolvaj''), (cyr ''hwatit''), (cyr ''stop''), (cyr ''otmena'')] \<and>
     from_utterance basic_unicode ((cyr ''aga'')) = Continue \<and>
     from_utterance basic_unicode ((cyr ''wkl`~i swet'')) = Continue \<and>
     from_utterance basic_unicode (asc ''   '') = Empty"

text \<open>The text of a thousand characters is not evaluated: what the shaper gives is known by its lemmas.\<close>

lemma trim_end_str_once:
  assumes "p \<noteq> []" and "last p \<notin> set s"
  shows "trim_end_str p (s @ p) = s"
proof -
  have "\<not> ends_with s p"
  proof
    assume "ends_with s p"
    then obtain t where "s = t @ p" by (auto simp: ends_with_iff)
    then have "last p \<in> set s" using assms(1) by simp
    with assms(2) show False ..
  qed
  then have "trim_end_str p s = s" by (simp add: trim_end_str.simps)
  moreover have "ends_with (s @ p) p" by (auto simp: ends_with_iff)
  ultimately show ?thesis using assms(1) by (subst trim_end_str.simps) simp
qed

lemma long_reply_passes: long_reply_preserves_text_and_stays_under_limit
proof -
  have suffix: "CONTINUATION_SUFFIX \<noteq> []" "last CONTINUATION_SUFFIX = 63" "length CONTINUATION_SUFFIX = 12"
    by code_simp+
  have "12 < (850 :: nat)" by simp
  from shaper_split_shape [OF this, of long_reply] obtain d ds where
    split: "shaper_split 850 long_reply = Some \<lparr>spoken = d @ (if ds = [] then [] else CONTINUATION_SUFFIX), remaining = ds\<rparr>"
    and d: "d @ concat ds = long_reply" "length d + 12 \<le> 850" "ds = [] \<longleftrightarrow> length long_reply + 12 \<le> 850" by blast
  have "ds \<noteq> []" using d(3) by (simp add: long_reply_def)
  moreover have "last CONTINUATION_SUFFIX \<notin> set d"
  proof -
    have "63 \<notin> set long_reply" by (simp add: long_reply_def)
    then show ?thesis using d(1) suffix(2) by (metis UnI1 set_append)
  qed
  moreover have "reply_shaper_new 850 = Some 850" by simp
  ultimately show ?thesis
    using d(1,2) suffix(3) trim_end_str_once [OF suffix(1), of d]
    by (simp only: long_reply_preserves_text_and_stays_under_limit_def Option.bind.bind_lunit split) (simp add: some_with_def ends_with_iff)
qed

lemma explicit_refusal_passes: explicit_refusal_stops_but_any_other_word_continues
  by code_simp

subsection \<open>\<^verbatim>\<open>house_store.rs\<close>, on the in-memory store\<close>

text \<open>The builder calls of the tests in a row; \<open>None\<close> is the panic of one of them.\<close>

definition two_phones :: "household_inner option" where
  "two_phones =
     Option.bind (mem_member 1 (asc ''OWNER'') (mem_house 1 ((cyr ''Dom mamy'')) (Some (asc ''thread-1'')) (asc ''homey-mother'') mem_fixture)) (\<lambda>s.
     Option.bind (mem_member 1 (asc ''MOTHER'') s) (\<lambda>s.
     Option.bind (mem_surface 1 (asc ''OWNER'') (asc ''owner-phone'') s) (\<lambda>s.
     mem_surface 1 (asc ''MOTHER'') (asc ''mother-station'') s)))"

definition resolved :: "household_inner \<Rightarrow> rstr \<Rightarrow> rstr \<Rightarrow> (surface_resolution, household_store_error) result" where
  "resolved s user app = fst (mem_resolve_surface \<lparr>si_user_id = user, si_application_id = app\<rparr> s)"

fun pairing_offered :: "(surface_resolution, household_store_error) result \<Rightarrow> bool" where
  "pairing_offered (Inr (PairingRequired code)) = (str_len code = 6)"
| "pairing_offered r = False"

definition two_accounts_and_surfaces_resolve_to_one_thread :: bool where
  "two_accounts_and_surfaces_resolve_to_one_thread \<longleftrightarrow> some_with two_phones (\<lambda>s.
     list_all (\<lambda>(user, app). case resolved s user app of
         Inr (Bound house) \<Rightarrow> hc_id house = 1 \<and> codex_thread_id house = Some (asc ''thread-1'')
       | _ \<Rightarrow> False)
       [(asc ''OWNER'', asc ''owner-phone''), (asc ''MOTHER'', asc ''mother-station'')])"

definition known_member_can_pair_but_stranger_learns_nothing_about_house :: bool where
  "known_member_can_pair_but_stranger_learns_nothing_about_house \<longleftrightarrow>
     some_with (mem_member 1 (asc ''MOTHER'') (mem_house 1 ((cyr ''Dom mamy'')) None (asc ''homey-mother'') mem_fixture)) (\<lambda>s.
       pairing_offered (resolved s (asc ''MOTHER'') (asc ''new-station'')) \<and>
       resolved s (asc ''STRANGER'') (asc ''new-station'') = Ok Unauthorized)"

definition two_houses :: household_inner where
  "two_houses = mem_house 2 ((cyr ''Wtoroj'')) None (asc ''homey-2'') (mem_house 1 ((cyr ''Perwyj'')) None (asc ''homey-1'') mem_fixture)"

definition application_cannot_be_attached_to_two_houses :: bool where
  "application_cannot_be_attached_to_two_houses \<longleftrightarrow> is_none (
     Option.bind (mem_member 1 (asc ''OWNER'') two_houses) (\<lambda>s.
     Option.bind (mem_member 2 (asc ''MOTHER'') s) (\<lambda>s.
     Option.bind (mem_surface 1 (asc ''OWNER'') (asc ''shared-station'') s) (\<lambda>s.
     mem_surface 2 (asc ''MOTHER'') (asc ''shared-station'') s))))"

definition multi_house_account_gets_neutral_pairing_instead_of_naming_a_house :: bool where
  "multi_house_account_gets_neutral_pairing_instead_of_naming_a_house \<longleftrightarrow>
     some_with (Option.bind (mem_member 1 (asc ''OWNER'') two_houses) (mem_member 2 (asc ''OWNER''))) (\<lambda>s.
       pairing_offered (resolved s (asc ''OWNER'') (asc ''new-station'')))"

lemma house_store_tests_pass:
  two_accounts_and_surfaces_resolve_to_one_thread known_member_can_pair_but_stranger_learns_nothing_about_house
  application_cannot_be_attached_to_two_houses multi_house_account_gets_neutral_pairing_instead_of_naming_a_house
  by code_simp+

end
