(* ===== verification/Unit_Tests_Stores.thy ===== *)
theory Unit_Tests_Stores
  imports Unit_Tests Admin Assemble
begin

section \<open>The unit tests of the stores and the server, on the model\<close>

text \<open>
  The tests beside \<^verbatim>\<open>pending.rs\<close>, the in-memory conversation store of \<^verbatim>\<open>testing.rs\<close>, \<^verbatim>\<open>store_pg.rs\<close>,
  \<^verbatim>\<open>config.rs\<close>, \<^verbatim>\<open>assemble.rs\<close>, \<^verbatim>\<open>state_crypto.rs\<close> and \<^verbatim>\<open>bridge-admin.rs\<close>. A TOML text of the tests is
  the record it parses to.
\<close>

subsection \<open>\<^verbatim>\<open>pending.rs\<close>\<close>

definition ready_answer_is_returned_once :: bool where
  "ready_answer_is_returned_once \<longleftrightarrow>
     (let m = pending_complete (asc ''u1'') ((cyr ''otwet'')) (pending_mark_thinking 0 (asc ''u1'') Map.empty)
      in case pending_poll 0 (asc ''u1'') m of
           (p, m') \<Rightarrow> p = PollAnswer ((cyr ''otwet'')) \<and> fst (pending_poll 0 (asc ''u1'') m') = PollNone)"

definition thinking_reports_still_thinking :: bool where
  "thinking_reports_still_thinking \<longleftrightarrow>
     (case pending_poll 0 (asc ''u1'') (pending_mark_thinking 0 (asc ''u1'') Map.empty) of
        (p, m) \<Rightarrow> p = StillThinking \<and> fst (pending_poll 0 (asc ''u2'') m) = PollNone)"

definition complete_without_waiter_is_dropped :: bool where
  "complete_without_waiter_is_dropped \<longleftrightarrow>
     fst (pending_poll 0 (asc ''u1'') (pending_complete (asc ''u1'') ((cyr ''pozdno''))
       (pending_clear (asc ''u1'') (pending_mark_thinking 0 (asc ''u1'') Map.empty)))) = PollNone"

definition stale_thinking_expires :: bool where
  "stale_thinking_expires \<longleftrightarrow>
     fst (pending_poll (121 * 10 ^ 9) (asc ''u1'') (pending_mark_thinking 0 (asc ''u1'') Map.empty)) = PollNone"

lemma pending_tests_pass:
  ready_answer_is_returned_once thinking_reports_still_thinking complete_without_waiter_is_dropped stale_thinking_expires
  by code_simp+

subsection \<open>The conversation stores\<close>

text \<open>A call that must succeed, and what follows it.\<close>

definition run :: "('s, 'r) conv_op \<Rightarrow> ('r \<Rightarrow> 's \<Rightarrow> bool) \<Rightarrow> 's \<Rightarrow> bool" where
  "run operation k s = (case operation s of (Inl _, _) \<Rightarrow> False | (Inr r, s') \<Rightarrow> k r s')"

definition exchange :: "rstr \<Rightarrow> nat \<Rightarrow> exchange_record" where
  "exchange profile n =
     \<lparr>er_profile = profile, er_user_text = (cyr ''wopros '') @ show_nat n, er_assistant_text = (cyr ''otwet '') @ show_nat n,
      er_model = asc ''test-model'', er_prompt_tokens = 10, er_completion_tokens = 20, er_cost_micros = 100\<rparr>"

fun run_all :: "('s, unit) conv_op list \<Rightarrow> ('s \<Rightarrow> bool) \<Rightarrow> 's \<Rightarrow> bool" where
  "run_all [] k s = k s"
| "run_all (f # fs) k s = run f (\<lambda>_. run_all fs k) s"

definition dima_name :: rstr where "dima_name = (cyr ''Dima'')"
definition masha_name :: rstr where "masha_name = (cyr ''Ma{a'')"

definition recent_are :: "stored_message list \<Rightarrow> bool" where
  "recent_are recent \<longleftrightarrow> length recent = 4 \<and> sm_role (recent ! 0) = RoleUser \<and>
     sm_content (recent ! 0) = (cyr ''wopros 2'') \<and> sm_content (recent ! 3) = (cyr ''otwet 3'')"

definition mem_records_and_reads_recent_messages :: bool where
  "mem_records_and_reads_recent_messages \<longleftrightarrow>
     run_all (map (\<lambda>n. mem_record_exchange (exchange dima_name n)) [1, 2, 3])
       (run (mem_recent_messages dima_name 4) (\<lambda>recent.
          run (mem_recent_messages masha_name 10) (\<lambda>none s. recent_are recent \<and> none = []))) (memory_new 0)"

definition mem_summary_roundtrip_and_unsummarized :: bool where
  "mem_summary_roundtrip_and_unsummarized \<longleftrightarrow>
     run_all (map (\<lambda>n. mem_record_exchange (exchange dima_name n)) [1, 2, 3, 4])
       (run (mem_unsummarized dima_name 4) (\<lambda>pending.
          run (mem_upsert_summary dima_name \<lparr>su_content = (cyr ''rez`me''), covers_until_message_id = fst (last pending)\<rparr>) (\<lambda>_.
          run (mem_summary dima_name) (\<lambda>su.
          run (mem_unsummarized dima_name 4) (\<lambda>after s.
            length pending = 4 \<and> sm_content (snd (pending ! 0)) = (cyr ''wopros 1'') \<and>
            map_option su_content su = Some ((cyr ''rez`me'')) \<and> after = []))))) (memory_new 0)"

definition mem_usage_counts_assistant_replies :: bool where
  "mem_usage_counts_assistant_replies \<longleftrightarrow>
     run_all [mem_record_exchange (exchange dima_name 1), mem_record_exchange (exchange masha_name 2)]
       (run (mem_usage_since (- 3600)) (\<lambda>stats. run (mem_usage_since 3600) (\<lambda>none s.
          us_requests stats = 2 \<and> us_cost_micros stats = 200 \<and> us_requests none = 0))) (memory_new 0)"

definition mem_clear_profile_removes_history_and_summary :: bool where
  "mem_clear_profile_removes_history_and_summary \<longleftrightarrow>
     run_all [mem_record_exchange (exchange dima_name 1),
              mem_upsert_summary dima_name \<lparr>su_content = asc ''s'', covers_until_message_id = 1\<rparr>,
              mem_clear_profile dima_name]
       (run (mem_recent_messages dima_name 10) (\<lambda>recent. run (mem_summary dima_name) (\<lambda>su s.
          recent = [] \<and> is_none su))) (memory_new 0)"

text \<open>What four exchanges leave, for the test that is not evaluated as a whole.\<close>

definition rows_of :: "nat \<Rightarrow> memory_row list" where
  "rows_of n =
     [\<lparr>row_id = 2 * int n - 1, row_profile = dima_name, row_role = RoleUser, row_content = er_user_text (exchange dima_name n),
       row_cost = 0, row_created = 0\<rparr>,
      \<lparr>row_id = 2 * int n, row_profile = dima_name, row_role = RoleAssistant,
       row_content = er_assistant_text (exchange dima_name n), row_cost = 100, row_created = 0\<rparr>]"

lemma four_exchanges:
  "run_all (map (\<lambda>n. mem_record_exchange (exchange dima_name n)) [1, 2, 3, 4]) k (memory_new 0) =
   k \<lparr>ms_rows = rows_of 1 @ rows_of 2 @ rows_of 3 @ rows_of 4, ms_summaries = Map.empty, ms_next_id = 8, ms_now = 0\<rparr>"
  by (simp add: run_def mem_record_exchange_def push_row_def memory_new_def rows_of_def exchange_def)

lemma mem_summary_roundtrip_passes: mem_summary_roundtrip_and_unsummarized
proof -
  have "er_user_text (exchange dima_name 1) = (cyr ''wopros 1'')" by code_simp
  then show ?thesis
    unfolding mem_summary_roundtrip_and_unsummarized_def four_exchanges
    by (simp add: run_def rows_of_def mem_unsummarized_def mem_upsert_summary_def mem_summary_def drop_last_def Let_def message_of_def)
qed
lemma memory_store_tests_pass:
  mem_records_and_reads_recent_messages mem_usage_counts_assistant_replies mem_clear_profile_removes_history_and_summary
  by code_simp+

definition tables_new :: conv_tables where
  "tables_new = \<lparr>ct_messages = [], ct_summaries = Map.empty, ct_next_id = 1, ct_now = 0, ct_faults = []\<rparr>"

definition pg_records_and_reads_recent_messages :: bool where
  "pg_records_and_reads_recent_messages \<longleftrightarrow>
     run_all (map (\<lambda>n. pgc_record_exchange (exchange dima_name n)) [1, 2, 3])
       (run (pgc_recent_messages dima_name 4) (\<lambda>recent s. recent_are recent)) tables_new"

definition pg_summary_roundtrip_and_unsummarized :: bool where
  "pg_summary_roundtrip_and_unsummarized \<longleftrightarrow>
     run_all (map (\<lambda>n. pgc_record_exchange (exchange dima_name n)) [1, 2, 3, 4])
       (run (pgc_unsummarized dima_name 4) (\<lambda>pending.
          run (pgc_upsert_summary dima_name \<lparr>su_content = (cyr ''rez`me''), covers_until_message_id = fst (last pending)\<rparr>) (\<lambda>_.
          run (pgc_summary dima_name) (\<lambda>su.
          run (pgc_unsummarized dima_name 4) (\<lambda>after.
          run (pgc_upsert_summary dima_name \<lparr>su_content = (cyr ''nowoe''), covers_until_message_id = fst (last pending)\<rparr>) (\<lambda>_.
          run (pgc_summary dima_name) (\<lambda>su2 s.
            length pending = 4 \<and> map_option su_content su = Some ((cyr ''rez`me'')) \<and> after = [] \<and>
            map_option su_content su2 = Some ((cyr ''nowoe''))))))))) tables_new"

definition pg_usage_and_clear :: bool where
  "pg_usage_and_clear \<longleftrightarrow>
     run_all [pgc_record_exchange (exchange dima_name 1), pgc_record_exchange (exchange masha_name 2)]
       (run (pgc_usage_since (- 3600)) (\<lambda>stats.
          run (pgc_clear_profile dima_name) (\<lambda>_.
          run (pgc_recent_messages dima_name 10) (\<lambda>gone.
          run (pgc_recent_messages masha_name 10) (\<lambda>kept s.
            us_requests stats = 2 \<and> us_cost_micros stats = 200 \<and> gone = [] \<and> length kept = 2))))) tables_new"

lemma pg_store_tests_pass:
  pg_records_and_reads_recent_messages pg_summary_roundtrip_and_unsummarized pg_usage_and_clear
  by code_simp+

subsection \<open>\<^verbatim>\<open>config.rs\<close>\<close>

text \<open>The bits of the prices 0.27, 1.10, 0.55 and 2.19.\<close>

definition sample_preset :: "rstr \<Rightarrow> rstr \<Rightarrow> nat \<Rightarrow> nat \<Rightarrow> nat \<Rightarrow> model_preset_config" where
  "sample_preset provider model max_tokens input output =
     \<lparr>mc_provider = provider, mc_model = model, mc_max_tokens = max_tokens, mc_temperature = default_temperature,
      mc_input_price = input, mc_output_price = output\<rparr>"

definition sample :: "rstr \<Rightarrow> rstr \<Rightarrow> runtime_config \<Rightarrow> app_config" where
  "sample profile provider runtime =
     \<lparr>ac_runtime = runtime,
      ac_server = \<lparr>listen = asc ''127.0.0.1:8080'', allowed_user_ids = [asc ''USER1'']\<rparr>,
      ac_defaults = \<lparr>df_profile = profile, df_context_window = default_context_window,
        reply_budget_ms = default_reply_budget_ms, provider_timeout_secs = default_provider_timeout_secs,
        df_utc_offset_hours = default_utc_offset_hours\<rparr>,
      ac_providers = [(asc ''deepseek'', \<lparr>base_url = asc ''https://api.deepseek.com/v1'', api_key_env = asc ''TEST_DEEPSEEK_KEY''\<rparr>)],
      ac_models = \<lparr>mc_fast = sample_preset provider (asc ''deepseek-chat'') 300 4598535507515466056 4607632778762754458,
                    mc_smart = sample_preset provider (asc ''deepseek-reasoner'') 400 4603129179135383962 4612113860391988101\<rparr>,
      ac_profiles = [\<lparr>pc_name = (cyr ''Dima''), pc_aliases = [(cyr ''dima'')], pc_birthday = Some (from_ymd 1985 3 10),
                      pc_role_name = asc ''adult'', pc_persona = (cyr ''Ob}ajsq na rawnyh.'')\<rparr>],
      ac_modes = [\<lparr>moc_name = asc ''fairy_tale'', moc_triggers = [(cyr ''rasskavi skazku'')], moc_prompt = (cyr ''Rasskazywaj skazki.'')\<rparr>]\<rparr>"

definition parse_config :: "app_config \<Rightarrow> (app_config, config_error) result" where
  "parse_config cfg = from_toml (\<lambda>_. Ok cfg) []"

definition parses_full_config_with_defaults :: bool where
  "parses_full_config_with_defaults \<longleftrightarrow>
     unwrapped (parse_config (sample ((cyr ''Dima'')) (asc ''deepseek'') runtime_config_default)) (\<lambda>config.
       rt_mode (ac_runtime config) = Legacy \<and> df_context_window (ac_defaults config) = 12 \<and>
       reply_budget_ms (ac_defaults config) = 2800 \<and> df_utc_offset_hours (ac_defaults config) = 3 \<and>
       mc_temperature (mc_fast (ac_models config)) = default_temperature \<and>
       map_option pc_name (iter_nth (ac_profiles config) 0) = Some ((cyr ''Dima'')) \<and>
       map_option pc_role_name (iter_nth (ac_profiles config) 0) = Some (asc ''adult'') \<and>
       length (ac_modes config) = 1)"

definition rejects_model_with_unknown_provider :: bool where
  "rejects_model_with_unknown_provider \<longleftrightarrow>
     (case parse_config (sample ((cyr ''Dima'')) (asc ''nope'') runtime_config_default) of
        Inl (UnknownProvider _ _) \<Rightarrow> True | _ \<Rightarrow> False)"

definition rejects_unknown_default_profile :: bool where
  "rejects_unknown_default_profile \<longleftrightarrow>
     (case parse_config (sample ((cyr ''Wasq'')) (asc ''deepseek'') runtime_config_default) of
        Inl (InvalidSetting _) \<Rightarrow> True | _ \<Rightarrow> False)"

definition household :: "rstr \<Rightarrow> rstr \<Rightarrow> usize \<Rightarrow> bool \<Rightarrow> runtime_config" where
  "household sock root limit homey =
     \<lparr>rt_mode = HouseholdCodex, codex_socket = Some sock, codex_cwd_root = Some root,
      rt_permission_profile_prefix = asc ''alice-house-'', rt_chunk_limit = limit, rt_homey_enabled = homey\<rparr>"

definition parses_household_runtime_with_absolute_paths :: bool where
  "parses_household_runtime_with_absolute_paths \<longleftrightarrow>
     unwrapped (parse_config (sample ((cyr ''Dima'')) (asc ''deepseek'')
       (household (asc ''/run/alice-codex/app-server.sock'') (asc ''/srv/alice/houses'') 850 False))) (\<lambda>config.
       rt_mode (ac_runtime config) = HouseholdCodex \<and> rt_chunk_limit (ac_runtime config) = 850 \<and>
       \<not> rt_homey_enabled (ac_runtime config))"

definition household_runtime_can_explicitly_enable_homey :: bool where
  "household_runtime_can_explicitly_enable_homey \<longleftrightarrow>
     unwrapped (parse_config (sample ((cyr ''Dima'')) (asc ''deepseek'')
       (household (asc ''/run/alice-codex/app-server.sock'') (asc ''/srv/alice/houses'') default_chunk_limit True)))
       (\<lambda>config. rt_homey_enabled (ac_runtime config))"

definition household_runtime_rejects_relative_paths_and_oversized_chunks :: bool where
  "household_runtime_rejects_relative_paths_and_oversized_chunks \<longleftrightarrow>
     list_all (\<lambda>runtime. case parse_config (sample ((cyr ''Dima'')) (asc ''deepseek'') runtime) of
         Inl (InvalidSetting _) \<Rightarrow> True | _ \<Rightarrow> False)
       [household (asc ''relative.sock'') (asc ''/srv/alice/houses'') 850 False,
        household (asc ''/run/alice-codex/app-server.sock'') (asc ''relative/houses'') 850 False,
        household (asc ''/run/alice-codex/app-server.sock'') (asc ''/srv/alice/houses'') 901 False]"

lemma absolute_paths:
  "absolute_path (asc ''/run/alice-codex/app-server.sock'')" "absolute_path (asc ''/srv/alice/houses'')"
  "\<not> absolute_path (asc ''relative.sock'')" "\<not> absolute_path (asc ''relative/houses'')"
  "list_all (\<lambda>c. is_ascii_alphanumeric c \<or> c = 45) (asc ''alice-house-'')" "asc ''alice-house-'' \<noteq> []"
  "length (cyr '' Prodolvatx?'') = 12" "asc ''nope'' \<noteq> asc ''deepseek''" "cyr ''Dima'' \<noteq> cyr ''Wasq''"
  by code_simp+

lemmas config_test_defs =
  parse_config_def from_toml_def validate_def validate_runtime_def validate_preset_def validate_role_def sample_def
  sample_preset_def household_def unwrapped_def absolute_paths runtime_config_default_def default_context_window_def
  default_reply_budget_ms_def default_utc_offset_hours_def default_chunk_limit_def iter_nth_def

lemma config_tests_pass:
  parses_full_config_with_defaults rejects_model_with_unknown_provider rejects_unknown_default_profile
  parses_household_runtime_with_absolute_paths household_runtime_can_explicitly_enable_homey
  household_runtime_rejects_relative_paths_and_oversized_chunks
  by (simp_all add: config_test_defs parses_full_config_with_defaults_def rejects_model_with_unknown_provider_def
      rejects_unknown_default_profile_def parses_household_runtime_with_absolute_paths_def
      household_runtime_can_explicitly_enable_homey_def household_runtime_rejects_relative_paths_and_oversized_chunks_def)

subsection \<open>\<^verbatim>\<open>assemble.rs\<close>\<close>

definition assemble_config :: "rstr \<Rightarrow> runtime_config \<Rightarrow> app_config" where
  "assemble_config key_env runtime = (sample ((cyr ''Dima'')) (asc ''deepseek'') runtime)
     \<lparr>ac_server := \<lparr>listen = asc ''127.0.0.1:8080'', allowed_user_ids = []\<rparr>,
      ac_providers := [(asc ''deepseek'', \<lparr>base_url = asc ''https://api.deepseek.com/v1'', api_key_env = key_env\<rparr>)],
      ac_profiles := [\<lparr>pc_name = (cyr ''Dima''), pc_aliases = [(cyr ''dima'')], pc_birthday = None, pc_role_name = asc ''adult'', pc_persona = []\<rparr>],
      ac_modes := []\<rparr>"

definition test_environment :: "rstr \<Rightarrow> rstr option" where
  "test_environment = [asc ''TEST_DEEPSEEK_KEY_ASSEMBLE'' \<mapsto> asc ''k'']"

definition builds_engine_when_key_env_present :: bool where
  "builds_engine_when_key_env_present \<longleftrightarrow>
     unwrapped (parse_config (assemble_config (asc ''TEST_DEEPSEEK_KEY_ASSEMBLE'') runtime_config_default)) (\<lambda>config.
       unwrapped (build_engine basic_unicode test_environment (Ok ()) config memory_store) (\<lambda>_. True))"

definition fails_without_key_env :: bool where
  "fails_without_key_env \<longleftrightarrow>
     unwrapped (parse_config (assemble_config (asc ''TEST_DEEPSEEK_KEY_MISSING'') runtime_config_default)) (\<lambda>config.
       case build_engine basic_unicode test_environment (Ok ()) config memory_store of
         Inl (MissingEnv _) \<Rightarrow> True | _ \<Rightarrow> False)"

definition household_engine_does_not_resolve_legacy_provider_keys :: bool where
  "household_engine_does_not_resolve_legacy_provider_keys \<longleftrightarrow>
     unwrapped (parse_config (assemble_config (asc ''TEST_DEEPSEEK_KEY_ASSEMBLE'')
         (household (asc ''/run/alice-codex/app-server.sock'') (asc ''/srv/alice/houses'') 850 False)))
       (\<lambda>config. unwrapped (build_household_engine config) (\<lambda>_. True))"

lemma test_variables:
  "asc ''TEST_DEEPSEEK_KEY_MISSING'' \<noteq> asc ''TEST_DEEPSEEK_KEY_ASSEMBLE''"
  by code_simp

lemma assemble_tests_pass:
  builds_engine_when_key_env_present fails_without_key_env household_engine_does_not_resolve_legacy_provider_keys
  by (simp_all add: builds_engine_when_key_env_present_def fails_without_key_env_def assemble_config_def config_test_defs
      household_engine_does_not_resolve_legacy_provider_keys_def test_environment_def build_engine_def openai_new_def
      preset_def roster_new_def profile_of_def build_household_engine_def test_variables)

subsection \<open>\<^verbatim>\<open>state_crypto.rs\<close>\<close>

text \<open>
  The tests with a decoder of hexadecimal digits and the stand-in primitives of \<open>demo_crypto\<close>: they show how the
  code uses a cipher, not that the crate's cipher is sound.
\<close>

definition hex_digit :: "rchar \<Rightarrow> byte option" where
  "hex_digit c =
     (if 48 \<le> c \<and> c \<le> 57 then Some (c - 48) else if 97 \<le> c \<and> c \<le> 102 then Some (c - 87)
      else if 65 \<le> c \<and> c \<le> 70 then Some (c - 55) else None)"

fun hex_bytes :: "rstr \<Rightarrow> bytes option" where
  "hex_bytes [] = Some []"
| "hex_bytes [c] = None"
| "hex_bytes (c # d # s) =
     Option.bind (hex_digit c) (\<lambda>h. Option.bind (hex_digit d) (\<lambda>l. map_option (Cons (16 * h + l)) (hex_bytes s)))"

definition test_crypto :: crypto_lib where
  "test_crypto = demo_crypto\<lparr>hex_decode := hex_bytes\<rparr>"

definition key_must_be_exactly_32_bytes_of_hex :: bool where
  "key_must_be_exactly_32_bytes_of_hex \<longleftrightarrow>
     list_all (\<lambda>k. case from_hex test_crypto k of Inl _ \<Rightarrow> True | Inr _ \<Rightarrow> False)
       [asc ''00'', replicate 64 122, replicate 66 48]"

text \<open>The key of the tests, and a payload whose first byte of ciphertext is damaged; the nonces drawn are arguments.\<close>

definition TEST_KEY :: rstr where
  "TEST_KEY = asc ''000102030405060708090a0b0c0d0e0f101112131415161718191a1b1c1d1e1f''"

fun damaged :: "encrypted_payload \<Rightarrow> encrypted_payload" where
  "damaged sealed = (case ep_ciphertext sealed of
      [] \<Rightarrow> sealed | c # cs \<Rightarrow> sealed\<lparr>ep_ciphertext := Bit_Operations.xor c 1 # cs\<rparr>)"

definition with_cipher :: "crypto_lib \<Rightarrow> (state_cipher \<Rightarrow> bool) \<Rightarrow> bool" where
  "with_cipher cl k = (case from_hex cl TEST_KEY of Inl _ \<Rightarrow> False | Inr cipher \<Rightarrow> k cipher)"

definition with_sealed :: "crypto_lib \<Rightarrow> state_cipher \<Rightarrow> bytes \<Rightarrow> bytes \<Rightarrow> (encrypted_payload \<Rightarrow> bool) \<Rightarrow> bool" where
  "with_sealed cl cipher nonce source k = (case seal cl cipher nonce source of Inl _ \<Rightarrow> False | Inr sealed \<Rightarrow> k sealed)"

definition roundtrip_returns_exact_utf8_bytes :: "crypto_lib \<Rightarrow> bytes \<Rightarrow> bool" where
  "roundtrip_returns_exact_utf8_bytes cl nonce \<longleftrightarrow>
     (let source = as_bytes ((cyr ''Prodolvitx rasskaz?'')) in
      with_cipher cl (\<lambda>cipher. with_sealed cl cipher nonce source (\<lambda>sealed. open_payload cl cipher sealed = Ok source)))"

definition tampered_ciphertext_fails_authentication :: "crypto_lib \<Rightarrow> bytes \<Rightarrow> bool" where
  "tampered_ciphertext_fails_authentication cl nonce \<longleftrightarrow>
     with_cipher cl (\<lambda>cipher. with_sealed cl cipher nonce (as_bytes (asc ''private household state'')) (\<lambda>sealed.
       case open_payload cl cipher (damaged sealed) of Inl _ \<Rightarrow> True | Inr _ \<Rightarrow> False))"

definition repeated_seals_use_unique_nonces_and_ciphertext :: "crypto_lib \<Rightarrow> bytes \<Rightarrow> bytes \<Rightarrow> bool" where
  "repeated_seals_use_unique_nonces_and_ciphertext cl nonce nonce' \<longleftrightarrow>
     with_cipher cl (\<lambda>cipher. with_sealed cl cipher nonce (as_bytes (asc ''same plaintext'')) (\<lambda>first.
       with_sealed cl cipher nonce' (as_bytes (asc ''same plaintext'')) (\<lambda>second.
         ep_nonce first \<noteq> ep_nonce second \<and> ep_ciphertext first \<noteq> ep_ciphertext second)))"

text \<open>On the concrete primitives, for any nonces of the drawn length.\<close>

lemma state_crypto_tests_pass: key_must_be_exactly_32_bytes_of_hex
  by code_simp

definition test_key_rest :: bytes where
  "test_key_rest = [1..31]"

lemma test_key: "hex_bytes TEST_KEY = Some (0 # test_key_rest)" "str_len TEST_KEY = 64"
  by code_simp+

lemmas cipher_test_defs =
  with_cipher_def with_sealed_def from_hex_def KEY_BYTES_def test_key seal_def open_payload_def NONCE_BYTES_def
  test_crypto_def demo_crypto_def ok_or_def Let_def

lemma cipher_roundtrip_passes: "length nonce = 12 \<Longrightarrow> roundtrip_returns_exact_utf8_bytes test_crypto nonce"
  by (simp add: roundtrip_returns_exact_utf8_bytes_def cipher_test_defs)

lemma cipher_tampering_passes: "length nonce = 12 \<Longrightarrow> tampered_ciphertext_fails_authentication test_crypto nonce"
  by (simp add: tampered_ciphertext_fails_authentication_def cipher_test_defs take_Cons')

lemma cipher_nonces_passes:
  "nonce \<noteq> nonce' \<Longrightarrow> length nonce = length nonce' \<Longrightarrow> repeated_seals_use_unique_nonces_and_ciphertext test_crypto nonce nonce'"
  by (simp add: repeated_seals_use_unique_nonces_and_ciphertext_def cipher_test_defs)

subsection \<open>\<^verbatim>\<open>bridge-admin.rs\<close>\<close>

definition house_connector_must_name_a_restricted_homey_gateway :: bool where
  "house_connector_must_name_a_restricted_homey_gateway \<longleftrightarrow>
     parse_command [asc ''house'', asc ''create'', asc ''--name'', (cyr ''Dom''), asc ''--homey-connector'', asc ''github''] =
       Err InvalidArguments"

lemma admin_tests_pass: house_connector_must_name_a_restricted_homey_gateway
  by code_simp

end
