(* ===== verification/Unit_Tests_Pg.thy ===== *)
theory Unit_Tests_Pg
  imports Unit_Tests Household_System
begin

section \<open>The unit tests of the Postgres household store, on the model\<close>

text \<open>
  The tests beside \<^verbatim>\<open>house_store_pg.rs\<close>, which run against a database, on the tables of the model with the
  concrete environment \<open>demo_env\<close>. What they assert of the bytes of a ciphertext or of an HMAC is left out: the
  cryptography is a parameter.
\<close>

subsection \<open>The rows the tests insert\<close>

definition tables_empty :: pg_state where
  "tables_empty =
     \<lparr>pg_houses = Map.empty, pg_members = [], pg_surfaces = Map.empty, pg_pairings = [], pg_pending = Map.empty,
      pg_conts = Map.empty, pg_next_house = 1, pg_next_pairing = 1, pg_now = 1000, pg_faults = [], pg_draws = 0\<rparr>"

definition insert_house :: "rstr \<Rightarrow> pg_state \<Rightarrow> pg_state" where
  "insert_house name s =
     s\<lparr>pg_houses := (pg_houses s)(pg_next_house s \<mapsto> \<lparr>hr_name = name, hr_thread = None,
         hr_connector = asc ''homey-'' @ name, hr_enabled = True\<rparr>), pg_next_house := pg_next_house s + 1\<rparr>"

definition insert_member :: "i64 \<Rightarrow> rstr \<Rightarrow> pg_state \<Rightarrow> pg_state" where
  "insert_member h u s =
     s\<lparr>pg_members := pg_members s @ [\<lparr>mr_house = h, mr_user = u, mr_role = asc ''member'', mr_enabled = True\<rparr>]\<rparr>"

definition insert_surface :: "i64 \<Rightarrow> rstr \<Rightarrow> rstr \<Rightarrow> pg_state \<Rightarrow> pg_state" where
  "insert_surface h u a s =
     s\<lparr>pg_surfaces := (pg_surfaces s)(a \<mapsto> \<lparr>sr_house = h, sr_user = u, sr_enabled = True\<rparr>)\<rparr>"

lemmas insert_defs = tables_empty_def insert_house_def insert_member_def insert_surface_def

text \<open>A call that must succeed, and what follows it.\<close>

definition call :: "(pg_state, 'r) store_op \<Rightarrow> ('r \<Rightarrow> pg_state \<Rightarrow> bool) \<Rightarrow> pg_state \<Rightarrow> bool" where
  "call operation k s = (case operation s of (Inl _, _) \<Rightarrow> False | (Inr r, s') \<Rightarrow> k r s')"

definition identity :: "rstr \<Rightarrow> rstr \<Rightarrow> surface_identity" where
  "identity user app = \<lparr>si_user_id = user, si_application_id = app\<rparr>"

abbreviation resolve :: "rstr \<Rightarrow> rstr \<Rightarrow> (pg_state, surface_resolution) store_op" where
  "resolve user app \<equiv> pg_resolve_surface demo_env (identity user app)"

fun with_code :: "(rstr \<Rightarrow> pg_state \<Rightarrow> bool) \<Rightarrow> surface_resolution \<Rightarrow> pg_state \<Rightarrow> bool" where
  "with_code k (PairingRequired code) s = k code s"
| "with_code k r s = False"

fun bound_to :: "i64 option \<Rightarrow> surface_resolution \<Rightarrow> bool" where
  "bound_to h (Bound house) = (case h of None \<Rightarrow> True | Some i \<Rightarrow> hc_id house = i)"
| "bound_to h r = False"

subsection \<open>The tests\<close>

definition resolution_is_exact_and_isolated_between_houses :: bool where
  "resolution_is_exact_and_isolated_between_houses \<longleftrightarrow>
     (let s = insert_surface 2 (asc ''MOTHER'') (asc ''mother-station'') (insert_surface 1 (asc ''OWNER'') (asc ''owner-station'')
               (insert_member 2 (asc ''MOTHER'') (insert_member 1 (asc ''OWNER'')
                 (insert_house ((cyr ''Wtoroj'')) (insert_house ((cyr ''Perwyj'')) tables_empty)))))
      in call (resolve (asc ''OWNER'') (asc ''owner-station'')) (\<lambda>r _. bound_to (Some 1) r) s \<and>
         fst (resolve (asc ''OWNER'') (asc ''mother-station'') s) = Ok Unauthorized \<and>
         fst (resolve (asc ''STRANGER'') (asc ''new-station'') s) = Ok Unauthorized)"

definition pairing_expires :: bool where
  "pairing_expires \<longleftrightarrow>
     call (resolve (asc ''MOTHER'') (asc ''new-station'')) (with_code (\<lambda>code s.
       str_len code = 6 \<and> list_all is_ascii_digit code \<and>
       call (approve_pairing demo_env 1 code) (\<lambda>approved s.
         \<not> approved \<and> call (resolve (asc ''MOTHER'') (asc ''new-station'')) (with_code (\<lambda>code s.
           call (approve_pairing demo_env 1 code) (\<lambda>approved s.
             approved \<and> call (resolve (asc ''MOTHER'') (asc ''new-station'')) (\<lambda>r _. bound_to None r) s) s)) s)
         (s\<lparr>pg_pairings := map (\<lambda>p. p\<lparr>pr_expires := pg_now s - 1\<rparr>) (pg_pairings s)\<rparr>)))
       (insert_member 1 (asc ''MOTHER'') (insert_house ((cyr ''Mama'')) tables_empty))"

definition owner_selects_house_when_member_belongs_to_more_than_one :: bool where
  "owner_selects_house_when_member_belongs_to_more_than_one \<longleftrightarrow>
     call (resolve (asc ''OWNER'') (asc ''new-station'')) (with_code (\<lambda>code.
       call (approve_pairing demo_env 2 code) (\<lambda>approved s.
         approved \<and> call (resolve (asc ''OWNER'') (asc ''new-station'')) (\<lambda>r _. bound_to (Some 2) r) s)))
       (insert_member 2 (asc ''OWNER'') (insert_member 1 (asc ''OWNER'')
         (insert_house ((cyr ''Wtoroj'')) (insert_house ((cyr ''Perwyj'')) tables_empty))))"

definition thread_id_cannot_be_replaced :: bool where
  "thread_id_cannot_be_replaced \<longleftrightarrow>
     call (pg_save_thread_id 1 (asc ''thread-1'')) (\<lambda>_. call (pg_save_thread_id 1 (asc ''thread-1'')) (\<lambda>_ s.
       case fst (pg_save_thread_id 1 (asc ''thread-2'') s) of Inl _ \<Rightarrow> True | Inr _ \<Rightarrow> False))
       (insert_house ((cyr ''Dom'')) tables_empty)"

text \<open>Their identifiers differ, and the codes are those of the environment.\<close>

lemma test_names:
  "asc ''OWNER'' \<noteq> asc ''MOTHER''" "asc ''STRANGER'' \<noteq> asc ''OWNER''" "asc ''STRANGER'' \<noteq> asc ''MOTHER''"
  "asc ''owner-station'' \<noteq> asc ''mother-station''" "asc ''new-station'' \<noteq> asc ''owner-station''"
  "asc ''new-station'' \<noteq> asc ''mother-station''" "asc ''thread-1'' \<noteq> asc ''thread-2''"
  by code_simp+

lemma test_codes:
  "env_code demo_env n = 42 + n" "list_all is_ascii_digit (pad6 42)" "str_len (pad6 42) = 6"
  "list_all is_ascii_digit (pad6 43)" "str_len (pad6 43) = 6"
  using pad6_code [of 42] pad6_code [of 43] by (simp_all add: demo_env_def)

lemmas pg_test_defs =
  Let_def call_def identity_def insert_defs test_names test_names [symmetric] test_codes pg_resolve_surface_calm
  pg_bound_def pg_memberships_def house_enabled_def create_pairing_request_def next_draw_def PAIRING_TTL_SECONDS_def
  approve_pairing_def with_db_def pairing_code_matches_def membership_exists_def set_approved_def
  pg_save_thread_id_def

lemma resolution_passes: resolution_is_exact_and_isolated_between_houses
  by (simp add: resolution_is_exact_and_isolated_between_houses_def pg_test_defs)

lemma pairing_passes: pairing_expires
  by (simp add: pairing_expires_def pg_test_defs pairing_code_hash_def)

lemma owner_selects_passes: owner_selects_house_when_member_belongs_to_more_than_one
  by (simp add: owner_selects_house_when_member_belongs_to_more_than_one_def pg_test_defs pairing_code_hash_def)

lemma thread_id_passes: thread_id_cannot_be_replaced
  by (simp add: thread_id_cannot_be_replaced_def pg_test_defs)

text \<open>Encrypted state: read back as it was written, only for its device and house, until it expires.\<close>

definition test_chunks :: "rstr list" where
  "test_chunks = [(cyr ''perwaq ~astx''), (cyr ''wtoraq ~astx'')]"

definition expire_pending :: "pg_state \<Rightarrow> pg_state" where
  "expire_pending s = s\<lparr>pg_pending := (\<lambda>k. map_option (\<lambda>r. r\<lparr>pe_expires := pg_now s - 1\<rparr>) (pg_pending s k))\<rparr>"

definition expire_continuations :: "pg_state \<Rightarrow> pg_state" where
  "expire_continuations s = s\<lparr>pg_conts := (\<lambda>k. map_option (\<lambda>r. r\<lparr>ct_expires := pg_now s - 1\<rparr>) (pg_conts s k))\<rparr>"

definition temporary_state_is_scoped_and_expires :: bool where
  "temporary_state_is_scoped_and_expires \<longleftrightarrow>
     (let station = asc ''station'' in
      call (pg_mark_thinking 1 station) (\<lambda>_.
      call (pg_poll_pending demo_env 1 station) (\<lambda>thinking.
      call (pg_save_ready demo_env 1 station ((cyr ''sekretnyj otwet''))) (\<lambda>_ s.
      length (draw_nonce demo_env s) = 12 \<and>
      call (pg_poll_pending demo_env 1 station) (\<lambda>ready s.
      call (pg_poll_pending demo_env 1 station) (\<lambda>expired.
      call (pg_save_continuation demo_env 1 station test_chunks) (\<lambda>_.
      call (pg_take_continuation demo_env 1 station) (\<lambda>taken.
      call (pg_take_continuation demo_env 1 station) (\<lambda>again.
      call (pg_save_continuation demo_env 1 station test_chunks) (\<lambda>_ s.
      call (pg_take_continuation demo_env 1 station) (\<lambda>late.
      call (pg_poll_pending demo_env 2 station) (\<lambda>other _.
        thinking = Thinking \<and> ready = Ready ((cyr ''sekretnyj otwet'')) \<and> expired = NoReply \<and>
        taken = Some test_chunks \<and> is_none again \<and> is_none late \<and> other = NoReply))
      (expire_continuations s)))))) (expire_pending s)) s)))
      (insert_surface 1 (asc ''OWNER'') station (insert_member 1 (asc ''OWNER'') (insert_house ((cyr ''Dom'')) tables_empty))))"

lemma demo_seal:
  "seal (env_crypto demo_env) (env_cipher demo_env) n b = Ok \<lparr>ep_nonce = n, ep_ciphertext = [7] @ n @ b, ep_key_version = 1\<rparr>"
  by (simp add: seal_def demo_env_def demo_crypto_def)

lemma demo_open:
  assumes "length n = NONCE_BYTES" and "from_utf8 b = Some t"
  shows "open_text demo_env \<lparr>ep_nonce = n, ep_ciphertext = [7] @ n @ b, ep_key_version = 1\<rparr> = Ok t"
  using assms by (simp add: open_text_def open_payload_def demo_env_def demo_crypto_def)

lemma temporary_state_passes: temporary_state_is_scoped_and_expires
proof -
  have n: "length (draw_nonce demo_env s) = NONCE_BYTES" for s by (simp add: draw_nonce_def)
  have "wf_str ((cyr ''sekretnyj otwet''))" "list_all wf_str test_chunks" by code_simp+
  obtain b where b: "env_to_vec demo_env test_chunks = Some b" by (simp add: demo_env_def)
  obtain t where t: "from_utf8 b = Some t" "env_from_str demo_env t = Some test_chunks"
    using demo_pg.json_roundtrip [OF \<open>list_all wf_str test_chunks\<close> b] by blast
  have open1: "open_text demo_env \<lparr>ep_nonce = draw_nonce demo_env s, ep_ciphertext = [7] @ draw_nonce demo_env s @ as_bytes ((cyr ''sekretnyj otwet'')),
      ep_key_version = 1\<rparr> = Ok ((cyr ''sekretnyj otwet''))" for s
    using demo_open [OF n from_utf8_as_bytes [OF \<open>wf_str ((cyr ''sekretnyj otwet''))\<close>]] .
  have open2: "open_text demo_env \<lparr>ep_nonce = draw_nonce demo_env s, ep_ciphertext = [7] @ draw_nonce demo_env s @ b,
      ep_key_version = 1\<rparr> = Ok t" for s
    using demo_open [OF n t(1)] .
  have "test_chunks \<noteq> []" by (simp add: test_chunks_def)
  with b t show ?thesis
    by (simp add: temporary_state_is_scoped_and_expires_def Let_def call_def insert_defs with_db_def next_draw_def
        pg_mark_thinking_def pg_poll_pending_def pg_save_ready_def pg_save_continuation_def pg_take_continuation_def
        surface_fk_def demo_seal open1 [simplified] open2 [simplified] expire_pending_def expire_continuations_def is_none_def
        PENDING_TTL_SECONDS_def CONTINUATION_TTL_SECONDS_def n NONCE_BYTES_def)
qed

end
