(* ===== verification/Dialogue_Run.thy ===== *)
theory Dialogue_Run
  imports Test_Doubles
begin

section \<open>One client at a time\<close>

text \<open>
  A scheduler of the dialogue engine: one request runs to its answer, its task beside it, against scripted
  providers whose delay is compared with the reply budget. Every move it makes is a step of \<open>dlg_step\<close>, so what
  it computes is one of the runs the theorems speak of. Request, task and summariser share a number.
\<close>

subsection \<open>Moves\<close>

definition scripted_result :: "(nat \<Rightarrow> scripted_provider) \<Rightarrow> reply_task \<Rightarrow> task_phase" where
  "scripted_result W t =
     (case fst (scripted_chat (chat_request_of (tk_ask t)) (W (mp_provider (ak_preset (tk_ask t))))) of
        Inr c \<Rightarrow> TRecord c | Inl e \<Rightarrow> TSend (phrase_for_provider_error e))"

definition task_move :: "libraries \<Rightarrow> 's engine_inner \<Rightarrow> (nat \<Rightarrow> scripted_provider) \<Rightarrow> nat \<Rightarrow> 's dialogue \<Rightarrow> 's dialogue option" where
  "task_move L ei W j d =
     (case dg_tasks d j of
        None \<Rightarrow> None
      | Some t \<Rightarrow>
          (case tk_phase t of
             TBegin \<Rightarrow> Some (put_task j t TChat (call_provider (mp_provider (ak_preset (tk_ask t))) (chat_request_of (tk_ask t)) d))
           | TChat \<Rightarrow> Some (put_task j t (scripted_result W t) d)
           | TRecord c \<Rightarrow> if dg_summarizers d j = None then Some (record_step L ei j j t c d) else None
           | TSend reply \<Rightarrow> Some (send_step j t reply d)
           | TLate reply \<Rightarrow> Some (complete_step j t reply d)
           | _ \<Rightarrow> None))"

text \<open>The provider of the task takes longer than a request may.\<close>

definition too_slow :: "'s engine_inner \<Rightarrow> (nat \<Rightarrow> scripted_provider) \<Rightarrow> reply_task \<Rightarrow> bool" where
  "too_slow ei W t \<longleftrightarrow> tk_phase t = TChat \<and> ec_reply_budget (ei_config ei) < sp_delay (W (mp_provider (ak_preset (tk_ask t))))"

definition waiting_move :: "libraries \<Rightarrow> 's engine_inner \<Rightarrow> (nat \<Rightarrow> scripted_provider) \<Rightarrow> nat \<Rightarrow> rstr \<times> rstr \<Rightarrow> nat \<Rightarrow>
    's dialogue \<Rightarrow> 's dialogue option" where
  "waiting_move L ei W r input j d =
     (case dg_tasks d j of
        None \<Rightarrow> None
      | Some t \<Rightarrow>
          (case tk_phase t of
             TSent reply \<Rightarrow> Some (reply_in_time r input reply d)
           | TDropped \<Rightarrow> Some (reply_in_time r input PHRASE_INTERNAL_ERROR d)
           | _ \<Rightarrow> if too_slow ei W t then Some (put_request r input (Expired j) d) else task_move L ei W j d))"

definition request_move :: "libraries \<Rightarrow> 's engine_inner \<Rightarrow> (nat \<Rightarrow> scripted_provider) \<Rightarrow> nat \<Rightarrow> 's dialogue \<Rightarrow> 's dialogue option" where
  "request_move L ei W r d =
     (case dg_requests d r of
        None \<Rightarrow> None
      | Some (input, ph) \<Rightarrow>
          (case ph of
             Polling \<Rightarrow> Some (put_request r input (after_get (pending_get (dg_now d) (fst input) (dg_pending d))) d)
           | Removing p \<Rightarrow> (case pending_remove p (fst input) (dg_pending d) of
               (res, m) \<Rightarrow> Some (put_request r input (after_poll res) (d\<lparr>dg_pending := m\<rparr>)))
           | Dispatching \<Rightarrow> (case dispatch_step L ei (dg_utc d) (snd input) (dg_state d) of
               (ph', st) \<Rightarrow> Some (put_request r input ph' (d\<lparr>dg_state := st\<rparr>)))
           | Asking question tier \<Rightarrow> Some (put_request r input (ask_step ei question tier (dg_state d)) d)
           | Calling p \<Rightarrow> (case store_step L ei (dg_utc d) p (dg_store d) of
               (ph', s') \<Rightarrow> Some (put_request r input ph' (d\<lparr>dg_store := s'\<rparr>)))
           | Spawning a \<Rightarrow> if dg_tasks d r = None then Some (spawn_task r r input a d) else None
           | Waiting j \<Rightarrow> waiting_move L ei W r input j d
           | Expired j \<Rightarrow> map_option (\<lambda>t. drop_receiver r input j t d) (dg_tasks d j)
           | Answered reply \<Rightarrow> None))"

definition summarizer_move :: "'s engine_inner \<Rightarrow> (nat \<Rightarrow> scripted_provider) \<Rightarrow> nat \<Rightarrow> 's dialogue \<Rightarrow> 's dialogue option" where
  "summarizer_move ei W k d =
     (case dg_summarizers d k of
        None \<Rightarrow> None
      | Some (p, ph) \<Rightarrow>
          (case ph of
             SDone \<Rightarrow> None
           | SChat rows previous \<Rightarrow> Some (put_summarizer k p (SWaiting rows)
               (call_provider (mp_provider (registry_get (ei_models ei) Fast)) (summary_request ei rows previous) d))
           | SWaiting rows \<Rightarrow> Some (put_summarizer k p
               (case sp_script (W (mp_provider (registry_get (ei_models ei) Fast))) of
                  Inr str \<Rightarrow> SUpsert \<lparr>su_content = str, covers_until_message_id = covers_until rows\<rparr> | Inl _ \<Rightarrow> SDone) d)
           | _ \<Rightarrow> (case summarize_step ei p ph (dg_state d) (dg_store d) of
               (ph', s') \<Rightarrow> Some (put_summarizer k p ph' (d\<lparr>dg_store := s'\<rparr>)))))"

text \<open>A request makes nine steps of its own and its task four; a summariser makes six.\<close>

definition run_to_answer :: "libraries \<Rightarrow> 's engine_inner \<Rightarrow> (nat \<Rightarrow> scripted_provider) \<Rightarrow> nat \<Rightarrow> rstr \<times> rstr \<Rightarrow>
    's dialogue \<Rightarrow> 's dialogue" where
  "run_to_answer L ei W r input d = moves 14 (request_move L ei W r) (put_request r input Polling d)"

definition answer_of :: "'s dialogue \<Rightarrow> nat \<Rightarrow> rstr option" where
  "answer_of d r = (case dg_requests d r of Some (_, Answered reply) \<Rightarrow> Some reply | _ \<Rightarrow> None)"

definition finish_task :: "libraries \<Rightarrow> 's engine_inner \<Rightarrow> (nat \<Rightarrow> scripted_provider) \<Rightarrow> nat \<Rightarrow> 's dialogue \<Rightarrow> 's dialogue" where
  "finish_task L ei W j d = moves 5 (task_move L ei W j) d"

definition finish_summary :: "'s engine_inner \<Rightarrow> (nat \<Rightarrow> scripted_provider) \<Rightarrow> nat \<Rightarrow> 's dialogue \<Rightarrow> 's dialogue" where
  "finish_summary ei W k d = moves 6 (summarizer_move ei W k) d"

subsection \<open>They are steps of the engine\<close>

lemma task_move_step:
  assumes "task_move L ei W j d = Some d'"
  shows "dlg_step L ei E d d'"
proof -
  from assms obtain t where t: "dg_tasks d j = Some t" by (auto simp: task_move_def split: option.splits)
  show ?thesis
  proof (cases "tk_phase t")
    case TChat
    with assms t have "d' = put_task j t (scripted_result W t) d" by (simp add: task_move_def)
    with scripted_chat_step [OF t TChat] show ?thesis by (simp add: scripted_result_def)
  qed (use assms t in \<open>auto simp: task_move_def intro: dlg_step.intros split: if_splits\<close>)
qed

lemma waiting_move_step:
  assumes "waiting_move L ei W r input j d = Some d'" and "dg_requests d r = Some (input, Waiting j)"
  shows "dlg_step L ei E d d'"
proof -
  from assms obtain t where t: "dg_tasks d j = Some t" by (auto simp: waiting_move_def split: option.splits)
  have slow: "dlg_step L ei E d (put_request r input (Expired j) d)" if "too_slow ei W t"
    using that by (intro dlg_step.deadline [OF assms(2) t]) (simp add: too_slow_def task_ended_def)
  show ?thesis
  proof (cases "tk_phase t")
    case (TSent reply)
    with assms t dlg_step.received [OF assms(2) t TSent] show ?thesis by (simp add: waiting_move_def)
  next
    case TDropped
    with assms t dlg_step.closed [OF assms(2) t TDropped] show ?thesis by (simp add: waiting_move_def)
  qed (use assms t slow in \<open>auto simp: waiting_move_def intro: task_move_step split: if_splits\<close>)
qed

lemma request_move_step:
  assumes "request_move L ei W r d = Some d'"
  shows "dlg_step L ei E d d'"
proof -
  from assms obtain input ph where r: "dg_requests d r = Some (input, ph)"
    by (auto simp: request_move_def split: option.splits)
  show ?thesis
  proof (cases ph)
    case (Waiting j)
    with assms r show ?thesis by (auto simp: request_move_def intro: waiting_move_step)
  qed (use assms r in \<open>auto simp: request_move_def intro: dlg_step.intros split: prod.splits if_splits\<close>)
qed

lemma summarizer_move_step:
  assumes "summarizer_move ei W k d = Some d'"
  shows "dlg_step L ei E d d'"
proof -
  from assms obtain p ph where s: "dg_summarizers d k = Some (p, ph)"
    by (auto simp: summarizer_move_def split: option.splits)
  have ends: "dlg_step L ei E d (put_summarizer k p SDone d)" by (rule dlg_step.summarizer_ends [OF s])
  have said: "dlg_step L ei E d (put_summarizer k p (SUpsert \<lparr>su_content = str, covers_until_message_id = covers_until rows\<rparr>) d)"
    if "ph = SWaiting rows" for rows str
    using dlg_step.summary_completed [of d k p rows L ei E "\<lparr>cc_text = str, cc_usage = \<lparr>prompt_tokens = 10, completion_tokens = 20\<rparr>\<rparr>"] s that by simp
  show ?thesis
  proof (cases ph)
    case SBegin
    with assms s dlg_step.summarizes [OF s, where ?ei = ei] show ?thesis
      by (auto simp: summarizer_move_def)
  next
    case (SWaiting rows)
    with assms s ends said show ?thesis by (auto simp: summarizer_move_def split: sum.splits)
  qed (use assms s in \<open>auto simp: summarizer_move_def intro: dlg_step.summarizes dlg_step.summary_chat split: prod.splits\<close>)
qed

lemma scheduler_steps:
  "dg_requests d r = None \<Longrightarrow> (dlg_step L ei E)\<^sup>*\<^sup>* d (run_to_answer L ei W r input d)"
  "(dlg_step L ei E)\<^sup>*\<^sup>* d (finish_task L ei W r d)"
  "(dlg_step L ei E)\<^sup>*\<^sup>* d (finish_summary ei W r d)"
  unfolding run_to_answer_def finish_task_def finish_summary_def
  by (blast intro: converse_rtranclp_into_rtranclp dlg_step.arrive moves_steps request_move_step task_move_step
      summarizer_move_step)+

subsection \<open>What a run does\<close>

text \<open>An exchange with a provider that answers at once, on any store.\<close>

definition exchanged :: "libraries \<Rightarrow> 's engine_inner \<Rightarrow> nat \<Rightarrow> rstr \<times> rstr \<Rightarrow> ask \<Rightarrow> rstr \<Rightarrow> 's dialogue \<Rightarrow> 's dialogue" where
  "exchanged L ei r input a reply d =
     d\<lparr>dg_store := snd (record_exchange (ei_store ei) (exchange_of (lib_float L) a
          \<lparr>cc_text = reply, cc_usage = \<lparr>prompt_tokens = 10, completion_tokens = 20\<rparr>\<rparr>) (dg_store d)),
       dg_requests := (dg_requests d)(r \<mapsto> (input, Answered reply)),
       dg_tasks := (dg_tasks d)(r \<mapsto> \<lparr>tk_user = fst input, tk_ask = a, tk_open = True, tk_phase = TSent reply\<rparr>),
       dg_summarizers := (dg_summarizers d)(r \<mapsto> (ak_name a, SBegin)),
       dg_calls := dg_calls d @ [(mp_provider (ak_preset a), chat_request_of a)]\<rparr>"

lemma run_exchanged:
  assumes "dispatch_step L ei (dg_utc d) (snd input) (dg_state d) = (Asking q tier, dg_state d)"
    and "ask_step ei q tier (dg_state d) = Calling (LoadSummary c)"
    and "store_step L ei (dg_utc d) (LoadSummary c) (dg_store d) = (Calling (LoadHistory c su), dg_store d)"
    and "store_step L ei (dg_utc d) (LoadHistory c su) (dg_store d) = (Spawning a, dg_store d)"
    and "dg_pending d = Map.empty" "dg_tasks d r = None" "dg_summarizers d r = None"
    and "sp_delay (W (mp_provider (ak_preset a))) \<le> ec_reply_budget (ei_config ei)"
    and "sp_script (W (mp_provider (ak_preset a))) = Ok reply"
  shows "run_to_answer L ei W r input d = exchanged L ei r input a reply d"
proof -
  have "scripted_result W \<lparr>tk_user = fst input, tk_ask = a, tk_open = True, tk_phase = TChat\<rparr> =
      TRecord \<lparr>cc_text = reply, cc_usage = \<lparr>prompt_tokens = 10, completion_tokens = 20\<rparr>\<rparr>"
    using assms(9) by (simp add: scripted_result_def scripted_chat_def)
  with assms show ?thesis
    by (cases "record_exchange (ei_store ei) (exchange_of (lib_float L) a
          \<lparr>cc_text = reply, cc_usage = \<lparr>prompt_tokens = 10, completion_tokens = 20\<rparr>\<rparr>) (dg_store d)")
       (simp add: run_to_answer_def moves_numeral request_move_def waiting_move_def task_move_def too_slow_def dlg_defs
         pending_get_def pending_mark_thinking_def pending_clear_def after_get_def exchanged_def)
qed
text \<open>A summariser that finds too little, and one that writes a summary.\<close>

lemma run_no_summary:
  assumes "dg_summarizers d k = Some (p, SBegin)"
    and "unsummarized (ei_store ei) p (window_of (ei_config ei) (dg_state d)) (dg_store d) = (Ok rows, dg_store d)"
    and "length rows < window_of (ei_config ei) (dg_state d)"
  shows "finish_summary ei W k d = d\<lparr>dg_summarizers := (dg_summarizers d)(k \<mapsto> (p, SDone))\<rparr>"
  using assms by (simp add: finish_summary_def moves_numeral summarizer_move_def put_summarizer_def)

lemma run_summary:
  assumes "dg_summarizers d k = Some (p, SBegin)"
    and "unsummarized (ei_store ei) p (window_of (ei_config ei) (dg_state d)) (dg_store d) = (Ok rows, dg_store d)"
    and "window_of (ei_config ei) (dg_state d) \<le> length rows"
    and "summary (ei_store ei) p (dg_store d) = (Ok None, dg_store d)"
    and "sp_script (W (mp_provider (registry_get (ei_models ei) Fast))) = Ok str"
  shows "finish_summary ei W k d =
     d\<lparr>dg_store := snd (upsert_summary (ei_store ei) p \<lparr>su_content = str, covers_until_message_id = covers_until rows\<rparr> (dg_store d)),
       dg_summarizers := (dg_summarizers d)(k \<mapsto> (p, SDone)),
       dg_calls := dg_calls d @ [(mp_provider (registry_get (ei_models ei) Fast), summary_request ei rows [])]\<rparr>"
  using assms
  by (cases "upsert_summary (ei_store ei) p \<lparr>su_content = str, covers_until_message_id = covers_until rows\<rparr> (dg_store d)")
     (simp add: finish_summary_def moves_numeral summarizer_move_def put_summarizer_def call_provider_def)

end
