(* ===== verification/Unit_Tests_Dialogue.thy ===== *)
theory Unit_Tests_Dialogue
  imports Unit_Tests Dialogue_Run
begin

section \<open>The unit tests of the dialogue engine, on the model\<close>

text \<open>
  The tests beside \<^verbatim>\<open>engine.rs\<close>, each a run of the scheduler: an engine over the in-memory store and two scripted
  providers, the fast one under number 0 and the smart one under 1. Floating point is a stand-in that counts in
  hundredths, exact on the amounts of the tests.
\<close>

definition hundredths :: float_ops where
  "hundredths =
     \<lparr>f64_of_nat = \<lambda>n. 100 * n, f64_of_int = \<lambda>i. nat (100 * i), f64_mul = \<lambda>x y. x * y div 100, f64_add = (+),
      f64_div = \<lambda>x y. 100 * x div y, f64_round = \<lambda>x. (x + 50) div 100 * 100, f64_as_i64 = \<lambda>x. int (x div 100),
      f64_show2 = \<lambda>x. show_nat (x div 100) @ [46] @ digits 2 (int x)\<rparr>"

definition test_libs :: libraries where
  "test_libs = \<lparr>lib_unicode = basic_unicode, lib_calendar = gregorian, lib_float = hundredths\<rparr>"

subsection \<open>The engine of the tests\<close>

text \<open>The temperature is the bits of 0.7.\<close>

definition test_preset :: "nat \<Rightarrow> model_preset" where
  "test_preset provider =
     \<lparr>mp_provider = provider, mp_model = asc ''test-model'', mp_max_tokens = 300, mp_temperature = 1060320051,
      input_price_per_mtok = f64_of_nat hundredths 1, output_price_per_mtok = f64_of_nat hundredths 2\<rparr>"

definition test_profiles :: "profile list" where
  "test_profiles =
     [\<lparr>pf_name = (cyr ''Dima''), pf_aliases = [(cyr ''dima''), (cyr ''papa'')], pf_birthday = None, pf_role = Adult, pf_persona = []\<rparr>,
      \<lparr>pf_name = (cyr ''Ma{a''), pf_aliases = [(cyr ''ma{a'')], pf_birthday = None, pf_role = Child, pf_persona = []\<rparr>]"

definition test_modes :: "mode list" where
  "test_modes = [\<lparr>md_name = asc ''fairy_tale'', md_triggers = [(cyr ''rasskavi skazku'')], md_prompt = (cyr ''Rasskazywaj skazki.'')\<rparr>]"

text \<open>A moment of the year 2026.\<close>

definition test_utc :: int where
  "test_utc = 1780000000"

definition engine_over :: "family_roster \<Rightarrow> memory_inner engine_inner" where
  "engine_over roster =
     \<lparr>ei_roster = roster, ei_modes = test_modes,
      ei_models = \<lparr>mr_fast = test_preset 0, mr_smart = test_preset 1\<rparr>, ei_store = memory_store,
      ei_config = \<lparr>context_window = 4, ec_reply_budget = 2800, utc_offset_hours = 3\<rparr>\<rparr>"

definition engine_with :: "memory_inner \<Rightarrow> (memory_inner engine_inner \<Rightarrow> memory_inner dialogue \<Rightarrow> bool) \<Rightarrow> bool" where
  "engine_with s k =
     (case roster_new test_profiles (cyr ''Dima'') of
        Inl _ \<Rightarrow> False
      | Inr roster \<Rightarrow> some_with (dialogue_new (engine_over roster) s 0 test_utc) (k (engine_over roster)))"

definition scripts :: "scripted_provider \<Rightarrow> scripted_provider \<Rightarrow> nat \<Rightarrow> scripted_provider" where
  "scripts fast smart n = (if n = 0 then fast else smart)"

definition fresh_memory :: memory_inner where
  "fresh_memory = memory_new test_utc"

definition simple_engine :: "(memory_inner engine_inner \<Rightarrow> memory_inner dialogue \<Rightarrow> bool) \<Rightarrow> bool" where
  "simple_engine = engine_with fresh_memory"

definition simple_scripts :: "nat \<Rightarrow> scripted_provider" where
  "simple_scripts = scripts (provider_replying (cyr ''ok'')) (provider_replying (cyr ''umnyj otwet''))"

text \<open>\<open>engine.handle("u1", text).await\<close>, and what follows; the requests are numbered by the test.\<close>

definition asked :: "memory_inner engine_inner \<Rightarrow> (nat \<Rightarrow> scripted_provider) \<Rightarrow> nat \<Rightarrow> rstr \<Rightarrow>
    (rstr \<Rightarrow> memory_inner dialogue \<Rightarrow> bool) \<Rightarrow> memory_inner dialogue \<Rightarrow> bool" where
  "asked ei W r utterance k d =
     (case run_to_answer test_libs ei W r (asc ''u1'', utterance) d of
        d' \<Rightarrow> some_with (answer_of d' r) (\<lambda>reply. k reply d'))"

definition calls_of :: "nat \<Rightarrow> 's dialogue \<Rightarrow> chat_request list" where
  "calls_of n d = map snd (filter (\<lambda>c. fst c = n) (dg_calls d))"

definition content_at :: "nat \<Rightarrow> chat_request \<Rightarrow> rstr" where
  "content_at i request = cm_content (cr_messages request ! i)"

definition recorded :: "i64 \<Rightarrow> memory_inner" where
  "recorded cost =
     snd (mem_record_exchange
       \<lparr>er_profile = (cyr ''Dima''), er_user_text = (cyr ''w''), er_assistant_text = (cyr ''o''), er_model = asc ''m'', er_prompt_tokens = 1,
        er_completion_tokens = 1, er_cost_micros = cost\<rparr> fresh_memory)"

definition recent_of :: "rstr \<Rightarrow> nat \<Rightarrow> memory_inner dialogue \<Rightarrow> stored_message list" where
  "recent_of p n d = unwrap_or [] (fst (mem_recent_messages p n (dg_store d)))"

subsection \<open>The tests\<close>

definition introduce_switches_profile :: bool where
  "introduce_switches_profile \<longleftrightarrow> simple_engine (\<lambda>ei.
     asked ei simple_scripts 1 (cyr ''|to Ma{a'') (\<lambda>reply. asked ei simple_scripts 2 (cyr ''kto q'') (\<lambda>who _.
       str_contains reply (cyr ''Ma{a'') \<and> str_contains who (cyr ''Ma{a''))))"

definition forget_clears_history :: bool where
  "forget_clears_history \<longleftrightarrow> engine_with (recorded 1) (\<lambda>ei.
     asked ei simple_scripts 1 (cyr ''zabudx ws#'') (\<lambda>_ d. recent_of (cyr ''Dima'') 10 d = []))"

definition set_window_is_clamped_and_confirmed :: bool where
  "set_window_is_clamped_and_confirmed \<longleftrightarrow> simple_engine (\<lambda>ei.
     asked ei simple_scripts 1 (cyr ''pomni poslednie 500 replik'') (\<lambda>reply _. str_contains reply (asc ''50'')))"

definition model_switch_is_confirmed :: bool where
  "model_switch_is_confirmed \<longleftrightarrow> simple_engine (\<lambda>ei.
     asked ei simple_scripts 1 (cyr ''perekl`~isx na umnu` modelx'') (\<lambda>reply _. str_contains reply (cyr ''umnu`'')))"

definition usage_stats_are_reported :: bool where
  "usage_stats_are_reported \<longleftrightarrow> engine_with (recorded 2000000) (\<lambda>ei.
     asked ei simple_scripts 1 (cyr ''skolxko potratili'') (\<lambda>reply _.
       str_contains reply (asc ''1'') \<and> str_contains reply (asc ''2.00'')))"

definition help_is_returned :: bool where
  "help_is_returned \<longleftrightarrow> simple_engine (\<lambda>ei. asked ei simple_scripts 1 (cyr ''pomo}x'') (\<lambda>reply _. reply = HELP_TEXT))"

definition fast_answer_is_returned_directly_and_recorded :: bool where
  "fast_answer_is_returned_directly_and_recorded \<longleftrightarrow> engine_with fresh_memory (\<lambda>ei.
     asked ei (scripts (provider_replying (cyr ''Mars = ~etw#rtaq planeta.'')) (provider_replying (asc ''x''))) 1 (cyr ''rasskavi pro mars'') (\<lambda>reply d.
       reply = (cyr ''Mars = ~etw#rtaq planeta.'') \<and>
       map sm_content (recent_of (cyr ''Dima'') 10 d) = [(cyr ''rasskavi pro mars''), (cyr ''Mars = ~etw#rtaq planeta.'')] \<and>
       length (calls_of 0 d) = 1 \<and> str_contains (content_at 0 (calls_of 0 d ! 0)) (cyr ''golosowoj pomo}nik'')))"

text \<open>Eleven seconds later the task has ended.\<close>

definition after_sleep :: "memory_inner engine_inner \<Rightarrow> (nat \<Rightarrow> scripted_provider) \<Rightarrow> nat \<Rightarrow> memory_inner dialogue \<Rightarrow> memory_inner dialogue" where
  "after_sleep ei W j d = finish_task test_libs ei W j (d\<lparr>dg_now := dg_now d + 11 * 10 ^ 9, dg_utc := dg_utc d + 11\<rparr>)"

definition slow_answer_is_deferred_then_delivered :: bool where
  "slow_answer_is_deferred_then_delivered \<longleftrightarrow> engine_with fresh_memory (\<lambda>ei.
     let W = scripts (provider_slow (cyr ''dolgij otwet'') 10000) (provider_replying (asc ''x'')) in
     asked ei W 1 (cyr ''slovnyj wopros'') (\<lambda>first. asked ei W 2 (cyr ''nu ~to'') (\<lambda>second d.
       asked ei W 3 (cyr ''nu ~to tam'') (\<lambda>third _.
         first = PHRASE_THINKING_STARTED \<and> second = PHRASE_STILL_THINKING \<and> third = (cyr ''dolgij otwet'')) (after_sleep ei W 1 d))))"

definition think_hard_uses_smart_model :: bool where
  "think_hard_uses_smart_model \<longleftrightarrow> engine_with fresh_memory (\<lambda>ei.
     asked ei (scripts (provider_replying (cyr ''bystryj'')) (provider_replying (cyr ''umnyj''))) 1 (cyr ''podumaj kak sleduet ~to takoe |ntropiq'') (\<lambda>reply d.
       reply = (cyr ''umnyj'') \<and> length (calls_of 0 d) = 0 \<and> length (calls_of 1 d) = 1 \<and>
       cm_content (last (cr_messages (calls_of 1 d ! 0))) = (cyr ''~to takoe |ntropiq'')))"

definition entering_mode_asks_llm_with_mode_prompt :: bool where
  "entering_mode_asks_llm_with_mode_prompt \<longleftrightarrow> engine_with fresh_memory (\<lambda>ei.
     asked ei (scripts (provider_replying (cyr ''Vil-byl kot.'')) (provider_replying (asc ''x''))) 1 (cyr ''rasskavi skazku'') (\<lambda>reply d.
       reply = (cyr ''Vil-byl kot.'') \<and> str_contains (content_at 0 (calls_of 0 d ! 0)) (cyr ''Rasskazywaj skazki.'')))"

definition provider_errors_become_human_phrases :: bool where
  "provider_errors_become_human_phrases \<longleftrightarrow>
     list_all (\<lambda>(kind, phrase). engine_with fresh_memory (\<lambda>ei.
       asked ei (scripts (provider_failing kind) (provider_replying (asc ''x''))) 1 (cyr ''wopros'') (\<lambda>reply _. reply = phrase)))
       [(asc ''timeout'', PHRASE_PROVIDER_TIMEOUT), (asc ''rate'', PHRASE_RATE_LIMITED),
        (asc ''auth'', PHRASE_AUTH_FAILED), (asc ''boom'', PHRASE_PROVIDER_ERROR)]"

definition history_is_included_in_prompt :: bool where
  "history_is_included_in_prompt \<longleftrightarrow> engine_with fresh_memory (\<lambda>ei.
     let W = scripts (provider_replying (cyr ''otwet'')) (provider_replying (asc ''x'')) in
     asked ei W 1 (cyr ''perwyj wopros'') (\<lambda>_. asked ei W 2 (cyr ''wtoroj wopros'') (\<lambda>_ d.
       let second_call = calls_of 0 d ! 1 in
       length (cr_messages second_call) = 4 \<and> content_at 1 second_call = (cyr ''perwyj wopros'') \<and> content_at 2 second_call = (cyr ''otwet''))))"

text \<open>Four exchanges; after each, the summariser it spawned runs.\<close>

definition question :: "nat \<Rightarrow> rstr" where
  "question n = (cyr ''wopros '') @ show_nat n"

definition summarized :: "memory_inner engine_inner \<Rightarrow> (nat \<Rightarrow> scripted_provider) \<Rightarrow> nat \<Rightarrow>
    (memory_inner dialogue \<Rightarrow> bool) \<Rightarrow> memory_inner dialogue \<Rightarrow> bool" where
  "summarized ei W n k = asked ei W n (question n) (\<lambda>_ d. k (finish_summary ei W n d))"

definition old_history_is_summarized_in_background :: bool where
  "old_history_is_summarized_in_background \<longleftrightarrow> engine_with fresh_memory (\<lambda>ei.
     let W = scripts (provider_replying (cyr ''svatoe rez`me'')) (provider_replying (asc ''x'')) in
     summarized ei W 1 (summarized ei W 2 (summarized ei W 3 (summarized ei W 4 (\<lambda>d.
       some_with (unwrap_or None (fst (mem_summary (cyr ''Dima'') (dg_store d)))) (\<lambda>su.
         su_content su = (cyr ''svatoe rez`me'') \<and> 4 \<le> covers_until_message_id su) \<and>
       some_with (find (\<lambda>c. cr_max_tokens c = 250) (calls_of 0 d)) (\<lambda>c.
         str_contains (content_at 0 c) (cyr ''rez`me'') \<or> str_contains (content_at 0 c) (cyr ''Sovmi'')))))))"

subsection \<open>They pass\<close>

text \<open>What the runs have in common: the roster, the places where a request stops, the moves.\<close>

definition test_roster :: family_roster where
  "test_roster = \<lparr>fr_profiles = test_profiles, fr_default_index = 0\<rparr>"

lemma test_roster_new: "roster_new test_profiles (cyr ''Dima'') = Ok test_roster"
  by code_simp

lemma test_default: "roster_default_profile test_roster = Some (hd test_profiles)"
  by code_simp

lemma test_dima: "roster_get test_roster (cyr ''Dima'') = Some (hd test_profiles)"
  by code_simp

lemma test_dima_name: "pf_name (hd test_profiles) = (cyr ''Dima'')"
  by (simp add: test_profiles_def)

abbreviation parsed_as :: "rstr \<Rightarrow> parsed \<Rightarrow> bool" where
  "parsed_as utterance p \<equiv> parse basic_unicode utterance test_roster test_modes = p"

lemma test_commands:
  "parsed_as (cyr ''|to Ma{a'') (ParsedCommand (Introduce (cyr ''Ma{a'')))"
  "parsed_as (cyr ''kto q'') (ParsedCommand WhoAmI)"
  "parsed_as (cyr ''zabudx ws#'') (ParsedCommand Forget)"
  "parsed_as (cyr ''perekl`~isx na umnu` modelx'') (ParsedCommand UseSmartModel)"
  "parsed_as (cyr ''skolxko potratili'') (ParsedCommand UsageStats)"
  "parsed_as (cyr ''pomo}x'') (ParsedCommand Help)"
  "parsed_as (cyr ''rasskavi skazku'') (ParsedCommand (EnterMode (asc ''fairy_tale'')))"
  by code_simp+

lemma test_questions:
  "parsed_as (cyr ''rasskavi pro mars'') (Ask (cyr ''rasskavi pro mars'') False)"
  "parsed_as (cyr ''slovnyj wopros'') (Ask (cyr ''slovnyj wopros'') False)"
  "parsed_as (cyr ''nu ~to'') (Ask (cyr ''nu ~to'') False)"
  "parsed_as (cyr ''nu ~to tam'') (Ask (cyr ''nu ~to tam'') False)"
  "parsed_as (cyr ''podumaj kak sleduet ~to takoe |ntropiq'') (Ask (cyr ''~to takoe |ntropiq'') True)"
  "parsed_as (cyr ''wopros'') (Ask (cyr ''wopros'') False)"
  "parsed_as (cyr ''perwyj wopros'') (Ask (cyr ''perwyj wopros'') False)"
  "parsed_as (cyr ''wtoroj wopros'') (Ask (cyr ''wtoroj wopros'') False)"
  by code_simp+

lemmas dlg_run_defs =
  asked_def run_to_answer_def moves_numeral request_move_def waiting_move_def task_move_def too_slow_def scripted_result_def
  put_request_def put_task_def call_provider_def spawn_task_def reply_in_time_def drop_receiver_def record_step_def send_step_def
  complete_step_def put_summarizer_def answer_of_def some_with_def after_get_def after_poll_def pending_get_def pending_remove_def
  pending_mark_thinking_def pending_complete_def pending_clear_def dispatch_step_def ask_step_def

lemmas dlg_test_defs =
  simple_engine_def engine_with_def engine_over_def test_roster_new dialogue_new_def test_default test_dima test_dima_name test_libs_def
  registry_get_def test_preset_def memory_store_def window_of_def scripts_def fresh_memory_def

lemmas memory_defs =
  mem_record_exchange_def push_row_def mem_summary_def mem_recent_messages_def memory_new_def message_of_def unwrap_or_def
  exchange_of_def chat_request_of_def scripted_chat_def provider_replying_def provider_slow_def provider_failing_def

lemma introduce_passes: introduce_switches_profile
  by (simp add: introduce_switches_profile_def dlg_test_defs dlg_run_defs test_commands) code_simp

lemma forget_passes: forget_clears_history
  by (simp add: forget_clears_history_def dlg_test_defs dlg_run_defs test_commands recorded_def memory_defs mem_clear_profile_def
      recent_of_def)

lemma model_passes: model_switch_is_confirmed
  by (simp add: model_switch_is_confirmed_def dlg_test_defs dlg_run_defs test_commands) code_simp

lemma help_passes: help_is_returned
  by (simp add: help_is_returned_def dlg_test_defs dlg_run_defs test_commands)

text \<open>Numbers that are read or printed.\<close>

lemma test_window: "parsed_as (cyr ''pomni poslednie 500 replik'') (ParsedCommand (SetWindow 500))"
proof -
  let ?norm = "(cyr ''pomni poslednie 500 replik'')"
  have p: "normalize basic_unicode ?norm = ?norm" "?norm \<noteq> []" "phrase_command ?norm = None"
    "starts_with ?norm ((cyr ''pomni poslednie''))"
    "split_whitespace ?norm = [(cyr ''pomni''), (cyr ''poslednie''), [53, 48, 48], (cyr ''replik'')]"
    "introduction basic_unicode test_roster ?norm intro_prefixes = None"
    "parse_usize ((cyr ''pomni'')) = None" "parse_usize ((cyr ''poslednie'')) = None"
    by code_simp+
  have "parse_usize [53, 48, 48] = Some 500"
    by (simp add: parse_usize_def parse_digits_def digits_value_def is_ascii_digit_def usize_max_def)
  then have "window_command ?norm = Some 500" using p by (simp add: window_command_def)
  with p(1-3,6) show ?thesis by (simp add: parse_def command_of_def)
qed

lemma fifty: "show_nat 50 = asc ''50''"
proof -
  have "asc ''50'' = [53, 48]" by code_simp
  then show ?thesis by (simp add: show_nat.simps)
qed

lemma window_passes: set_window_is_clamped_and_confirmed
  by (simp add: set_window_is_clamped_and_confirmed_def dlg_test_defs dlg_run_defs test_window fifty) code_simp

lemma two_dollars:
  "f64_show2 hundredths (f64_div hundredths (f64_of_int hundredths 2000000) (f64_of_int hundredths 1000000)) = asc ''2.00''"
proof -
  have "asc ''2.00'' = [50, 46, 48, 48]" by code_simp
  then show ?thesis by (simp add: hundredths_def show_nat.simps numeral_2_eq_2)
qed

lemma first_of_may: "first_of_month gregorian 20601 = 20574"
  by code_simp

lemma usage_passes: usage_stats_are_reported
  by (simp add: usage_stats_are_reported_def dlg_test_defs dlg_run_defs test_commands recorded_def memory_defs mem_usage_since_def
      recent_of_def usage_report_def add_usage_def format_usd_def local_date_def midnight_def test_utc_def two_dollars
      first_of_may Let_def) code_simp

text \<open>Questions.\<close>

lemma fast_passes: fast_answer_is_returned_directly_and_recorded
  by (simp add: fast_answer_is_returned_directly_and_recorded_def dlg_test_defs dlg_run_defs memory_defs test_questions
      recent_of_def calls_of_def content_at_def ask_messages_def chat_system_def) code_simp

lemma slow_passes: slow_answer_is_deferred_then_delivered
  by (simp add: slow_answer_is_deferred_then_delivered_def dlg_test_defs dlg_run_defs memory_defs test_questions after_sleep_def
      finish_task_def Let_def THINKING_TTL_def)

lemma hard_passes: think_hard_uses_smart_model
  by (simp add: think_hard_uses_smart_model_def dlg_test_defs dlg_run_defs memory_defs test_questions calls_of_def
      ask_messages_def chat_user_def)

lemma mode_passes: entering_mode_asks_llm_with_mode_prompt
  by (simp add: entering_mode_asks_llm_with_mode_prompt_def dlg_test_defs dlg_run_defs memory_defs test_commands calls_of_def
      content_at_def ask_messages_def chat_system_def) code_simp

lemma test_kinds:
  "asc ''rate'' \<noteq> asc ''timeout''" "asc ''auth'' \<noteq> asc ''timeout''" "asc ''auth'' \<noteq> asc ''rate''"
  "asc ''boom'' \<noteq> asc ''timeout''" "asc ''boom'' \<noteq> asc ''rate''" "asc ''boom'' \<noteq> asc ''auth''"
  by code_simp+

lemma errors_pass: provider_errors_become_human_phrases
  by (simp add: provider_errors_become_human_phrases_def dlg_test_defs dlg_run_defs memory_defs test_questions test_kinds)

lemma history_passes: history_is_included_in_prompt
  by (simp add: history_is_included_in_prompt_def dlg_test_defs dlg_run_defs memory_defs test_questions Let_def calls_of_def
      content_at_def ask_messages_def chat_user_def chat_of_def chat_assistant_def)

text \<open>The summary.\<close>

lemma test_numbered:
  "parsed_as (question 1) (Ask (question 1) False)" "parsed_as (question 2) (Ask (question 2) False)"
  "parsed_as (question 3) (Ask (question 3) False)" "parsed_as (question 4) (Ask (question 4) False)"
  by code_simp+

lemma summary_words: "str_contains (summary_instruction previous lines) ((cyr ''Sovmi''))"
proof -
  have "starts_with (cyr ''Sovmi dialog w kratkoe rez`me iz tr#h-pqti predlovenij. '') ((cyr ''Sovmi''))" by code_simp
  then show ?thesis by (intro str_contains_start) (auto simp: summary_instruction_def starts_with_iff)
qed

text \<open>The rows after some of the exchanges, and the engine then.\<close>

fun memory_after :: "nat \<Rightarrow> memory_inner" where
  "memory_after 0 = fresh_memory"
| "memory_after (Suc n) = snd (mem_record_exchange
     \<lparr>er_profile = (cyr ''Dima''), er_user_text = question (Suc n), er_assistant_text = (cyr ''svatoe rez`me''), er_model = asc ''test-model'',
      er_prompt_tokens = 10, er_completion_tokens = 20, er_cost_micros = 50\<rparr> (memory_after n))"

definition no_summary_call :: "nat \<times> chat_request \<Rightarrow> bool" where
  "no_summary_call c \<longleftrightarrow> fst c = 0 \<and> cr_max_tokens (snd c) \<noteq> 250"

definition talked :: "nat \<Rightarrow> memory_inner dialogue \<Rightarrow> bool" where
  "talked n d \<longleftrightarrow> dg_store d = memory_after n \<and> dg_pending d = Map.empty \<and>
     dg_state d = \<lparr>active_profile = (cyr ''Dima''), ds_mode = None, ds_model_tier = Fast, window_override = None\<rparr> \<and>
     (\<forall>r > n. dg_tasks d r = None \<and> dg_summarizers d r = None) \<and> list_all no_summary_call (dg_calls d)"

abbreviation summary_scripts :: "nat \<Rightarrow> scripted_provider" where
  "summary_scripts \<equiv> scripts (provider_replying (cyr ''svatoe rez`me'')) (provider_replying (asc ''x''))"

lemma memory_after_kept: "ms_summaries (memory_after n) = Map.empty \<and> ms_next_id (memory_after n) = 2 * int n"
  by (induction n) (simp_all add: fresh_memory_def memory_new_def mem_record_exchange_def push_row_def)

definition old_rows :: "nat \<Rightarrow> (i64 \<times> stored_message) list" where
  "old_rows n = drop_last 4 (map (\<lambda>r. (row_id r, message_of r))
     (filter (\<lambda>r. row_profile r = (cyr ''Dima'') \<and> 0 < row_id r) (ms_rows (memory_after n))))"

lemma memory_after_rows: "length (filter (\<lambda>r. row_profile r = (cyr ''Dima'') \<and> 0 < row_id r) (ms_rows (memory_after n))) = 2 * n"
  using memory_after_kept by (induction n) (simp_all add: fresh_memory_def memory_new_def mem_record_exchange_def push_row_def)

lemma length_old_rows: "length (old_rows n) = 2 * n - 4"
  by (simp add: old_rows_def drop_last_def memory_after_rows)

lemma unsummarized_after: "mem_unsummarized (cyr ''Dima'') 4 (memory_after n) = (Ok (old_rows n), memory_after n)"
  by (simp add: mem_unsummarized_def old_rows_def memory_after_kept)

lemma covers_four: "covers_until (old_rows 4) = 4"
  by (simp add: covers_until_def old_rows_def drop_last_def numeral_eq_Suc fresh_memory_def memory_new_def
      mem_record_exchange_def push_row_def)

lemma cost_of_answer: "cost_micros hundredths \<lparr>prompt_tokens = 10, completion_tokens = 20\<rparr> (test_preset 0) = 50"
  by (simp add: cost_micros_def hundredths_def test_preset_def)

lemma asked_numbered:
  assumes "talked n d" and "parsed_as (question (Suc n)) (Ask (question (Suc n)) False)"
  shows "\<exists>d'. asked (engine_over test_roster) summary_scripts (Suc n) (question (Suc n)) k d = k (cyr ''svatoe rez`me'') d' \<and>
     dg_store d' = memory_after (Suc n) \<and> dg_pending d' = Map.empty \<and> dg_state d' = dg_state d \<and>
     (\<forall>r > Suc n. dg_tasks d' r = None \<and> dg_summarizers d' r = None) \<and> dg_summarizers d' (Suc n) = Some ((cyr ''Dima''), SBegin) \<and>
     list_all no_summary_call (dg_calls d')"
proof -
  let ?st = "dg_state d" and ?ei = "engine_over test_roster"
  define c where "c = \<lparr>ac_question = question (Suc n), ac_tier = Fast, ac_profile = hd test_profiles, ac_name = (cyr ''Dima''),
    ac_mode = None, ac_window = 4\<rparr>"
  define a where "a = \<lparr>ak_name = (cyr ''Dima''), ak_question = question (Suc n), ak_preset = test_preset 0,
    ak_messages = ask_messages test_libs ?ei (dg_utc d) c None (unwrap_or [] (fst (mem_recent_messages (cyr ''Dima'') 4 (dg_store d))))\<rparr>"
  have run: "run_to_answer test_libs ?ei summary_scripts (Suc n) (asc ''u1'', question (Suc n)) d =
      exchanged test_libs ?ei (Suc n) (asc ''u1'', question (Suc n)) a (cyr ''svatoe rez`me'') d"
  proof (rule run_exchanged)
    show "dispatch_step test_libs ?ei (dg_utc d) (snd (asc ''u1'', question (Suc n))) ?st = (Asking (question (Suc n)) None, ?st)"
      using assms(2) by (simp add: dispatch_step_def test_libs_def engine_over_def)
    show "ask_step ?ei (question (Suc n)) None ?st = Calling (LoadSummary c)"
      using assms(1) by (simp add: ask_step_def talked_def engine_over_def test_dima window_of_def c_def)
    show "store_step test_libs ?ei (dg_utc d) (LoadSummary c) (dg_store d) = (Calling (LoadHistory c None), dg_store d)"
      using assms(1) memory_after_kept by (simp add: engine_over_def memory_store_def mem_summary_def talked_def unwrap_or_def)
    show "store_step test_libs ?ei (dg_utc d) (LoadHistory c None) (dg_store d) = (Spawning a, dg_store d)"
      by (simp add: engine_over_def memory_store_def mem_recent_messages_def a_def c_def registry_get_def)
  qed (use assms(1) in \<open>simp_all add: talked_def a_def scripts_def provider_replying_def test_preset_def\<close>)
  let ?d = "exchanged test_libs ?ei (Suc n) (asc ''u1'', question (Suc n)) a (cyr ''svatoe rez`me'') d"
  have "answer_of ?d (Suc n) = Some (cyr ''svatoe rez`me'')" by (simp add: answer_of_def exchanged_def)
  with run have "asked ?ei summary_scripts (Suc n) (question (Suc n)) k d = k (cyr ''svatoe rez`me'') ?d"
    by (simp add: asked_def some_with_def)
  moreover have "dg_store ?d = memory_after (Suc n)"
    using assms(1) by (simp add: exchanged_def talked_def a_def engine_over_def memory_store_def exchange_of_def test_libs_def
        cost_of_answer) (simp add: test_preset_def)
  moreover have "dg_pending ?d = Map.empty" "dg_state ?d = dg_state d" "dg_summarizers ?d (Suc n) = Some ((cyr ''Dima''), SBegin)"
      "\<forall>r > Suc n. dg_tasks ?d r = None \<and> dg_summarizers ?d r = None" "list_all no_summary_call (dg_calls ?d)"
    using assms(1) by (auto simp: exchanged_def talked_def a_def no_summary_call_def chat_request_of_def test_preset_def)
  ultimately show ?thesis by blast
qed

lemma engine_over_store: "upsert_summary (ei_store (engine_over roster)) = mem_upsert_summary"
  by (simp add: engine_over_def memory_store_def)

lemma test_preset_provider: "mp_provider (test_preset n) = n"
  by (simp add: test_preset_def)

lemma test_window_four: "talked n d \<Longrightarrow> window_of (ei_config (engine_over test_roster)) (dg_state d) = 4"
  by (simp add: talked_def window_of_def engine_over_def)

lemma summarized_numbered:
  assumes "talked n d" and "parsed_as (question (Suc n)) (Ask (question (Suc n)) False)" and "n < 3"
  shows "\<exists>d'. summarized (engine_over test_roster) summary_scripts (Suc n) k d = k d' \<and> talked (Suc n) d'"
proof -
  let ?ei = "engine_over test_roster"
  obtain d' where d': "summarized ?ei summary_scripts (Suc n) k d = k (finish_summary ?ei summary_scripts (Suc n) d')"
      "dg_store d' = memory_after (Suc n)" "dg_pending d' = Map.empty" "dg_state d' = dg_state d"
      "\<forall>r > Suc n. dg_tasks d' r = None \<and> dg_summarizers d' r = None" "dg_summarizers d' (Suc n) = Some ((cyr ''Dima''), SBegin)"
      "list_all no_summary_call (dg_calls d')"
    using asked_numbered [OF assms(1,2), of "\<lambda>_ d. k (finish_summary ?ei summary_scripts (Suc n) d)"]
    unfolding summarized_def by (elim exE conjE) (rule that, simp add: summarized_def, assumption+)
  have "finish_summary ?ei summary_scripts (Suc n) d' = d'\<lparr>dg_summarizers := (dg_summarizers d')(Suc n \<mapsto> ((cyr ''Dima''), SDone))\<rparr>"
  proof (rule run_no_summary [OF d'(6)])
    show "unsummarized (ei_store ?ei) (cyr ''Dima'') (window_of (ei_config ?ei) (dg_state d')) (dg_store d') = (Ok (old_rows (Suc n)), dg_store d')"
      unfolding d'(2,4) test_window_four [OF assms(1)]
      by (simp del: memory_after.simps add: engine_over_def memory_store_def unsummarized_after)
    show "length (old_rows (Suc n)) < window_of (ei_config ?ei) (dg_state d')"
      unfolding d'(4) test_window_four [OF assms(1)] using assms(3) by (simp add: length_old_rows)
  qed
  with assms(1) d' show ?thesis
    by (intro exI [of _ "d'\<lparr>dg_summarizers := (dg_summarizers d')(Suc n \<mapsto> ((cyr ''Dima''), SDone))\<rparr>"])
       (simp del: memory_after.simps add: talked_def)
qed

text \<open>The fourth exchange leaves enough behind the window.\<close>

lemma summarized_at_last:
  assumes "talked 3 d"
  shows "\<exists>d' cs. summarized (engine_over test_roster) summary_scripts 4 k d = k d' \<and>
     ms_summaries (dg_store d') (cyr ''Dima'') = Some \<lparr>su_content = (cyr ''svatoe rez`me''), covers_until_message_id = 4\<rparr> \<and>
     dg_calls d' = cs @ [(0, summary_request (engine_over test_roster) (old_rows 4) [])] \<and> list_all no_summary_call cs"
proof -
  let ?ei = "engine_over test_roster"
  have four: "4 = Suc 3" by simp
  obtain d' where d': "summarized ?ei summary_scripts 4 k d = k (finish_summary ?ei summary_scripts 4 d')"
      "dg_store d' = memory_after 4" "dg_pending d' = Map.empty" "dg_state d' = dg_state d"
      "dg_summarizers d' 4 = Some ((cyr ''Dima''), SBegin)" "list_all no_summary_call (dg_calls d')"
    using asked_numbered [OF assms test_numbered(4) [unfolded four], of "\<lambda>_ d. k (finish_summary ?ei summary_scripts 4 d)"]
    unfolding summarized_def four [symmetric] by (elim exE conjE) (rule that, simp add: summarized_def, assumption+)
  have fast: "registry_get (ei_models ?ei) Fast = test_preset 0" by (simp add: engine_over_def registry_get_def)
  have "finish_summary ?ei summary_scripts 4 d' =
     d'\<lparr>dg_store := snd (upsert_summary (ei_store ?ei) (cyr ''Dima'') \<lparr>su_content = (cyr ''svatoe rez`me''),
            covers_until_message_id = covers_until (old_rows 4)\<rparr> (dg_store d')),
        dg_summarizers := (dg_summarizers d')(4 \<mapsto> ((cyr ''Dima''), SDone)),
        dg_calls := dg_calls d' @ [(mp_provider (registry_get (ei_models ?ei) Fast), summary_request ?ei (old_rows 4) [])]\<rparr>"
  proof (rule run_summary [OF d'(5)])
    show "unsummarized (ei_store ?ei) (cyr ''Dima'') (window_of (ei_config ?ei) (dg_state d')) (dg_store d') = (Ok (old_rows 4), dg_store d')"
      unfolding d'(2,4) test_window_four [OF assms]
      by (simp del: memory_after.simps add: engine_over_def memory_store_def unsummarized_after)
    show "window_of (ei_config ?ei) (dg_state d') \<le> length (old_rows 4)"
      unfolding d'(4) test_window_four [OF assms] by (simp add: length_old_rows)
    show "summary (ei_store ?ei) (cyr ''Dima'') (dg_store d') = (Ok None, dg_store d')"
      unfolding d'(2) by (simp del: memory_after.simps add: engine_over_def memory_store_def mem_summary_def memory_after_kept)
    show "sp_script (summary_scripts (mp_provider (registry_get (ei_models ?ei) Fast))) = Ok ((cyr ''svatoe rez`me''))"
      unfolding fast by (simp add: test_preset_def scripts_def provider_replying_def)
  qed
  with d'(6) show ?thesis unfolding d'(1) fast
    by (intro exI [of _ "finish_summary ?ei summary_scripts 4 d'"] exI [of _ "dg_calls d'"])
       (simp add: engine_over_store mem_upsert_summary_def covers_four
         test_preset_provider)
qed

lemma find_after:
  "list_all (\<lambda>c. \<not> P c) xs \<Longrightarrow> P x \<Longrightarrow> find P (xs @ [x]) = Some x"
  by (induction xs) auto

lemma calls_of_summary:
  assumes "dg_calls d = cs @ [(0, c)]" and "list_all no_summary_call cs" and "cr_max_tokens c = 250"
  shows "find (\<lambda>c. cr_max_tokens c = 250) (calls_of 0 d) = Some c"
proof -
  have "list_all (\<lambda>c. cr_max_tokens c \<noteq> 250) (map snd (filter (\<lambda>c. fst c = 0) cs))"
    using assms(2) by (auto simp: list_all_iff no_summary_call_def)
  with assms(1,3) show ?thesis by (simp add: calls_of_def find_after)
qed

lemma old_history_passes: old_history_is_summarized_in_background
proof -
  let ?ei = "engine_over test_roster"
  define last_check :: "memory_inner dialogue \<Rightarrow> bool" where "last_check = (\<lambda>d.
    some_with (unwrap_or None (fst (mem_summary (cyr ''Dima'') (dg_store d)))) (\<lambda>su.
      su_content su = (cyr ''svatoe rez`me'') \<and> 4 \<le> covers_until_message_id su) \<and>
    some_with (find (\<lambda>c. cr_max_tokens c = 250) (calls_of 0 d)) (\<lambda>c.
      str_contains (content_at 0 c) (cyr ''rez`me'') \<or> str_contains (content_at 0 c) (cyr ''Sovmi'')))"
  obtain d0 where d0: "dialogue_new ?ei fresh_memory 0 test_utc = Some d0" and t0: "talked 0 d0"
    by (simp add: dialogue_new_def engine_over_def test_default test_dima_name talked_def)
  define s where "s n = summarized ?ei summary_scripts n" for n
  obtain d1 where d1: "s 1 (s 2 (s 3 (s 4 last_check))) d0 = s 2 (s 3 (s 4 last_check)) d1" "talked 1 d1"
    using summarized_numbered [OF t0, simplified, OF test_numbered(1) [simplified], of "s 2 (s 3 (s 4 last_check))"]
    by (auto simp: s_def)
  obtain d2 where d2: "s 2 (s 3 (s 4 last_check)) d1 = s 3 (s 4 last_check) d2" "talked 2 d2"
    using summarized_numbered [OF d1(2), of "s 3 (s 4 last_check)"] test_numbered(2) by (auto simp: s_def numeral_2_eq_2)
  obtain d3 where d3: "s 3 (s 4 last_check) d2 = s 4 last_check d3" "talked 3 d3"
    using summarized_numbered [OF d2(2), of "s 4 last_check"] test_numbered(3) by (auto simp: s_def numeral_3_eq_3 numeral_2_eq_2)
  obtain d4 cs where d4: "s 4 last_check d3 = last_check d4"
      "ms_summaries (dg_store d4) (cyr ''Dima'') = Some \<lparr>su_content = (cyr ''svatoe rez`me''), covers_until_message_id = 4\<rparr>"
      "dg_calls d4 = cs @ [(0, summary_request ?ei (old_rows 4) [])]" "list_all no_summary_call cs"
    using summarized_at_last [OF d3(2), of last_check] by (auto simp: s_def)
  have "find (\<lambda>c. cr_max_tokens c = 250) (calls_of 0 d4) = Some (summary_request ?ei (old_rows 4) [])"
    by (rule calls_of_summary [OF d4(3,4)]) (simp add: summary_request_def)
  moreover have "str_contains (content_at 0 (summary_request ?ei (old_rows 4) [])) (cyr ''Sovmi'')"
    using summary_words by (simp add: content_at_def summary_request_def chat_system_def)
  ultimately have "last_check d4"
    using d4(2) by (simp add: last_check_def mem_summary_def unwrap_or_def some_with_def)
  then have "s 1 (s 2 (s 3 (s 4 last_check))) d0" by (simp only: d1(1) d2(1) d3(1) d4(1))
  then show ?thesis
    by (simp only: old_history_is_summarized_in_background_def engine_with_def test_roster_new sum.case d0 some_with_def
        option.case Let_def s_def last_check_def)
qed

subsection \<open>\<^verbatim>\<open>model.rs\<close>\<close>

definition priced_preset :: "f64 \<Rightarrow> f64 \<Rightarrow> model_preset" where
  "priced_preset input output =
     \<lparr>mp_provider = 0, mp_model = asc ''m'', mp_max_tokens = 100, mp_temperature = 1060320051,
      input_price_per_mtok = input, output_price_per_mtok = output\<rparr>"

text \<open>0.27 and 1.10 dollars, in hundredths.\<close>

definition computes_cost_in_micro_dollars :: bool where
  "computes_cost_in_micro_dollars \<longleftrightarrow>
     cost_micros hundredths \<lparr>prompt_tokens = 1000000, completion_tokens = 0\<rparr> (priced_preset 27 110) = 270000 \<and>
     cost_micros hundredths \<lparr>prompt_tokens = 1000, completion_tokens = 500\<rparr> (priced_preset 27 110) = 820"

definition registry_selects_tier :: bool where
  "registry_selects_tier \<longleftrightarrow>
     (let registry = \<lparr>mr_fast = priced_preset 10 20, mr_smart = priced_preset 100 200\<rparr> in
      input_price_per_mtok (registry_get registry Fast) = 10 \<and> input_price_per_mtok (registry_get registry Smart) = 100)"

lemma model_tests_pass: computes_cost_in_micro_dollars registry_selects_tier
  by (simp_all add: computes_cost_in_micro_dollars_def registry_selects_tier_def cost_micros_def hundredths_def
      priced_preset_def registry_get_def)

end
