(* ===== verification/Unit_Tests_House.thy ===== *)
theory Unit_Tests_House
  imports Unit_Tests House_Run
begin

section \<open>The unit tests of the household engine, on the model\<close>

text \<open>
  The tests beside \<^verbatim>\<open>house_engine.rs\<close> and \<^verbatim>\<open>house_prompt.rs\<close>. Each test of the engine is a run of the scheduler
  over the in-memory store and a scripted runtime; durations are milliseconds.
\<close>

subsection \<open>What the tests share\<close>

definition test_input :: "rstr \<Rightarrow> rstr \<Rightarrow> rstr \<Rightarrow> household_input" where
  "test_input user app utterance =
     \<lparr>hi_identity = \<lparr>si_user_id = user, si_application_id = app\<rparr>, hi_utterance = utterance, hi_new_session = False\<rparr>"

definition two_surface_store :: "rstr option \<Rightarrow> household_inner option" where
  "two_surface_store thread_id =
     Option.bind (mem_member 1 (asc ''OWNER'') (mem_house 1 (cyr ''Dom mamy'') thread_id (asc ''homey-mother'') mem_fixture)) (\<lambda>s.
     Option.bind (mem_member 1 (asc ''MOTHER'') s) (\<lambda>s.
     Option.bind (mem_surface 1 (asc ''OWNER'') (asc ''owner-station'') s) (\<lambda>s.
     mem_surface 1 (asc ''MOTHER'') (asc ''mother-station'') s)))"

definition test_config :: "nat \<Rightarrow> household_engine_config" where
  "test_config budget = \<lparr>reply_budget = budget, chunk_limit = 850, homey_enabled = False\<rparr>"

definition house_engine_with :: "rstr option \<Rightarrow> (household_inner engine \<Rightarrow> bool) \<Rightarrow> bool" where
  "house_engine_with thread_id k = some_with (two_surface_store thread_id) (\<lambda>s. k (engine_new s))"

text \<open>\<open>engine.respond(input).await\<close>, and what follows; the requests are numbered by the test.\<close>

definition responded :: "nat \<Rightarrow> scripted_house_runtime \<Rightarrow> nat \<Rightarrow> household_input \<Rightarrow>
    (household_reply \<Rightarrow> household_inner engine \<Rightarrow> bool) \<Rightarrow> household_inner engine \<Rightarrow> bool" where
  "responded budget W r input k e =
     (case house_run basic_unicode (test_config budget) memory_household_store W r (arrived r input e) of
        e' \<Rightarrow> some_with (house_reply_of e' r) (\<lambda>reply. k reply e'))"

fun turn_of :: "runtime_call \<Rightarrow> (rstr \<times> rstr) list" where
  "turn_of (RunTurn house thread_id utterance) = [(thread_id, utterance)]"
| "turn_of (StartThread house instructions) = []"

definition turn_calls :: "'s engine \<Rightarrow> (rstr \<times> rstr) list" where
  "turn_calls e = concat (map turn_of (en_calls e))"

definition start_calls :: "'s engine \<Rightarrow> runtime_call list" where
  "start_calls e = filter (\<lambda>c. turn_of c = []) (en_calls e)"

fun said :: "household_reply \<Rightarrow> (rstr \<Rightarrow> bool) \<Rightarrow> bool" where
  "said (Say str) P = P str"
| "said reply P = False"

subsection \<open>The tests of the engine\<close>

definition two_accounts_share_one_started_thread :: bool where
  "two_accounts_share_one_started_thread \<longleftrightarrow> house_engine_with None (
     let W = runtime_replying (cyr ''Korotkij otwet'') in
     responded 1000 W 1 (test_input (asc ''OWNER'') (asc ''owner-station'') (cyr ''Perwyj wopros'')) (\<lambda>first.
     responded 1000 W 2 (test_input (asc ''MOTHER'') (asc ''mother-station'') (cyr ''Wtoroj wopros'')) (\<lambda>second e.
       first = Say (cyr ''Korotkij otwet'') \<and> second = Say (cyr ''Korotkij otwet'') \<and>
       length (start_calls e) = 1 \<and> length (turn_calls e) = 2 \<and>
       list_all (\<lambda>(thread_id, _). thread_id = asc ''thread-1'') (turn_calls e))))"

definition long_answer :: rstr where
  "long_answer = replicate 1000 1040"

definition continuation_consumes_any_non_refusal_without_new_turn :: bool where
  "continuation_consumes_any_non_refusal_without_new_turn \<longleftrightarrow> house_engine_with (Some (asc ''thread-1'')) (
     let W = runtime_replying long_answer in
     responded 1000 W 1 (test_input (asc ''OWNER'') (asc ''owner-station'') (cyr ''Rasskavi podrobno'')) (\<lambda>first.
     responded 1000 W 2 (test_input (asc ''OWNER'') (asc ''owner-station'') (cyr ''wkl`~i swet'')) (\<lambda>second e.
       said first (\<lambda>str. ends_with str (cyr '' Prodolvatx?'')) \<and> said second (\<lambda>str. \<not> ends_with str (cyr '' Prodolvatx?'')) \<and>
       length (turn_calls e) = 1)))"

definition explicit_stop_clears_continuation :: bool where
  "explicit_stop_clears_continuation \<longleftrightarrow> house_engine_with (Some (asc ''thread-1'')) (
     let W = runtime_replying long_answer in
     responded 1000 W 1 (test_input (asc ''OWNER'') (asc ''owner-station'') (cyr ''Rasskavi podrobno'')) (\<lambda>_.
     responded 1000 W 2 (test_input (asc ''OWNER'') (asc ''owner-station'') (cyr ''Ne nado!'')) (\<lambda>reply e.
       reply = Say (cyr ''Horo{o.'') \<and>
       fst (mem_take_continuation 1 (asc ''owner-station'') (en_store e)) = Ok None \<and> length (turn_calls e) = 1)))"

definition timed_out_answer_is_saved_only_for_initiating_surface :: bool where
  "timed_out_answer_is_saved_only_for_initiating_surface \<longleftrightarrow> house_engine_with (Some (asc ''thread-1'')) (
     let W = runtime_slow (cyr ''Gotowyj otwet'') 40 in
     responded 5 W 1 (test_input (asc ''OWNER'') (asc ''owner-station'') (cyr ''Slovnyj wopros'')) (\<lambda>reply e.
       let s = en_store (house_finish (test_config 5) memory_household_store W 1 e) in
       reply = Say ([1071] @ cyr '' e}# duma`. Sprosite menq ~erez neskolxko sekund.'') \<and>
       fst (mem_poll_pending 1 (asc ''owner-station'') s) = Ok (Ready (cyr ''Gotowyj otwet'')) \<and>
       fst (mem_poll_pending 1 (asc ''mother-station'') s) = Ok NoReply))"

text \<open>The second request comes while the first is in its turn.\<close>

definition concurrent_surface_gets_busy_instead_of_starting_second_turn :: bool where
  "concurrent_surface_gets_busy_instead_of_starting_second_turn \<longleftrightarrow> house_engine_with (Some (asc ''thread-1'')) (\<lambda>e.
     let W = runtime_slow (cyr ''Otwet'') 50;
         e1 = house_run_to_turn basic_unicode (test_config 1000) memory_household_store W 1
           (arrived 1 (test_input (asc ''OWNER'') (asc ''owner-station'') (cyr ''Perwyj'')) e) in
     responded 1000 W 2 (test_input (asc ''MOTHER'') (asc ''mother-station'') (cyr ''Wtoroj'')) (\<lambda>second e2.
       let e3 = house_run basic_unicode (test_config 1000) memory_household_store W 1 e2 in
       second = Busy \<and> some_with (house_reply_of e3 1) (\<lambda>first. said first (\<lambda>_. True)) \<and>
       length (turn_calls e3) = 1) e1)"

subsection \<open>They pass\<close>

lemma house_names:
  "asc ''OWNER'' \<noteq> asc ''MOTHER''" "asc ''MOTHER'' \<noteq> asc ''OWNER''"
  "asc ''owner-station'' \<noteq> asc ''mother-station''" "asc ''mother-station'' \<noteq> asc ''owner-station''"
  by code_simp+

lemma two_surfaces:
  "two_surface_store thread_id = Some
     \<lparr>houses = [1 \<mapsto> \<lparr>hc_id = 1, hc_name = (cyr ''Dom mamy''), codex_thread_id = thread_id, homey_connector_id = asc ''homey-mother''\<rparr>],
      members = {(1, asc ''OWNER''), (1, asc ''MOTHER'')},
      surfaces = [asc ''owner-station'' \<mapsto> (1, asc ''OWNER''), asc ''mother-station'' \<mapsto> (1, asc ''MOTHER'')],
      pending = Map.empty, continuations = Map.empty\<rparr>"
  by (auto simp: two_surface_store_def mem_member_def mem_house_def mem_fixture_def mem_surface_def house_names)

lemmas house_run_defs =
  house_engine_with_def two_surfaces responded_def house_run_def house_run_to_turn_def arrived_def in_turn_def moves_numeral
  house_request_move_def house_wait_move_def house_job_move_def slow_turn_def house_watcher_move_def house_finish_def
  house_reply_of_def some_with_def engine_defs test_config_def test_input_def memory_store_defs house_names Let_def
  runtime_replying_def runtime_slow_def or_panic_def shape_and_save_def

text \<open>An answer that fits is said as it is; the long one is cut once.\<close>

lemma short_split: "length str + 12 \<le> 850 \<Longrightarrow> shaper_split 850 str = Some \<lparr>spoken = str, remaining = []\<rparr>"
  using shaper_split_shape [of 850 str] by auto

lemma test_answers:
  "shaper_split 850 (cyr ''Korotkij otwet'') = Some \<lparr>spoken = (cyr ''Korotkij otwet''), remaining = []\<rparr>"
  "shaper_split 850 (cyr ''Otwet'') = Some \<lparr>spoken = (cyr ''Otwet''), remaining = []\<rparr>"
proof -
  have "length (cyr ''Korotkij otwet'') = 14" "length (cyr ''Otwet'') = 5" by code_simp+
  then show "shaper_split 850 (cyr ''Korotkij otwet'') = Some \<lparr>spoken = (cyr ''Korotkij otwet''), remaining = []\<rparr>"
    "shaper_split 850 (cyr ''Otwet'') = Some \<lparr>spoken = (cyr ''Otwet''), remaining = []\<rparr>"
    by (simp_all add: short_split)
qed

lemma timed_out_passes: timed_out_answer_is_saved_only_for_initiating_surface
  by (simp add: timed_out_answer_is_saved_only_for_initiating_surface_def house_run_defs STILL_THINKING_def)

text \<open>
  A request that finds its house idle and nothing stored for its device: one turn, in the thread of the house or in
  one that is started and saved.
\<close>

definition thread_for :: "scripted_house_runtime \<Rightarrow> house_context \<Rightarrow> household_inner \<Rightarrow> rstr \<Rightarrow> household_inner \<Rightarrow>
    runtime_call list \<Rightarrow> bool" where
  "thread_for W house s t s' cs \<longleftrightarrow>
     codex_thread_id house = Some t \<and> s' = s \<and> cs = [] \<or>
     codex_thread_id house = None \<and> t = sh_thread_id W \<and> mem_save_thread_id (hc_id house) t s = (Ok (), s') \<and>
     cs = [StartThread house (build_house_instructions house False)]"

lemmas one_request =
  house_run_def arrived_def moves_numeral house_request_move_def house_wait_move_def house_job_move_def slow_turn_def
  engine_defs test_config_def test_input_def memory_household_store_def mem_resolve_step_def mem_take_continuation_def
  mem_poll_pending_def or_panic_def shape_and_save_def

lemma save_continuation_ok: "\<exists>s'. mem_save_continuation h app ps s = (Ok (), s')"
  by (simp add: mem_save_continuation_def Let_def)

lemma responded_turn:
  assumes "en_locks e = Map.empty" "en_jobs e r = None"
    and "mem_resolve_surface \<lparr>si_user_id = user, si_application_id = app\<rparr> (en_store e) = (Ok (Bound house), en_store e)"
    and "continuations (en_store e) (hc_id house, app) = None" "pending (en_store e) (hc_id house, app) = None"
    and "thread_for W house (en_store e) t s1 cs" "sh_delay W \<le> budget"
    and "shaper_split 850 (sh_reply W) = Some \<lparr>spoken = p, remaining = ps\<rparr>"
  shows "\<exists>e'. responded budget W r (test_input user app u) k e = k (Say p) e' \<and>
     en_store e' = snd (mem_save_continuation (hc_id house) app ps s1) \<and> en_locks e' = Map.empty \<and>
     (\<forall>j. j \<noteq> r \<longrightarrow> en_jobs e' j = en_jobs e j) \<and> en_calls e' = en_calls e @ cs @ [RunTurn house t u]"
proof -
  define e' where "e' = house_run basic_unicode (test_config budget) memory_household_store W r (arrived r (test_input user app u) e)"
  have taken: "en_store e\<lparr>continuations := (continuations (en_store e))((hc_id house, app) := None)\<rparr> = en_store e"
    using assms(4) by (cases "en_store e") (auto simp: fun_upd_idem)
  obtain s' where s': "mem_save_continuation (hc_id house) app ps s1 = (Ok (), s')"
    using save_continuation_ok by blast
  have "e' = e\<lparr>en_store := s', en_requests := (en_requests e)(r \<mapsto> (test_input user app u, Done (Say p))),
     en_jobs := (en_jobs e)(r \<mapsto> \<lparr>jb_input = test_input user app u, jb_house = house, jb_phase = JFinished (WorkOk (sh_reply W)),
       jb_aborting = False\<rparr>), en_locks := Map.empty, en_calls := en_calls e @ cs @ [RunTurn house t u]\<rparr>"
    using assms(6) unfolding thread_for_def
  proof (elim disjE conjE)
    assume "codex_thread_id house = Some t" "s1 = en_store e" "cs = []"
    with assms(1-5,7,8) s' taken show ?thesis by (simp add: e'_def one_request)
  next
    assume "codex_thread_id house = None" "t = sh_thread_id W" "mem_save_thread_id (hc_id house) t (en_store e) = (Ok (), s1)"
      "cs = [StartThread house (build_house_instructions house False)]"
    with assms(1-5,7,8) s' taken show ?thesis by (simp add: e'_def one_request)
  qed
  with s' show ?thesis
    by (intro exI [of _ e']) (simp add: responded_def e'_def [symmetric] house_reply_of_def some_with_def)
qed

text \<open>A request that finds the rest of an answer.\<close>

lemma responded_rest:
  assumes "mem_resolve_surface \<lparr>si_user_id = user, si_application_id = app\<rparr> (en_store e) = (Ok (Bound house), en_store e)"
    and "continuations (en_store e) (hc_id house, app) = Some chunks"
    and "answer_continuation basic_unicode 850 memory_household_store (hc_id house) app u chunks
       (en_store e\<lparr>continuations := (continuations (en_store e))((hc_id house, app) := None)\<rparr>) = Some (reply, s')"
  shows "\<exists>e'. responded budget W r (test_input user app u) k e = k reply e' \<and> en_store e' = s' \<and> en_calls e' = en_calls e"
proof -
  define e' where "e' = house_run basic_unicode (test_config budget) memory_household_store W r (arrived r (test_input user app u) e)"
  have "e' = e\<lparr>en_store := s', en_requests := (en_requests e)(r \<mapsto> (test_input user app u, Done reply))\<rparr>"
    using assms by (simp add: e'_def one_request)
  then show ?thesis
    by (intro exI [of _ e']) (simp add: responded_def e'_def [symmetric] house_reply_of_def some_with_def)
qed

subsubsection \<open>The long answer\<close>

lemma snd_char_indices_from: "map snd (char_indices_from off s) = s"
  by (induction off s rule: char_indices_from.induct) simp_all

lemma unbroken_split:
  assumes "\<forall>c \<in> set s. c \<notin> set (asc ''.!?'' @ [8230]) \<and> \<not> is_whitespace c \<and> c \<noteq> 10"
  shows "preferred_split s = None"
proof -
  have snd: "c \<in> set s" if "(i, c) \<in> set (char_indices s)" for i c
    using that snd_char_indices_from [of 0 s] by (metis char_indices_def image_eqI list.set_map snd_conv)
  have "rfind_str s [10, 10] = None"
  proof (cases "rfind_str s [10, 10]")
    case (Some i)
    then obtain a b where "s = a @ [10, 10] @ b" by (rule rfind_str_Some)
    then have "10 \<in> set s" by simp
    with assms show ?thesis by blast
  qed
  moreover have "sentence_or_space_split s = None"
  proof -
    have "find (\<lambda>(_, character). character \<in> set (asc ''.!?'' @ [8230])) (rev (char_indices s)) = None"
      "find (\<lambda>(index, character). index > 0 \<and> is_whitespace character) (rev (char_indices s)) = None"
      unfolding find_None_iff using assms snd by auto
    then show ?thesis by (simp only: sentence_or_space_split_def option.case option.map)
  qed
  ultimately show ?thesis by (simp add: preferred_split_def)
qed

lemma unbroken_step:
  assumes "preferred_split (take limit str) = None" and "length str > limit"
  shows "split_loop chunks str limit = split_loop (chunks @ [take limit str]) (drop limit str) limit"
proof -
  have ends: "iter_nth (char_indices str) limit = Some (str_len (take limit str), str ! limit)"
    using assms(2) by (rule iter_nth_char_indices)
  have "slice_to str (str_len (take limit str)) = Some (take limit str)"
    "slice_from str (str_len (take limit str)) = Some (drop limit str)"
    using slice_to_boundary [of "take limit str" "drop limit str"] slice_from_boundary [of "take limit str" "drop limit str"]
    by simp_all
  with assms ends show ?thesis by (subst split_loop.simps) (simp add: Let_def)
qed

definition first_piece :: rstr where "first_piece = replicate 838 1040"
definition second_piece :: rstr where "second_piece = replicate 162 1040"

lemma pieces: "long_answer = first_piece @ second_piece" "length first_piece = 838" "length second_piece = 162"
  by (simp_all add: long_answer_def first_piece_def second_piece_def replicate_add [symmetric])

lemma long_split: "shaper_split 850 long_answer = Some \<lparr>spoken = first_piece @ CONTINUATION_SUFFIX, remaining = [second_piece]\<rparr>"
proof -
  have suffix: "length CONTINUATION_SUFFIX = 12" by code_simp
  have not_empty: "second_piece \<noteq> []" using pieces(3) by (metis list.size(3) zero_neq_numeral)
  have plain: "1040 \<notin> set (asc ''.!?'' @ [8230]) \<and> \<not> is_whitespace 1040 \<and> (1040 :: rchar) \<noteq> 10" by code_simp
  have "preferred_split (take 838 long_answer) = None"
    by (rule unbroken_split) (use plain in \<open>simp add: pieces(1,2) first_piece_def\<close>)
  then have "split_loop [] long_answer 838 = split_loop ([] @ [take 838 long_answer]) (drop 838 long_answer) 838"
    by (rule unbroken_step) (simp add: pieces)
  also have "\<dots> = Some ([first_piece], second_piece)"
    by (subst split_loop.simps) (simp add: pieces)
  finally have "split_into_chunks long_answer 838 = Some [first_piece, second_piece]"
    using not_empty by (simp add: split_into_chunks_def)
  then show ?thesis by (simp add: shaper_split_def suffix)
qed

lemma rest_split: "shaper_split 850 second_piece = Some \<lparr>spoken = second_piece, remaining = []\<rparr>"
  by (rule short_split) (simp add: pieces)

lemma not_asked_again: "\<not> ends_with second_piece (cyr '' Prodolvatx?'')"
proof
  assume "ends_with second_piece (cyr '' Prodolvatx?'')"
  then obtain t where "second_piece = t @ (cyr '' Prodolvatx?'')" by (auto simp: ends_with_iff)
  moreover have "63 \<in> set (cyr '' Prodolvatx?'')" by code_simp
  ultimately have "63 \<in> set second_piece" by (metis UnCI set_append)
  then show False by (simp add: second_piece_def)
qed

subsubsection \<open>The runs\<close>

definition moms_house :: "rstr option \<Rightarrow> house_context" where
  "moms_house thread_id = \<lparr>hc_id = 1, hc_name = (cyr ''Dom mamy''), codex_thread_id = thread_id, homey_connector_id = asc ''homey-mother''\<rparr>"

definition two_surfaces_with :: "rstr option \<Rightarrow> household_inner" where
  "two_surfaces_with thread_id =
     \<lparr>houses = [1 \<mapsto> moms_house thread_id], members = {(1, asc ''OWNER''), (1, asc ''MOTHER'')},
      surfaces = [asc ''owner-station'' \<mapsto> (1, asc ''OWNER''), asc ''mother-station'' \<mapsto> (1, asc ''MOTHER'')],
      pending = Map.empty, continuations = Map.empty\<rparr>"

lemma house_engine_starts: "house_engine_with thread_id k = k (engine_new (two_surfaces_with thread_id))"
  by (simp add: house_engine_with_def two_surfaces some_with_def two_surfaces_with_def moms_house_def)

lemma both_bound:
  assumes "s = two_surfaces_with thread_id\<lparr>continuations := c\<rparr>"
  shows "mem_resolve_surface \<lparr>si_user_id = asc ''OWNER'', si_application_id = asc ''owner-station''\<rparr> s = (Ok (Bound (moms_house thread_id)), s)"
    and "mem_resolve_surface \<lparr>si_user_id = asc ''MOTHER'', si_application_id = asc ''mother-station''\<rparr> s = (Ok (Bound (moms_house thread_id)), s)"
  using assms by (simp_all add: mem_resolve_surface_def two_surfaces_with_def house_names)

lemma house_facts:
  "hc_id (moms_house thread_id) = 1" "codex_thread_id (moms_house thread_id) = thread_id"
  "continuations (two_surfaces_with thread_id) = Map.empty" "pending (two_surfaces_with thread_id) = Map.empty"
  "two_surfaces_with thread_id\<lparr>continuations := Map.empty\<rparr> = two_surfaces_with thread_id"
  by (simp_all add: moms_house_def two_surfaces_with_def)

lemma thread_saved:
  "mem_save_thread_id 1 t (two_surfaces_with None) = (Ok (), two_surfaces_with (Some t))"
  by (simp add: mem_save_thread_id_def two_surfaces_with_def moms_house_def)

lemma nothing_saved: "mem_save_continuation h app [] (two_surfaces_with thread_id) = (Ok (), two_surfaces_with thread_id)"
  by (simp add: mem_save_continuation_def two_surfaces_with_def Let_def fun_upd_idem)

lemma engine_new_facts:
  "en_store (engine_new s) = s" "en_locks (engine_new s) = Map.empty" "en_jobs (engine_new s) = Map.empty" "en_calls (engine_new s) = []"
  by (simp_all add: engine_new_def)

lemma two_accounts_passes: two_accounts_share_one_started_thread
proof -
  let ?W = "runtime_replying (cyr ''Korotkij otwet'')" and ?a = "test_input (asc ''OWNER'') (asc ''owner-station'') (cyr ''Perwyj wopros'')"
    and ?b = "test_input (asc ''MOTHER'') (asc ''mother-station'') (cyr ''Wtoroj wopros'')"
  define check where "check first second e \<longleftrightarrow>
    first = Say (cyr ''Korotkij otwet'') \<and> second = Say (cyr ''Korotkij otwet'') \<and> length (start_calls e) = 1 \<and> length (turn_calls e) = 2 \<and>
    list_all (\<lambda>(thread_id, _). thread_id = asc ''thread-1'') (turn_calls e)" for first second and e :: "household_inner engine"
  let ?s0 = "two_surfaces_with None" and ?s1 = "two_surfaces_with (Some (asc ''thread-1''))"
  have w: "sh_reply ?W = (cyr ''Korotkij otwet'')" "sh_thread_id ?W = asc ''thread-1''" "sh_delay ?W = 0" by (simp_all add: runtime_replying_def)
  have "thread_for ?W (moms_house None) ?s0 (asc ''thread-1'') ?s1
      [StartThread (moms_house None) (build_house_instructions (moms_house None) False)]"
    by (simp add: thread_for_def house_facts w thread_saved)
  then obtain e1 where e1: "responded 1000 ?W 1 ?a (\<lambda>first. responded 1000 ?W 2 ?b (check first)) (engine_new ?s0) =
      responded 1000 ?W 2 ?b (check (Say (cyr ''Korotkij otwet''))) e1" "en_store e1 = ?s1" "en_locks e1 = Map.empty" "en_jobs e1 2 = None"
      "en_calls e1 = [StartThread (moms_house None) (build_house_instructions (moms_house None) False),
         RunTurn (moms_house None) (asc ''thread-1'') (cyr ''Perwyj wopros'')]"
    using responded_turn [of "engine_new ?s0" 1 "asc ''OWNER''" "asc ''owner-station''" "moms_house None" ?W "asc ''thread-1''" ?s1
      "[StartThread (moms_house None) (build_house_instructions (moms_house None) False)]" 1000 "(cyr ''Korotkij otwet'')" "[]" "(cyr ''Perwyj wopros'')"
      "\<lambda>first. responded 1000 ?W 2 ?b (check first)"]
      both_bound(1) [of ?s0 Map.empty None] test_answers(1)
    by (auto simp: engine_new_facts house_facts w nothing_saved)
  obtain e2 where e2: "responded 1000 ?W 2 ?b (check (Say (cyr ''Korotkij otwet''))) e1 = check (Say (cyr ''Korotkij otwet'')) (Say (cyr ''Korotkij otwet'')) e2"
      "en_calls e2 = en_calls e1 @ [RunTurn (moms_house (Some (asc ''thread-1''))) (asc ''thread-1'') (cyr ''Wtoroj wopros'')]"
    using responded_turn [of e1 2 "asc ''MOTHER''" "asc ''mother-station''" "moms_house (Some (asc ''thread-1''))" ?W "asc ''thread-1''" ?s1
      "[]" 1000 "(cyr ''Korotkij otwet'')" "[]" "(cyr ''Wtoroj wopros'')" "check (Say (cyr ''Korotkij otwet''))"]
      both_bound(2) [of ?s1 Map.empty "Some (asc ''thread-1'')"] test_answers(1) e1(2-4)
    by (auto simp: house_facts w thread_for_def)
  have "check (Say (cyr ''Korotkij otwet'')) (Say (cyr ''Korotkij otwet'')) e2"
    by (simp add: check_def start_calls_def turn_calls_def e2(2) e1(5))
  with e1(1) e2(1) show ?thesis
    by (simp add: two_accounts_share_one_started_thread_def house_engine_starts check_def [abs_def] Let_def)
qed

text \<open>The long answer: the first piece is said, the second kept for the device.\<close>

definition with_rest :: household_inner where
  "with_rest = two_surfaces_with (Some (asc ''thread-1''))\<lparr>continuations := [(1, asc ''owner-station'') \<mapsto> [second_piece]]\<rparr>"

lemma long_answer_asked:
  "\<exists>e'. responded 1000 (runtime_replying long_answer) 1 (test_input (asc ''OWNER'') (asc ''owner-station'') (cyr ''Rasskavi podrobno'')) k
       (engine_new (two_surfaces_with (Some (asc ''thread-1'')))) = k (Say (first_piece @ CONTINUATION_SUFFIX)) e' \<and>
     en_store e' = with_rest \<and> length (turn_calls e') = 1"
proof -
  let ?s = "two_surfaces_with (Some (asc ''thread-1''))" and ?h = "moms_house (Some (asc ''thread-1''))"
  obtain e' where "responded 1000 (runtime_replying long_answer) 1 (test_input (asc ''OWNER'') (asc ''owner-station'') (cyr ''Rasskavi podrobno'')) k
       (engine_new ?s) = k (Say (first_piece @ CONTINUATION_SUFFIX)) e'"
      "en_store e' = snd (mem_save_continuation 1 (asc ''owner-station'') [second_piece] ?s)"
      "en_calls e' = [RunTurn ?h (asc ''thread-1'') (cyr ''Rasskavi podrobno'')]"
    using responded_turn [of "engine_new ?s" 1 "asc ''OWNER''" "asc ''owner-station''" ?h "runtime_replying long_answer" "asc ''thread-1''" ?s
      "[]" 1000 "first_piece @ CONTINUATION_SUFFIX" "[second_piece]" "(cyr ''Rasskavi podrobno'')" k]
      both_bound(1) [of ?s Map.empty "Some (asc ''thread-1'')"] long_split
    by (auto simp: engine_new_facts house_facts thread_for_def runtime_replying_def)
  then show ?thesis
    by (intro exI [of _ e']) (simp add: mem_save_continuation_def with_rest_def house_facts turn_calls_def)
qed

text \<open>The second request of the device, whatever it says.\<close>

lemma rest_asked:
  assumes "en_store e = with_rest"
    and "answer_continuation basic_unicode 850 memory_household_store 1 (asc ''owner-station'') u [second_piece]
       (two_surfaces_with (Some (asc ''thread-1''))) = Some (reply, two_surfaces_with (Some (asc ''thread-1'')))"
  shows "\<exists>e'. responded 1000 W 2 (test_input (asc ''OWNER'') (asc ''owner-station'') u) k e = k reply e' \<and>
     en_store e' = two_surfaces_with (Some (asc ''thread-1'')) \<and> turn_calls e' = turn_calls e"
proof -
  let ?s = "two_surfaces_with (Some (asc ''thread-1''))"
  have "with_rest\<lparr>continuations := (continuations with_rest)((1, asc ''owner-station'') := None)\<rparr> = ?s"
    by (simp add: with_rest_def house_facts)
  with responded_rest [of "asc ''OWNER''" "asc ''owner-station''" e "moms_house (Some (asc ''thread-1''))" "[second_piece]" u reply ?s 1000 W 2 k]
    both_bound(1) [of with_rest "[(1, asc ''owner-station'') \<mapsto> [second_piece]]" "Some (asc ''thread-1'')"] assms
  show ?thesis by (auto simp: house_facts turn_calls_def with_rest_def)
qed

lemma second_answers:
  "answer_continuation basic_unicode 850 memory_household_store 1 app (cyr ''wkl`~i swet'') [second_piece] (two_surfaces_with t) =
     Some (Say second_piece, two_surfaces_with t)"
  "answer_continuation basic_unicode 850 memory_household_store 1 app (cyr ''Ne nado!'') [second_piece] s = Some (Say (cyr ''Horo{o.''), s)"
proof -
  have said: "from_utterance basic_unicode (cyr ''wkl`~i swet'') = Continue" "from_utterance basic_unicode (cyr ''Ne nado!'') = Stop" by code_simp+
  show "answer_continuation basic_unicode 850 memory_household_store 1 app (cyr ''wkl`~i swet'') [second_piece] (two_surfaces_with t) =
     Some (Say second_piece, two_surfaces_with t)"
    by (simp add: answer_continuation_def said(1) shape_and_save_def rest_split memory_household_store_def nothing_saved)
  show "answer_continuation basic_unicode 850 memory_household_store 1 app (cyr ''Ne nado!'') [second_piece] s = Some (Say (cyr ''Horo{o.''), s)"
    by (simp add: answer_continuation_def said(2))
qed

lemma continuation_passes: continuation_consumes_any_non_refusal_without_new_turn
proof -
  let ?W = "runtime_replying long_answer" and ?a = "test_input (asc ''OWNER'') (asc ''owner-station'')"
  define check where "check first second e \<longleftrightarrow> said first (\<lambda>str. ends_with str (cyr '' Prodolvatx?'')) \<and>
    said second (\<lambda>str. \<not> ends_with str (cyr '' Prodolvatx?'')) \<and> length (turn_calls e) = 1" for first second and e :: "household_inner engine"
  obtain e1 where e1: "responded 1000 ?W 1 (?a (cyr ''Rasskavi podrobno'')) (\<lambda>first. responded 1000 ?W 2 (?a (cyr ''wkl`~i swet'')) (check first))
      (engine_new (two_surfaces_with (Some (asc ''thread-1'')))) =
      responded 1000 ?W 2 (?a (cyr ''wkl`~i swet'')) (check (Say (first_piece @ CONTINUATION_SUFFIX))) e1"
      "en_store e1 = with_rest" "length (turn_calls e1) = 1"
    using long_answer_asked [of "\<lambda>first. responded 1000 ?W 2 (?a (cyr ''wkl`~i swet'')) (check first)"] by blast
  obtain e2 where "responded 1000 ?W 2 (?a (cyr ''wkl`~i swet'')) (check (Say (first_piece @ CONTINUATION_SUFFIX))) e1 =
      check (Say (first_piece @ CONTINUATION_SUFFIX)) (Say second_piece) e2" "turn_calls e2 = turn_calls e1"
    using rest_asked [OF e1(2) second_answers(1), of ?W "check (Say (first_piece @ CONTINUATION_SUFFIX))"] by blast
  moreover have "ends_with (first_piece @ CONTINUATION_SUFFIX) (cyr '' Prodolvatx?'')" by (auto simp: ends_with_iff CONTINUATION_SUFFIX_def)
  ultimately have "responded 1000 ?W 2 (?a (cyr ''wkl`~i swet'')) (check (Say (first_piece @ CONTINUATION_SUFFIX))) e1"
    using e1(3) not_asked_again by (simp add: check_def)
  with e1(1) show ?thesis
    by (simp add: continuation_consumes_any_non_refusal_without_new_turn_def house_engine_starts check_def [abs_def] Let_def)
qed

lemma explicit_stop_passes: explicit_stop_clears_continuation
proof -
  let ?W = "runtime_replying long_answer" and ?a = "test_input (asc ''OWNER'') (asc ''owner-station'')"
  define check where "check reply e \<longleftrightarrow> reply = Say (cyr ''Horo{o.'') \<and>
    fst (mem_take_continuation 1 (asc ''owner-station'') (en_store e)) = Ok None \<and> length (turn_calls e) = 1"
    for reply and e :: "household_inner engine"
  obtain e1 where e1: "responded 1000 ?W 1 (?a (cyr ''Rasskavi podrobno'')) (\<lambda>_. responded 1000 ?W 2 (?a (cyr ''Ne nado!'')) check)
      (engine_new (two_surfaces_with (Some (asc ''thread-1'')))) = responded 1000 ?W 2 (?a (cyr ''Ne nado!'')) check e1"
      "en_store e1 = with_rest" "length (turn_calls e1) = 1"
    using long_answer_asked [of "\<lambda>_. responded 1000 ?W 2 (?a (cyr ''Ne nado!'')) check"] by blast
  obtain e2 where "responded 1000 ?W 2 (?a (cyr ''Ne nado!'')) check e1 = check (Say (cyr ''Horo{o.'')) e2"
      "en_store e2 = two_surfaces_with (Some (asc ''thread-1''))" "turn_calls e2 = turn_calls e1"
    using rest_asked [OF e1(2) second_answers(2), of ?W check] by blast
  then have "responded 1000 ?W 2 (?a (cyr ''Ne nado!'')) check e1"
    using e1(3) by (simp add: check_def mem_take_continuation_def house_facts)
  with e1(1) show ?thesis
    by (simp add: explicit_stop_clears_continuation_def house_engine_starts check_def [abs_def] Let_def)
qed

text \<open>Two requests at once: the second meets the lock, the first still gets its answer.\<close>

lemma concurrent_passes: concurrent_surface_gets_busy_instead_of_starting_second_turn
proof -
  let ?W = "runtime_slow (cyr ''Otwet'') 50" and ?h = "moms_house (Some (asc ''thread-1''))" and ?s = "two_surfaces_with (Some (asc ''thread-1''))"
  let ?a = "test_input (asc ''OWNER'') (asc ''owner-station'') (cyr ''Perwyj'')"
    and ?b = "test_input (asc ''MOTHER'') (asc ''mother-station'') (cyr ''Wtoroj'')"
    and ?run = "house_run basic_unicode (test_config 1000) memory_household_store (runtime_slow (cyr ''Otwet'') 50)"
  have bound: "mem_resolve_surface (hi_identity ?a) ?s = (Ok (Bound ?h), ?s)" "mem_resolve_surface (hi_identity ?b) ?s = (Ok (Bound ?h), ?s)"
    using both_bound [of ?s Map.empty "Some (asc ''thread-1'')"] by (simp_all add: test_input_def house_facts)
  have taken: "?s\<lparr>continuations := Map.empty\<rparr> = ?s" by (simp add: house_facts)
  define e1 where "e1 = (engine_new ?s)\<lparr>en_requests := [1 \<mapsto> (?a, Wait ?h 1)],
    en_jobs := [1 \<mapsto> \<lparr>jb_input = ?a, jb_house = ?h, jb_phase = JTurn (asc ''thread-1''), jb_aborting = False\<rparr>],
    en_locks := [1 \<mapsto> 1], en_calls := [RunTurn ?h (asc ''thread-1'') (cyr ''Perwyj'')]\<rparr>"
  have "house_run_to_turn basic_unicode (test_config 1000) memory_household_store ?W 1 (arrived 1 ?a (engine_new ?s)) = e1"
    using bound(1) by (simp add: e1_def one_request house_run_to_turn_def in_turn_def house_facts taken)
  moreover define e2 where "e2 = e1\<lparr>en_requests := (en_requests e1)(2 \<mapsto> (?b, Done Busy))\<rparr>"
  have "?run 2 (arrived 2 ?b e1) = e2"
    using bound(2) by (simp add: e2_def e1_def one_request house_facts taken)
  moreover have "house_reply_of (?run 1 e2) 1 = Some (Say (cyr ''Otwet'')) \<and> length (turn_calls (?run 1 e2)) = 1"
    by (simp add: e2_def e1_def one_request house_facts test_answers nothing_saved runtime_slow_def house_reply_of_def turn_calls_def)
  moreover have "house_reply_of e2 2 = Some Busy" by (simp add: e2_def house_reply_of_def)
  ultimately show ?thesis
    by (simp add: concurrent_surface_gets_busy_instead_of_starting_second_turn_def house_engine_starts responded_def some_with_def Let_def)
qed

subsection \<open>\<^verbatim>\<open>house_prompt.rs\<close>\<close>

definition prompt_house :: "rstr \<Rightarrow> house_context" where
  "prompt_house connector = \<lparr>hc_id = 7, hc_name = (cyr ''Dom mamy''), codex_thread_id = None, homey_connector_id = connector\<rparr>"

definition prompt_limits_voice_answer_and_tools_to_current_house :: bool where
  "prompt_limits_voice_answer_and_tools_to_current_house \<longleftrightarrow>
     has_parts (Some (build_house_instructions (prompt_house (asc ''PRIVATE-CONNECTOR-ID'')) True))
       [[(cyr ''doma <Dom mamy>'')], [(cyr ''Otwe~aj po-russki'')], [(cyr ''850 simwolow'')],
        [(cyr ''tolxko predostawlennye instrumenty teku}ego doma'')], [asc ''verified=true''],
        [(cyr ''maksimum odno samoe wavnoe preduprevdenie'')], [(cyr ''zamkami'')], [(cyr ''worotami'')], [(cyr ''ohranoj'')], [(cyr ''duhowkami'')], [(cyr ''nagrewatelqmi'')]]
       [asc ''PRIVATE-CONNECTOR-ID'']"

definition chat_only_prompt_does_not_offer_device_tools :: bool where
  "chat_only_prompt_does_not_offer_device_tools \<longleftrightarrow>
     has_parts (Some (build_house_instructions (prompt_house (asc ''homey-mother'')) False)) []
       [asc ''Homey'', (cyr ''ustrojstwa''), (cyr ''instrument'')]"

text \<open>A text that contains each part, segment by segment.\<close>

lemma starts_with_left: "starts_with a p \<Longrightarrow> starts_with (a @ b) p"
  by (auto simp: starts_with_iff)

lemma contains_left: "str_contains a p \<Longrightarrow> str_contains (a @ b) p"
proof (induction a)
  case Nil
  then show ?case by (cases b) (auto simp: starts_with_def)
next
  case (Cons c a)
  then show ?case using starts_with_left [of "c # a" p b] by auto
qed

lemma contains_right: "str_contains b p \<Longrightarrow> str_contains (a @ b) p"
  by (induction a) simp_all

lemma contains_set: "str_contains s p \<Longrightarrow> set p \<subseteq> set s"
proof (induction s)
  case (Cons c s)
  then consider t where "c # s = p @ t" | "str_contains s p" by (auto simp: starts_with_iff)
  then show ?case
  proof cases
    case 1
    then show ?thesis by (metis Un_upper1 set_append)
  qed (use Cons.IH in auto)
qed simp

lemma tools_prompt_passes: prompt_limits_voice_answer_and_tools_to_current_house
proof -
  have parts:
    "str_contains (cyr ''pamqtx`. Otwe~aj po-russki, estestwenno i bez preambuly. Po umol~ani` ukladywaj '') (cyr ''Otwe~aj po-russki'')"
    "str_contains (cyr ''otwet w 850 simwolow; ne soob}aj o tehni~eskih limitah. Nikogda ne i}i fajly, '') (cyr ''850 simwolow'')"
    "str_contains (cyr ''Ispolxzuj tolxko predostawlennye instrumenty teku}ego doma. Dlq izmeneniq '') (cyr ''tolxko predostawlennye instrumenty teku}ego doma'')"
    "str_contains (asc ''verified=true '') (asc ''verified=true'')"
    "str_contains (cyr ''i dobawx maksimum odno samoe wavnoe preduprevdenie. Ne uprawlqj zamkami, '') (cyr ''maksimum odno samoe wavnoe preduprevdenie'')"
    "str_contains (cyr ''i dobawx maksimum odno samoe wavnoe preduprevdenie. Ne uprawlqj zamkami, '') (cyr ''zamkami'')"
    "str_contains (cyr ''worotami, ohranoj, duhowkami, nagrewatelqmi i neizwestnymi ustrojstwami. Esli '') (cyr ''worotami'')"
    "str_contains (cyr ''worotami, ohranoj, duhowkami, nagrewatelqmi i neizwestnymi ustrojstwami. Esli '') (cyr ''ohranoj'')"
    "str_contains (cyr ''worotami, ohranoj, duhowkami, nagrewatelqmi i neizwestnymi ustrojstwami. Esli '') (cyr ''duhowkami'')"
    "str_contains (cyr ''worotami, ohranoj, duhowkami, nagrewatelqmi i neizwestnymi ustrojstwami. Esli '') (cyr ''nagrewatelqmi'')"
    by code_simp+
  let ?tail = "cyr ''>. Wesx widimyj tebe dialog otnositsq tolxko k |tomu domu i qwlqetsq ego ob}ej ''"
  have "(cyr ''doma <Dom mamy>'') = cyr ''doma <'' @ (cyr ''Dom mamy'') @ cyr ''>''" "starts_with ?tail (cyr ''>'')" by code_simp+
  then have name: "str_contains (cyr ''doma <'' @ (cyr ''Dom mamy'') @ ?tail @ rest) ((cyr ''doma <Dom mamy>''))" for rest
    by (intro str_contains_start) (auto simp: starts_with_iff)
  have "82 \<in> set (asc ''PRIVATE-CONNECTOR-ID'')"
    "82 \<notin> set (build_house_instructions (prompt_house (asc ''PRIVATE-CONNECTOR-ID'')) True)" by code_simp+
  then have "\<not> str_contains (build_house_instructions (prompt_house (asc ''PRIVATE-CONNECTOR-ID'')) True) (asc ''PRIVATE-CONNECTOR-ID'')"
    using contains_set by blast
  moreover have "str_contains (build_house_instructions (prompt_house c) True) p"
    if "p \<in> {(cyr ''doma <Dom mamy>''), (cyr ''Otwe~aj po-russki''), (cyr ''850 simwolow''), (cyr ''tolxko predostawlennye instrumenty teku}ego doma''),
      asc ''verified=true'', (cyr ''maksimum odno samoe wavnoe preduprevdenie''), (cyr ''zamkami''), (cyr ''worotami''), (cyr ''ohranoj''), (cyr ''duhowkami''), (cyr ''nagrewatelqmi'')}"
    for c p
    using that unfolding build_house_instructions_def prompt_house_def
    by (elim insertE emptyE) (simp_all add: name parts contains_left contains_right)
  ultimately show ?thesis by (simp add: prompt_limits_voice_answer_and_tools_to_current_house_def)
qed

lemma chat_only_passes: chat_only_prompt_does_not_offer_device_tools
  by code_simp

end
