(* ===== verification/Spec2Isabelle.thy ===== *)
theory Spec2Isabelle
  imports Revocation Own_Words Question Dialogue_System Routes Test_Doubles Unit_Tests_Stores Unit_Tests_Pg Unit_Tests_Dialogue Unit_Tests_House
begin

text \<open>
  A model of \<^bold>\<open>alice-llm-bridge\<close>, the backend of a Yandex Alice skill that answers with language models, and
  what makes it correct. Paths are below \<^verbatim>\<open>src/crates/\<close>.

  \<^bold>\<open>The program.\<close> A webhook (\<^verbatim>\<open>routes.rs\<close>) hands an utterance to one of two engines, chosen by the configuration.
  The \<^emph>\<open>household\<close> engine (\<^verbatim>\<open>bridge-core/src/house_engine.rs\<close>) resolves the device to a house in Postgres,
  offers a pairing code to an unknown device of a member, allows one task per house, runs the task in the house's
  thread of a Codex app-server over JSON-RPC, and answers within a budget: what comes later is stored and told at
  the next request, what is too long is told piece by piece. The \<^emph>\<open>dialogue\<close> engine (\<^verbatim>\<open>engine.rs\<close>) recognises
  spoken commands, asks a chat model with the history of the active profile, keeps late answers in memory and
  compresses old history into a summary. A second program, \<^verbatim>\<open>bridge-admin\<close>, manages houses, members and devices
  in the same tables.

  \<^bold>\<open>Theories, in the order of import.\<close>
  \<^item> \<open>Prelude\<close>: results as sums (\<open>Inl\<close> the error), \<open>try_bind\<close> for the question mark, lists and closures.
    \<open>Rust_Str\<close>: \<open>String\<close> as a list of code points with byte offsets, slices that may panic, searching, trimming,
    decimal printing; the Unicode tables are the record \<open>unicode\<close> with laws in the locale \<open>unicode_db\<close>.
    \<open>Utf8\<close>: encoding and decoding of UTF-8.
  \<^item> \<open>Reply\<close> (\<^verbatim>\<open>reply.rs\<close>): cutting a long answer, reading the next utterance.
  \<^item> \<open>State_Crypto\<close> (\<^verbatim>\<open>state_crypto.rs\<close>): sealed state and pairing hashes; \<open>crypto_lib\<close> holds the primitives.
  \<^item> \<open>House_Store\<close> (\<^verbatim>\<open>household.rs\<close>, \<^verbatim>\<open>house_store.rs\<close>, and the in-memory store of \<^verbatim>\<open>testing.rs\<close>): the trait as
    a record of operations, the abstract \<open>house_view\<close>, and the contract \<open>household_store_laws\<close> of a store.
  \<^item> \<open>House_Store_Pg\<close> (\<^verbatim>\<open>house_store_pg.rs\<close>, migration 0002): the tables, each operation as its statements, and that
    the store meets the contract whichever calls of the database fail.
  \<^item> \<open>House_Engine\<close> (\<^verbatim>\<open>house_engine.rs\<close>, \<^verbatim>\<open>house_prompt.rs\<close>, \<^verbatim>\<open>house_runtime.rs\<close>): \<open>engine_step\<close> interleaves requests,
    tasks and watchers at their await points; the invariants are proved in the locale \<open>engine_laws\<close>, for any store.
  \<^item> \<open>Admin\<close> (\<^verbatim>\<open>bin/bridge-admin.rs\<close>): parsing and execution of the administrator's commands.
  \<^item> \<open>Household_System\<close>: engine, Postgres store, administrator, clock and failing database together.
    \<open>Revocation\<close>: what disabling a device achieves while pairings are under way. \<open>Household_Talk\<close>: the requests
    of one device over time, to the end of a long or late answer. \<open>Own_Words\<close>: whose answers a device hears.
    \<open>House_Run\<close> is a scheduler that makes the moves of \<open>engine_step\<close> in the order of time; \<open>Question\<close> follows a
    question answered in time through it, on the Postgres store.
  \<^item> \<open>Command\<close> (\<^verbatim>\<open>profile.rs\<close>, \<^verbatim>\<open>mode.rs\<close>, \<^verbatim>\<open>command.rs\<close>, \<^verbatim>\<open>error.rs\<close>): roster and spoken commands.
    \<open>Provider\<close> (\<^verbatim>\<open>llm-providers\<close>, \<^verbatim>\<open>model.rs\<close>): the chat client with its retry, prices.
    \<open>Conv_Store\<close> (\<^verbatim>\<open>store.rs\<close>, \<^verbatim>\<open>store_pg.rs\<close>, the fake of \<^verbatim>\<open>testing.rs\<close>, migration 0001): history and summaries, the
    contract \<open>conversation_laws\<close> and its two interpretations. \<open>Prompt\<close> (\<^verbatim>\<open>prompt.rs\<close>, \<^verbatim>\<open>phrases.rs\<close>).
  \<^item> \<open>Dialogue_Engine\<close> (\<^verbatim>\<open>engine.rs\<close>, \<^verbatim>\<open>pending.rs\<close>): \<open>dlg_step\<close> interleaves requests, reply tasks and summarisers;
    \<open>Dialogue_System\<close> holds its theorems, \<open>Dialogue_Run\<close> a scheduler for it.
  \<^item> \<open>Json_Rpc\<close> (\<^verbatim>\<open>codex-runtime/src/client.rs\<close>, \<^verbatim>\<open>error.rs\<close>): the client, over any transport that meets
    \<open>transport_laws\<close>; the JSONL stream and the WebSocket are the interpretations. A connection is what comes over it,
    then closed or open and silent; a read that does not return has the result \<open>Waiting\<close>. \<open>Codex_Runtime\<close> (\<^verbatim>\<open>lib.rs\<close>,
    \<^verbatim>\<open>protocol.rs\<close>): configuration, starting a thread, running a turn.
  \<^item> \<open>Alice_Protocol\<close> (\<^verbatim>\<open>alice-protocol\<close>): requests, replies and the clipping of a reply. \<open>Config\<close> (\<^verbatim>\<open>config.rs\<close>) and
    \<open>Assemble\<close> (\<^verbatim>\<open>assemble.rs\<close>): from the file to an engine. \<open>Routes\<close> (\<^verbatim>\<open>routes.rs\<close>, and \<open>main_state\<close>, what
    \<^verbatim>\<open>main.rs\<close> builds before it listens).
  \<^item> \<open>Test_Doubles\<close>: the scripted provider and runtime of \<^verbatim>\<open>testing.rs\<close>, as behaviours of the step relations.
  \<^item> \<open>Unit_Tests\<close>, \<open>Unit_Tests_Stores\<close>, \<open>Unit_Tests_Pg\<close>, \<open>Unit_Tests_Dialogue\<close>, \<open>Unit_Tests_House\<close>: the tests that stand
    beside the code, translated as definitions and evaluated on the model, those of the engines as runs of the two
    schedulers, which are proved to be runs of the step relations. They check that the model answers as the code does.

  \<^bold>\<open>State and time.\<close> A call of a store is one atomic step where the operation is a single statement or one
  transaction; \<open>resolve_surface\<close>, which is up to four statements, is as many steps (\<open>resolve_point\<close>). The code between two awaits belongs to the step of the await before it. The reply budget may run
  out at any time, tasks may panic, providers and the app-server may answer anything or nothing, the clock moves, and
  the relation \<open>E\<close> says what other processes do to the store. What a property says of the past of a state is said of an
  earlier state of the same run: \<open>engine_run\<close> keeps the states a run went through. A call of a store is taken to return,
  and one that fails to have changed nothing. \<open>Panicked\<close> and \<open>None\<close> are panics of the source. A
  mutex is the atomicity of the step that holds it.

  \<^bold>\<open>Parameters.\<close> Unicode case tables, calendar arithmetic, floating point, the AEAD, HMAC and hex crates, parsing and
  printing of JSON and TOML, random codes and nonces, environment variables and the HTTP network are arguments of the
  definitions that use them; what is relied on is a named hypothesis (\<open>unicode_db\<close>, \<open>crypto_laws\<close>, \<open>pg_env_laws\<close>),
  each with a concrete instance. What the commands rely on of the case tables beyond \<open>unicode_db\<close> is \<open>transcription_db\<close>. The JSON value and its accessors are written out as their crate documents them.
  Prices and temperatures are the bits of their floats. SQL is modelled as the effect of each statement on the tables.

  \<^bold>\<open>Fuel.\<close> A request makes at most ten steps of its own in the household engine (\<open>rank\<close>), so \<open>run_request 8\<close>
  reaches its end or the lock; nine in the dialogue engine (\<open>dlg_rank\<close>). A JSON-RPC conversation gets one unit more
  than the messages that can still come, which is enough for every read: with it the result is an answer, an error or
  \<open>Waiting\<close>, the last only on an open connection (\<open>socket_turn_returns\<close>). Cutting an answer
  is a partial function that is proved to return.

  \<^bold>\<open>What is shown.\<close> One task per house and one thread per house in every interleaving; deferred answers and late
  answers reach only their asker; all a device hears beyond fixed phrases are stretches of its own answers; Codex runs only for admitted devices, only in an isolated thread, and never gets an
  approval; a turn returns when the app-server has closed the connection, and never when it stays silent; every request is answered and no panic is reachable; pairing binds exactly the device that was told the
  code; a disabled device stays out unless a pairing of it was under way; long and late answers are heard in full; both Postgres stores refine their traits under faults; long answers lose nothing and fit; the parser is sound and
  independent of transcription; the prompt and the window are the speaker's own; a configuration that loads starts the
  bridge, whose household replies the webhook never clips. The theorems of kind error state defects: a house copy read
  before the lock, a disabled device that returns, a rest lost with a failed call, names with the letter yo, lost answers, returning summaries, server-less tool calls.
  A summary takes what had left the window whatever is recorded meanwhile, under the condition that the profile is not
  erased in between (\<open>conv_other\<close> and \<open>forgets\<close> in \<open>Dialogue_System\<close>).

  \<^bold>\<open>Not modelled.\<close> Of \<^verbatim>\<open>main.rs\<close> logging, listening and signals, which are I/O; what connecting and migrating come to
  are arguments of \<open>main_state\<close>. The router and the health route: calls of axum. The crate roots: re-exports. Of the
  tests, what some assert of the bytes of a ciphertext or a digest, since the primitives are parameters (the tests of
  \<^verbatim>\<open>state_crypto.rs\<close> run on stand-ins), and those under \<^verbatim>\<open>tests/\<close>, which need a database or a server. Cost accumulation in floating point is a
  parameter, so no theorem bounds its rounding; the tests of prices use hundredths.
\<close>

end
